(* ===== verification/Prelude.thy ===== *)
theory Prelude
  imports Main "HOL-Library.Sublist" "HOL-Library.Word"
begin

text \<open>
  Shared notions of the development: the theorem collections the component proofs use, the
  characters and byte strings of the wire format, sub-list search, decimal notation, and the
  line structure of a message head (lines ended by CR LF, closed by an empty line).  Nothing
  here models a function of the server; the theories after this one do.
\<close>

section \<open>Theorem collections\<close>

named_theorems clib_simps \<open>equations of the C library model that evaluate on literals\<close>
named_theorems world_simps \<open>what each primitive operation does to each field of the world\<close>
named_theorems frame_simps \<open>fields an operation of the server leaves alone\<close>

unbundle bit_operations_syntax

section \<open>Bytes\<close>

type_synonym bytes = "char list"

abbreviation NUL :: char where "NUL \<equiv> CHR 0x00"
abbreviation CR :: char where "CR \<equiv> CHR 0x0D"
abbreviation LF :: char where "LF \<equiv> CHR 0x0A"
abbreviation SP :: char where "SP \<equiv> CHR '' ''"
abbreviation SLASH :: char where "SLASH \<equiv> CHR ''/''"
abbreviation CRLF :: bytes where "CRLF \<equiv> [CR, LF]"

section \<open>Searching a sub-list\<close>

fun find_sub :: "'a list \<Rightarrow> 'a list \<Rightarrow> nat option" where
  "find_sub [] pat = (if pat = [] then Some 0 else None)"
| "find_sub (x # xs) pat =
     (if prefix pat (x # xs) then Some 0 else map_option Suc (find_sub xs pat))"

fun digit_char :: "nat \<Rightarrow> char" where
  "digit_char d = char_of (48 + d)"

fun show_nat :: "nat \<Rightarrow> bytes" where
  "show_nat n = (if n < 10 then [digit_char n] else show_nat (n div 10) @ [digit_char (n mod 10)])"

definition is_digit :: "char \<Rightarrow> bool" where
  "is_digit c \<longleftrightarrow> 48 \<le> (of_char c :: nat) \<and> (of_char c :: nat) \<le> 57"

definition digit_val :: "char \<Rightarrow> nat" where
  "digit_val c = of_char c - 48"

definition read_nat :: "bytes \<Rightarrow> nat" where
  "read_nat s = foldl (\<lambda>a c. 10 * a + digit_val c) 0 s"

definition show_int :: "int \<Rightarrow> bytes" where
  "show_int i = (if i < 0 then CHR ''-'' # show_nat (nat (- i)) else show_nat (nat i))"

text \<open>
  The message head as its receiver reads it: lines up to CR LF, until an empty line.  What
  follows the empty line is the body.  \<open>None\<close> means the head does not end.
\<close>

fun read_line :: "bytes \<Rightarrow> (bytes \<times> bytes) option" where
  "read_line [] = None"
| "read_line (c # cs) =
     (if c = CR \<and> cs \<noteq> [] \<and> hd cs = LF then Some ([], tl cs)
      else map_option (\<lambda>(l, r). (c # l, r)) (read_line cs))"

lemma read_line_shorter: "read_line s = Some (l, r) \<Longrightarrow> length r < length s"
  by (induction s arbitrary: l r) (auto split: if_splits simp: less_Suc_eq)

function read_head :: "bytes \<Rightarrow> (bytes list \<times> bytes) option" where
  "read_head s =
     (case read_line s of
        None \<Rightarrow> None
      | Some (l, r) \<Rightarrow>
          if l = [] then Some ([], r)
          else map_option (\<lambda>(ls, b). (l # ls, b)) (read_head r))"
  by pat_completeness auto
termination
  by (relation "measure length") (auto simp: read_line_shorter)

declare show_nat.simps [simp del] read_head.simps [simp del]

definition crlf_lines :: "bytes list \<Rightarrow> bytes" where
  "crlf_lines ls = concat (map (\<lambda>l. l @ CRLF) ls)"

definition plain_line :: "bytes \<Rightarrow> bool" where
  "plain_line l \<longleftrightarrow> l \<noteq> [] \<and> CR \<notin> set l"

text \<open>The value of the first header line that starts with the given name.\<close>

fun header_value :: "bytes \<Rightarrow> bytes list \<Rightarrow> bytes option" where
  "header_value name [] = None"
| "header_value name (l # ls) =
     (if prefix name l then Some (drop (length name) l) else header_value name ls)"

section \<open>Lemmas on sub-list search\<close>

lemma find_sub_None: "find_sub s pat = None \<longleftrightarrow> \<not> sublist pat s"
  by (induction s) (auto simp: sublist_Cons_right)

lemma find_sub_Some_prefix: "find_sub s pat = Some k \<Longrightarrow> prefix pat (drop k s) \<and> k \<le> length s"
  by (induction s arbitrary: k) (auto split: if_splits)

lemma find_sub_Some_length:
  assumes "find_sub s pat = Some k"
  shows "k + length pat \<le> length s"
proof -
  from find_sub_Some_prefix [OF assms] have "length pat \<le> length (drop k s)" and "k \<le> length s"
    by (auto dest: prefix_length_le)
  then show ?thesis by simp
qed

lemma find_sub_Some_least: "find_sub s pat = Some k \<Longrightarrow> j < k \<Longrightarrow> \<not> prefix pat (drop j s)"
proof (induction s arbitrary: k j)
  case (Cons x xs)
  then show ?case by (cases j) (auto split: if_splits)
qed (auto split: if_splits)

lemma find_sub_Some_iff:
  "find_sub s pat = Some k \<longleftrightarrow>
     k \<le> length s \<and> prefix pat (drop k s) \<and> (\<forall>j<k. \<not> prefix pat (drop j s))"
  (is "?L \<longleftrightarrow> ?R")
proof
  show "?L \<Longrightarrow> ?R"
    by (simp add: find_sub_Some_prefix find_sub_Some_least)
next
  assume R: ?R
  then have "sublist pat s"
    by (metis prefix_imp_sublist sublist_drop sublist_order.order_trans)
  then obtain k' where k': "find_sub s pat = Some k'"
    by (cases "find_sub s pat") (auto simp: find_sub_None)
  with R have "k' = k"
    using find_sub_Some_prefix [OF k'] find_sub_Some_least [OF k'] by (metis linorder_neqE_nat)
  with k' show ?L by simp
qed

lemma find_sub_mono_prefix:
  assumes "find_sub s (p @ q) = Some k"
  shows "\<exists>j\<le>k. find_sub s p = Some j"
proof -
  from find_sub_Some_prefix [OF assms] have pk: "prefix p (drop k s)"
    by (blast dest: append_prefixD)
  then have "sublist p s"
    by (metis prefix_imp_sublist sublist_drop sublist_order.order_trans)
  then obtain j where j: "find_sub s p = Some j"
    by (cases "find_sub s p") (auto simp: find_sub_None)
  moreover from j pk have "j \<le> k"
    using find_sub_Some_least [OF j] by (meson not_le_imp_less)
  ultimately show ?thesis by blast
qed

lemma find_sub_skip:
  assumes "c \<notin> set xs"
  shows "find_sub (xs @ c # ys) (c # p) =
           map_option (\<lambda>k. k + length xs) (find_sub (c # ys) (c # p))"
  using assms by (induction xs) (auto simp: option.map_comp comp_def)

lemma find_sub_at: "c \<notin> set xs \<Longrightarrow> find_sub (xs @ c # p @ ys) (c # p) = Some (length xs)"
  by (simp add: find_sub_skip)

lemma take_drop_length: "take n xs @ drop (length (take n xs)) xs = xs"
  by (cases "n \<le> length xs") simp_all

section \<open>Lemmas on decimal notation\<close>

lemma digit_val_digit_char: "d < 10 \<Longrightarrow> digit_val (digit_char d) = d"
  by (simp add: digit_val_def)

lemma is_digit_digit_char: "d < 10 \<Longrightarrow> is_digit (digit_char d)"
  by (simp add: is_digit_def)

lemma read_nat_snoc: "read_nat (s @ [c]) = 10 * read_nat s + digit_val c"
  by (simp add: read_nat_def)

lemma read_show_nat [simp]: "read_nat (show_nat n) = n"
proof (induction n rule: show_nat.induct)
  case (1 n)
  show ?case
  proof (cases "n < 10")
    case True
    then show ?thesis
      by (subst show_nat.simps) (simp add: read_nat_def digit_val_digit_char del: digit_char.simps)
  next
    case False
    with 1 show ?thesis
      by (subst show_nat.simps) (simp add: read_nat_snoc digit_val_digit_char del: digit_char.simps)
  qed
qed

lemma show_nat_digits: "\<forall>c \<in> set (show_nat n). is_digit c"
proof (induction n rule: show_nat.induct)
  case (1 n)
  then show ?case
    by (subst show_nat.simps) (auto simp: is_digit_digit_char simp del: digit_char.simps)
qed

lemma show_nat_no_CR [simp]: "CR \<notin> set (show_nat n)"
  using show_nat_digits by (force simp: is_digit_def)

lemma show_nat_length: "n < 10 ^ k \<Longrightarrow> 0 < k \<Longrightarrow> length (show_nat n) \<le> k"
proof (induction n arbitrary: k rule: show_nat.induct)
  case (1 n)
  show ?case
  proof (cases "n < 10")
    case True
    with "1.prems" show ?thesis by (subst show_nat.simps) simp
  next
    case False
    then obtain k' where k': "k = Suc k'" "0 < k'"
      using "1.prems" by (cases k; cases "k - 1") auto
    with "1.prems" have "n div 10 < 10 ^ k'" by (simp add: less_mult_imp_div_less mult.commute)
    with "1.IH" [OF False this k'(2)] False k' show ?thesis
      by (subst show_nat.simps) simp
  qed
qed

section \<open>Lemmas on message heads\<close>

lemma read_line_plain: "CR \<notin> set l \<Longrightarrow> read_line (l @ CR # LF # r) = Some (l, r)"
  by (induction l) auto

lemma read_head_crlf_lines:
  "\<forall>l \<in> set ls. plain_line l \<Longrightarrow> read_head (crlf_lines ls @ CRLF @ b) = Some (ls, b)"
proof (induction ls)
  case Nil
  then show ?case by (subst read_head.simps) (simp add: crlf_lines_def)
next
  case (Cons l ls)
  then have "read_line (l @ CR # LF # (crlf_lines ls @ CRLF @ b)) =
      Some (l, crlf_lines ls @ CRLF @ b)"
    by (intro read_line_plain) (simp add: plain_line_def)
  with Cons show ?case
    by (subst read_head.simps) (simp add: crlf_lines_def plain_line_def)
qed

lemma crlf_lines_Nil [simp]: "crlf_lines [] = []"
  by (simp add: crlf_lines_def)

lemma crlf_lines_Cons [simp]: "crlf_lines (l # ls) = l @ CRLF @ crlf_lines ls"
  by (simp add: crlf_lines_def)

end
