(* ===== verification/C_Library.thy ===== *)
theory C_Library
  imports Prelude
begin

text \<open>
  The functions of the C library (and of libbsd) the server calls on strings, each as a
  function on byte lists.  A C string is the list of the bytes before its terminating NUL; a
  buffer with a length may hold NUL bytes, and \<open>cstr\<close> reads the C string at its start.  A
  pointer into a buffer is an offset.
\<close>

section \<open>Definitions\<close>

definition cstr :: "bytes \<Rightarrow> bytes" where
  "cstr b = takeWhile (\<lambda>c. c \<noteq> NUL) b"

text \<open>
  \<^verbatim>\<open>strnstr(big, little, len)\<close>: the first occurrence of \<open>little\<close> in the first \<open>len\<close> bytes
  of \<open>big\<close>; bytes after a NUL are not searched.
\<close>

definition strnstr :: "bytes \<Rightarrow> bytes \<Rightarrow> nat \<Rightarrow> nat option" where
  "strnstr big little len = find_sub (cstr (take len big)) little"

text \<open>
  \<^verbatim>\<open>strtok\<close>: skip delimiters, return the bytes up to the next delimiter, and keep what
  follows that delimiter for the next call.  The saved position is passed explicitly.
\<close>

definition strtok :: "bytes \<Rightarrow> bytes \<Rightarrow> bytes option \<times> bytes" where
  "strtok s delims =
     (let t = dropWhile (\<lambda>c. c \<in> set delims) s
      in if t = [] then (None, [])
         else (Some (takeWhile (\<lambda>c. c \<notin> set delims) t),
               drop 1 (dropWhile (\<lambda>c. c \<notin> set delims) t)))"

text \<open>
  \<^verbatim>\<open>strlcpy(dst, src, n)\<close> and \<^verbatim>\<open>snprintf(dst, n, ...)\<close>: what is stored, truncated to
  \<open>n - 1\<close> bytes, and the returned length of the whole source.
\<close>

definition strlcpy :: "bytes \<Rightarrow> nat \<Rightarrow> bytes \<times> nat" where
  "strlcpy src n = (take (n - 1) src, length src)"

definition snprintf :: "nat \<Rightarrow> bytes \<Rightarrow> bytes \<times> nat" where
  "snprintf n text = (take (n - 1) text, length text)"

text \<open>\<^verbatim>\<open>strrchr\<close>: the suffix that starts at the last occurrence of the character.\<close>

definition strrchr :: "bytes \<Rightarrow> char \<Rightarrow> bytes option" where
  "strrchr s c =
     (if c \<in> set s then Some (c # rev (takeWhile (\<lambda>x. x \<noteq> c) (rev s))) else None)"

definition tolower :: "char \<Rightarrow> char" where
  "tolower c =
     (let n = (of_char c :: nat) in if 65 \<le> n \<and> n \<le> 90 then char_of (n + 32) else c)"

definition strcasecmp_eq :: "bytes \<Rightarrow> bytes \<Rightarrow> bool" where
  "strcasecmp_eq a b \<longleftrightarrow> map tolower a = map tolower b"

text \<open>
  \<^verbatim>\<open>atoi\<close> on a string of digits: the decimal value as \<^verbatim>\<open>strtol\<close> returns it (it stops at
  \<^verbatim>\<open>LONG_MAX\<close>), converted to a 32-bit \<^verbatim>\<open>int\<close>.
\<close>

definition atoi :: "bytes \<Rightarrow> 32 word" where
  "atoi s = of_nat (min (read_nat (takeWhile is_digit s)) (2 ^ 63 - 1))"

text \<open>
  The reference tokenizer: the fields between single delimiters, the empty ones dropped.
\<close>

fun split_fields :: "'a \<Rightarrow> 'a list \<Rightarrow> 'a list list" where
  "split_fields d [] = [[]]"
| "split_fields d (x # xs) =
     (if x = d then [] # split_fields d xs
      else (case split_fields d xs of [] \<Rightarrow> [[x]] | f # fs \<Rightarrow> (x # f) # fs))"

definition split_words :: "'a \<Rightarrow> 'a list \<Rightarrow> 'a list list" where
  "split_words d s = filter (\<lambda>w. w \<noteq> []) (split_fields d s)"

section \<open>C strings\<close>

lemma cstr_no_NUL: "NUL \<notin> set (cstr b)"
  unfolding cstr_def by (metis (mono_tags, lifting) set_takeWhileD)

lemma cstr_id: "NUL \<notin> set b \<Longrightarrow> cstr b = b"
  unfolding cstr_def takeWhile_eq_all_conv by blast

lemma cstr_length: "length (cstr b) \<le> length b"
  by (simp add: cstr_def length_takeWhile_le)

lemma cstr_prefix: "prefix (cstr b) b"
  by (simp add: cstr_def takeWhile_is_prefix)

lemma cstr_Nil [clib_simps]: "cstr [] = []"
  by (simp add: cstr_def)

lemma cstr_Cons [clib_simps]: "cstr (c # b) = (if c = NUL then [] else c # cstr b)"
  by (simp add: cstr_def)

section \<open>strnstr\<close>

lemma strnstr_Some_length:
  assumes "strnstr b pat n = Some k"
  shows "k + length pat \<le> n" and "k + length pat \<le> length b"
proof -
  from assms have "k + length pat \<le> length (cstr (take n b))"
    unfolding strnstr_def by (rule find_sub_Some_length)
  also have "\<dots> \<le> length (take n b)" by (rule cstr_length)
  finally show "k + length pat \<le> n" and "k + length pat \<le> length b" by simp_all
qed

lemma prefix_take_same: "prefix a b \<Longrightarrow> k \<le> length a \<Longrightarrow> take k b = take k a"
  by (auto simp: prefix_def)

lemma strnstr_take:
  assumes "strnstr b pat n = Some k"
  shows "take k b = take k (cstr (take n b))"
proof -
  from assms have "k \<le> length (cstr (take n b))"
    unfolding strnstr_def using find_sub_Some_length by fastforce
  then show ?thesis
    by (meson cstr_prefix prefix_order.order_trans prefix_take_same take_is_prefix)
qed

text \<open>A match is found again in a buffer cut off right after it.\<close>

lemma find_sub_take:
  assumes "find_sub s pat = Some k" "pat \<noteq> []"
  shows "find_sub (take (k + length pat) s) pat = Some k"
proof -
  have p: "prefix pat (drop k s)" "k + length pat \<le> length s" "\<And>j. j < k \<Longrightarrow> \<not> prefix pat (drop j s)"
    using find_sub_Some_prefix [OF assms(1)] find_sub_Some_length [OF assms(1)] find_sub_Some_least [OF assms(1)] by auto
  have "prefix pat (drop k (take (k + length pat) s))"
    using p(1) by (auto simp: drop_take prefix_def)
  moreover have "\<not> prefix pat (drop j (take (k + length pat) s))" if "j < k" for j
    using p(3) [OF that] take_is_prefix [of "k + length pat - j" "drop j s"]
    by (auto simp: drop_take dest: prefix_order.order_trans)
  ultimately show ?thesis using p(2) by (simp add: find_sub_Some_iff)
qed

lemma cstr_take: "cstr (take n b) = take n (cstr b)"
  by (induction b arbitrary: n) (auto simp: cstr_def take_Cons')

lemma strnstr_cut:
  assumes "strnstr b pat n = Some k" "pat \<noteq> []"
  shows "strnstr b pat (k + length pat) = Some k"
proof -
  have "k + length pat \<le> n" using strnstr_Some_length(1) [OF assms(1)] .
  then have "cstr (take (k + length pat) b) = take (k + length pat) (cstr (take n b))"
    by (simp add: cstr_take min_def)
  then show ?thesis using find_sub_take [OF assms(1) [unfolded strnstr_def] assms(2)] by (simp add: strnstr_def)
qed

lemma strnstr_no_NUL:
  assumes "strnstr b pat n = Some k"
  shows "NUL \<notin> set (take k b)"
  using strnstr_take [OF assms] cstr_no_NUL [of "take n b"] by (metis in_set_takeD)

lemma strnstr_mono:
  assumes "strnstr b (p @ q) n = Some k"
  shows "\<exists>j\<le>k. strnstr b p n = Some j"
  using assms unfolding strnstr_def by (rule find_sub_mono_prefix)

section \<open>strtok and the reference tokenizer\<close>

lemma split_fields_not_Nil [simp]: "split_fields d s \<noteq> []"
  by (induction s) (auto split: list.splits)

lemma split_words_Nil [simp]: "split_words d [] = []"
  by (simp add: split_words_def)

lemma split_words_delim [simp]: "split_words d (d # s) = split_words d s"
  by (simp add: split_words_def)

lemma split_words_dropWhile [simp]: "split_words d (dropWhile (\<lambda>c. c = d) s) = split_words d s"
  by (induction s) auto

lemma split_fields_append: "d \<notin> set a \<Longrightarrow> split_fields d (a @ d # s) = a # split_fields d s"
  by (induction a) auto

lemma split_fields_single: "d \<notin> set a \<Longrightarrow> split_fields d a = [a]"
  by (induction a) auto

lemma split_words_append:
  "d \<notin> set a \<Longrightarrow> a \<noteq> [] \<Longrightarrow> split_words d (a @ d # s) = a # split_words d s"
  by (simp add: split_words_def split_fields_append)

lemma split_words_single: "d \<notin> set a \<Longrightarrow> a \<noteq> [] \<Longrightarrow> split_words d a = [a]"
  by (simp add: split_words_def split_fields_single)

lemma split_words_token:
  assumes "s \<noteq> []" and "hd s \<noteq> d"
  shows "split_words d s =
           takeWhile (\<lambda>c. c \<noteq> d) s # split_words d (drop 1 (dropWhile (\<lambda>c. c \<noteq> d) s))"
proof -
  let ?a = "takeWhile (\<lambda>c. c \<noteq> d) s" and ?r = "dropWhile (\<lambda>c. c \<noteq> d) s"
  have a: "d \<notin> set ?a" "?a \<noteq> []"
    using assms by (auto dest: set_takeWhileD simp: takeWhile_eq_Nil_iff)
  show ?thesis
  proof (cases ?r)
    case Nil
    then have "s = ?a" by (metis dropWhile_eq_Nil_conv takeWhile_eq_all_conv)
    with a Nil show ?thesis by (metis drop_Nil split_words_Nil split_words_single)
  next
    case (Cons x r)
    then have "x = d" by (metis (mono_tags, lifting) dropWhile_eq_Cons_conv)
    with Cons have "s = ?a @ d # r" by (metis takeWhile_dropWhile_id)
    with a Cons show ?thesis
      by (metis One_nat_def drop0 drop_Suc_Cons split_words_append)
  qed
qed

lemma strtok_words:
  "strtok s [d] =
     (case split_words d s of
        [] \<Rightarrow> (None, [])
      | w # ws \<Rightarrow> (Some w, snd (strtok s [d])))"
  "split_words d (snd (strtok s [d])) = tl (split_words d s)"
proof -
  let ?t = "dropWhile (\<lambda>c. c = d) s"
  have t: "?t \<noteq> [] \<Longrightarrow> hd ?t \<noteq> d" by (rule hd_dropWhile)
  have w: "?t \<noteq> [] \<Longrightarrow> split_words d s =
      takeWhile (\<lambda>c. c \<noteq> d) ?t # split_words d (drop 1 (dropWhile (\<lambda>c. c \<noteq> d) ?t))"
    using split_words_token [OF _ t] by (metis split_words_dropWhile)
  have e: "?t = [] \<Longrightarrow> split_words d s = []"
    by (metis split_words_Nil split_words_dropWhile)
  show "strtok s [d] = (case split_words d s of [] \<Rightarrow> (None, [])
      | w # ws \<Rightarrow> (Some w, snd (strtok s [d])))"
    unfolding strtok_def Let_def by (cases "?t = []") (simp_all del: dropWhile_eq_Nil_conv add: w e)
  show "split_words d (snd (strtok s [d])) = tl (split_words d s)"
    unfolding strtok_def Let_def by (cases "?t = []") (simp_all del: dropWhile_eq_Nil_conv add: w e)
qed

lemma fst_strtok: "fst (strtok s [d]) = (case split_words d s of [] \<Rightarrow> None | w # _ \<Rightarrow> Some w)"
  by (subst strtok_words(1)) (simp split: list.splits)

lemma split_words_sound: "w \<in> set (split_words d s) \<Longrightarrow> w \<noteq> [] \<and> d \<notin> set w"
proof -
  have "\<forall>f \<in> set (split_fields d s). d \<notin> set f"
    by (induction s) (auto split: list.splits)
  then show "w \<in> set (split_words d s) \<Longrightarrow> w \<noteq> [] \<and> d \<notin> set w"
    by (auto simp: split_words_def)
qed

lemma split_words_chars: "w \<in> set (split_words d s) \<Longrightarrow> set w \<subseteq> set s"
proof -
  have "\<forall>f \<in> set (split_fields d s). set f \<subseteq> set s"
    by (induction s) (auto split: list.splits)
  then show "w \<in> set (split_words d s) \<Longrightarrow> set w \<subseteq> set s"
    by (auto simp: split_words_def)
qed

lemma split_words_length: "w \<in> set (split_words d s) \<Longrightarrow> length w \<le> length s"
proof -
  have "\<forall>f \<in> set (split_fields d s). length f \<le> length s"
    by (induction s) (auto split: list.splits intro: le_SucI)
  then show "w \<in> set (split_words d s) \<Longrightarrow> length w \<le> length s"
    by (auto simp: split_words_def)
qed

lemma split_fields_first: "split_fields d s = f # g # fs \<Longrightarrow> prefix (f @ [d]) s"
proof (induction s arbitrary: f g fs)
  case (Cons x s)
  then show ?case by (cases "split_fields d s") (auto split: if_splits list.splits)
qed simp

lemma split_fields_snoc: "split_fields d (a @ d # b) = split_fields d a @ split_fields d b"
proof (induction a)
  case (Cons x a)
  then show ?case by (cases "split_fields d a") auto
qed simp

end
