(* ===== verification/World.thy ===== *)
theory World
  imports C_Library
begin

text \<open>
  The machine the server runs on.  Two records:

  \<^item> \<open>os\<close> holds what the server only calls and does not define: the outcome of each heap
    request, the file system behind \<^verbatim>\<open>fopen\<close>/\<^verbatim>\<open>fstat\<close>/\<^verbatim>\<open>opendir\<close>, the clock, libmagic, pipes and
    the CGI child process.  Every definition that uses one of them takes the record as an
    argument, so a theorem holds for every behaviour of these parts.

  \<^item> \<open>world\<close> holds the state the server changes outside its own variables: heap blocks, open
    \<^verbatim>\<open>FILE\<close> streams, open descriptors, the bytes put on each socket and in the log, the address
    and port each listening socket is bound to (no address for the wildcard), the standard
    output, whether the process has detached from its terminal, whether the libmagic database is
    open, and a list of faults.  A \<^verbatim>\<open>FILE *\<close> or a heap pointer is an identifier that is never reused, so two
    variables that hold the same identifier alias one object, and closing or freeing it twice
    is visible.  Undefined behaviour of C (a double \<^verbatim>\<open>fclose\<close>, an overrun) does not stop the
    model: it is recorded in \<open>w_faults\<close>, and a run without undefined behaviour is one that
    leaves that list alone.
\<close>

section \<open>Operating system and libraries, as parameters\<close>

datatype errno = EAGAIN | EWOULDBLOCK | EINTR | EACCES | ENOENT | EOTHER nat

text \<open>
  What \<^verbatim>\<open>fopen\<close> finds under a path: \<^verbatim>\<open>fi_stat_ok\<close> tells whether \<^verbatim>\<open>fstat\<close> on the open stream
  succeeds, the next three are the fields of \<^verbatim>\<open>struct stat\<close> the server reads, \<^verbatim>\<open>fi_data\<close> the
  bytes \<^verbatim>\<open>fread\<close> delivers.
\<close>

record file_info =
  fi_stat_ok :: bool
  fi_is_dir :: bool
  fi_size :: int
  fi_mtime :: int
  fi_data :: bytes

record dirent =
  d_name :: bytes
  d_is_dir :: bool

text \<open>
  Input waiting on a descriptor, in order: bytes, end of file, or a failing call.
\<close>

datatype io_event = Data bytes | Eof | Fail errno

datatype io_result = Got bytes | Failed errno

datatype wait_result = WaitFailed | Exited nat | Killed

text \<open>One execution of a CGI script, as its parent sees it.\<close>

record cgi_run =
  cgi_fork_ok :: bool
  cgi_output :: "io_event list"
  cgi_wait :: wait_result

record os =
  os_alloc :: "nat \<Rightarrow> bool"
  os_now :: bytes
  os_gmtime :: "int \<Rightarrow> bytes option"
  os_fopen :: "bytes \<Rightarrow> errno + file_info"
  os_opendir :: "bytes \<Rightarrow> dirent list option"
  os_magic :: "file_info \<Rightarrow> bytes option"
  os_pipe :: "(int \<times> int) option"
  os_cgi :: "bytes \<Rightarrow> (bytes \<times> bytes) list \<Rightarrow> cgi_run"

section \<open>The world\<close>

datatype fault =
    DoubleFclose nat
  | BadFree nat
  | HeapOverrun nat
  | StackOverrun
  | LogOverrun
  | BadStream
  | NullStream
  | NullString
  | SlotOutOfRange nat
  | SignedOverflow

record block =
  b_size :: nat
  b_data :: bytes

record stream =
  s_file :: file_info
  s_pos :: nat

record world =
  w_next :: nat
  w_blocks :: "nat \<Rightarrow> block option"
  w_streams :: "nat \<Rightarrow> stream option"
  w_fds :: "int \<Rightarrow> bool"
  w_wire :: "int \<Rightarrow> bytes"
  w_shut :: "int \<Rightarrow> bool"
  w_log :: bytes
  w_listen :: "int \<Rightarrow> (bytes option \<times> 16 word) option"
  w_stdout :: bytes
  w_stdout_open :: bool
  w_detached :: bool
  w_magic :: bool
  w_faults :: "fault list"

type_synonym ptr = "nat option"

definition empty_world :: world where
  "empty_world =
     \<lparr>w_next = 0, w_blocks = (\<lambda>_. None), w_streams = (\<lambda>_. None), w_fds = (\<lambda>_. False),
      w_wire = (\<lambda>_. []), w_shut = (\<lambda>_. False), w_log = [],
      w_listen = (\<lambda>_. None), w_stdout = [], w_stdout_open = True, w_detached = False,
      w_magic = False, w_faults = []\<rparr>"

definition raise_fault :: "fault \<Rightarrow> world \<Rightarrow> world" where
  "raise_fault f w = w\<lparr>w_faults := w_faults w @ [f]\<rparr>"

definition fault_if :: "bool \<Rightarrow> fault \<Rightarrow> world \<Rightarrow> world" where
  "fault_if b f w = (if b then raise_fault f w else w)"

subsection \<open>Heap\<close>

text \<open>\<^verbatim>\<open>malloc\<close> (and the buffer an \<^verbatim>\<open>open_memstream\<close> makes): the outcome is the system's.\<close>

definition c_malloc :: "os \<Rightarrow> nat \<Rightarrow> world \<Rightarrow> ptr \<times> world" where
  "c_malloc sys n w =
     (let w1 = w\<lparr>w_next := Suc (w_next w)\<rparr>
      in if os_alloc sys (w_next w)
         then (Some (w_next w), w1\<lparr>w_blocks := (w_blocks w)(w_next w \<mapsto> \<lparr>b_size = n, b_data = []\<rparr>)\<rparr>)
         else (None, w1))"

text \<open>\<^verbatim>\<open>realloc\<close>: the contents are kept, the old block is released; on failure nothing changes.\<close>

definition c_realloc :: "os \<Rightarrow> ptr \<Rightarrow> nat \<Rightarrow> world \<Rightarrow> ptr \<times> world" where
  "c_realloc sys p n w =
     (case p of
        None \<Rightarrow> c_malloc sys n w
      | Some i \<Rightarrow>
          (let w1 = w\<lparr>w_next := Suc (w_next w)\<rparr>
           in if os_alloc sys (w_next w)
              then (case w_blocks w i of
                      None \<Rightarrow> (Some (w_next w), raise_fault (BadFree i) w1)
                    | Some b \<Rightarrow>
                        (Some (w_next w),
                         w1\<lparr>w_blocks := (w_blocks w)(i := None,
                              w_next w \<mapsto> \<lparr>b_size = n, b_data = take n (b_data b)\<rparr>)\<rparr>))
              else (None, w1)))"

definition c_free :: "ptr \<Rightarrow> world \<Rightarrow> world" where
  "c_free p w =
     (case p of
        None \<Rightarrow> w
      | Some i \<Rightarrow>
          if w_blocks w i = None then raise_fault (BadFree i) w
          else w\<lparr>w_blocks := (w_blocks w)(i := None)\<rparr>)"

text \<open>
  \<^verbatim>\<open>memcpy(p + off, data, n)\<close> with \<open>n = length data\<close>: an overrun when the block is too small.
\<close>

definition c_memcpy :: "nat \<Rightarrow> nat \<Rightarrow> bytes \<Rightarrow> world \<Rightarrow> world" where
  "c_memcpy i off d w =
     (case w_blocks w i of
        None \<Rightarrow> raise_fault (HeapOverrun i) w
      | Some b \<Rightarrow>
          if b_size b < off + length d then raise_fault (HeapOverrun i) w
          else w\<lparr>w_blocks := (w_blocks w)(i \<mapsto>
                 b\<lparr>b_data := take off (b_data b) @ d @ drop (off + length d) (b_data b)\<rparr>)\<rparr>)"

definition block_data :: "world \<Rightarrow> ptr \<Rightarrow> bytes" where
  "block_data w p =
     (case p of None \<Rightarrow> [] | Some i \<Rightarrow> (case w_blocks w i of None \<Rightarrow> [] | Some b \<Rightarrow> b_data b))"

text \<open>
  \<^verbatim>\<open>open_memstream\<close> makes a block that grows with what is written to the stream; it always has
  room for the bytes and a NUL.  \<open>c_mwrite\<close> is a write to such a stream, \<open>c_memstream\<close> a stream
  opened and written in one go.
\<close>

definition c_open_memstream :: "os \<Rightarrow> world \<Rightarrow> ptr \<times> world" where
  "c_open_memstream sys w = c_malloc sys 1 w"

definition c_mwrite :: "nat \<Rightarrow> bytes \<Rightarrow> world \<Rightarrow> world" where
  "c_mwrite i d w =
     (case w_blocks w i of
        None \<Rightarrow> raise_fault (HeapOverrun i) w
      | Some b \<Rightarrow>
          w\<lparr>w_blocks := (w_blocks w)(i \<mapsto>
             \<lparr>b_size = Suc (length (b_data b @ d)), b_data = b_data b @ d\<rparr>)\<rparr>)"

definition c_memstream :: "os \<Rightarrow> bytes \<Rightarrow> world \<Rightarrow> ptr \<times> world" where
  "c_memstream sys d w =
     (case c_open_memstream sys w of
        (None, w1) \<Rightarrow> (None, w1)
      | (Some i, w1) \<Rightarrow> (Some i, c_mwrite i d w1))"

subsection \<open>Streams\<close>

definition c_fopen :: "os \<Rightarrow> bytes \<Rightarrow> world \<Rightarrow> (errno + nat) \<times> world" where
  "c_fopen sys path w =
     (case os_fopen sys path of
        Inl e \<Rightarrow> (Inl e, w)
      | Inr f \<Rightarrow>
          (Inr (w_next w),
           w\<lparr>w_next := Suc (w_next w),
             w_streams := (w_streams w)(w_next w \<mapsto> \<lparr>s_file = f, s_pos = 0\<rparr>)\<rparr>))"

definition c_fclose :: "nat \<Rightarrow> world \<Rightarrow> world" where
  "c_fclose h w =
     (if w_streams w h = None then raise_fault (DoubleFclose h) w
      else w\<lparr>w_streams := (w_streams w)(h := None)\<rparr>)"

definition c_fstat :: "nat \<Rightarrow> world \<Rightarrow> file_info option" where
  "c_fstat h w =
     (case w_streams w h of
        None \<Rightarrow> None
      | Some s \<Rightarrow> if fi_stat_ok (s_file s) then Some (s_file s) else None)"

text \<open>\<^verbatim>\<open>fread(buf, 1, n, fp)\<close>: at most \<open>n\<close> bytes from the position, which moves on.\<close>

definition c_fread :: "nat \<Rightarrow> nat \<Rightarrow> world \<Rightarrow> bytes \<times> world" where
  "c_fread h n w =
     (case w_streams w h of
        None \<Rightarrow> ([], raise_fault BadStream w)
      | Some s \<Rightarrow>
          (let d = take n (drop (s_pos s) (fi_data (s_file s)))
           in (d, w\<lparr>w_streams := (w_streams w)(h \<mapsto> s\<lparr>s_pos := s_pos s + length d\<rparr>)\<rparr>)))"

subsection \<open>Descriptors\<close>

definition c_close :: "int \<Rightarrow> world \<Rightarrow> world" where
  "c_close d w = w\<lparr>w_fds := (w_fds w)(d := False)\<rparr>"

subsection \<open>The terminal and libmagic\<close>

text \<open>
  \<^verbatim>\<open>daemon(-1, 0)\<close> goes on in a child whose standard streams are \<^verbatim>\<open>/dev/null\<close>, or fails and
  changes nothing.  What is printed after that is lost, as
  is what is printed to a closed standard output.
\<close>

definition c_daemon :: "bool \<Rightarrow> world \<Rightarrow> world" where
  "c_daemon ok w = (if ok then w\<lparr>w_detached := True\<rparr> else w)"

definition c_printf :: "bytes \<Rightarrow> world \<Rightarrow> world" where
  "c_printf d w =
     (if w_stdout_open w \<and> \<not> w_detached w then w\<lparr>w_stdout := w_stdout w @ d\<rparr> else w)"

definition c_fclose_stdout :: "world \<Rightarrow> world" where
  "c_fclose_stdout w = w\<lparr>w_stdout_open := False\<rparr>"

definition c_magic_open :: "world \<Rightarrow> world" where
  "c_magic_open w = w\<lparr>w_magic := True\<rparr>"

definition c_magic_close :: "world \<Rightarrow> world" where
  "c_magic_close w = w\<lparr>w_magic := False\<rparr>"

subsection \<open>Waiting input\<close>

text \<open>
  One \<^verbatim>\<open>recv\<close> or \<^verbatim>\<open>read\<close> of at most \<open>n\<close> bytes.  A longer run of waiting bytes is delivered
  in parts.  End of file stays; when nothing waits the call reports \<open>idle\<close>.
\<close>

fun io_read :: "io_result \<Rightarrow> nat \<Rightarrow> io_event list \<Rightarrow> io_result \<times> io_event list" where
  "io_read idle n [] = (idle, [])"
| "io_read idle n (Data d # es) =
     (if d = [] then io_read idle n es
      else if length d \<le> n then (Got d, es)
      else (Got (take n d), Data (drop n d) # es))"
| "io_read idle n (Eof # es) = (Got [], Eof # es)"
| "io_read idle n (Fail e # es) = (Failed e, es)"

fun io_weight :: "io_event list \<Rightarrow> nat" where
  "io_weight [] = 0"
| "io_weight (Data d # es) = Suc (length d) + io_weight es"
| "io_weight (e # es) = Suc (io_weight es)"

fun io_bytes :: "io_event list \<Rightarrow> bytes" where
  "io_bytes [] = []"
| "io_bytes (Data d # es) = d @ io_bytes es"
| "io_bytes (e # es) = []"

text \<open>
  Identifiers are handed out in order: nothing is live at or beyond the next one.  And a change
  of the world that touches streams only.
\<close>

definition world_ok :: "world \<Rightarrow> bool" where
  "world_ok w \<longleftrightarrow>
     (\<forall>i\<ge>w_next w. w_blocks w i = None) \<and> (\<forall>i\<ge>w_next w. w_streams w i = None)"

definition only_streams :: "world \<Rightarrow> world \<Rightarrow> bool" where
  "only_streams w w' \<longleftrightarrow>
     w_next w \<le> w_next w' \<and> w_blocks w' = w_blocks w \<and> w_fds w' = w_fds w \<and>
     w_wire w' = w_wire w \<and> w_shut w' = w_shut w \<and> w_log w' = w_log w \<and> w_faults w' = w_faults w"

text \<open>\<^verbatim>\<open>fstat\<close> on a stream that has just been opened succeeds.\<close>

definition stat_works :: "os \<Rightarrow> bool" where
  "stat_works sys \<longleftrightarrow> (\<forall>p f. os_fopen sys p = Inr f \<longrightarrow> fi_stat_ok f)"

text \<open>
  A concrete system for examples: allocations succeed, and three paths exist next to the
  server: a text file, a directory with an index file and one without.
\<close>

definition sample_file :: file_info where
  "sample_file = \<lparr>fi_stat_ok = True, fi_is_dir = False, fi_size = 5, fi_mtime = 0, fi_data = ''hello''\<rparr>"

definition sample_dir :: file_info where
  "sample_dir = \<lparr>fi_stat_ok = True, fi_is_dir = True, fi_size = 0, fi_mtime = 0, fi_data = []\<rparr>"

definition sample_time :: bytes where
  "sample_time = ''2026-01-01T00:00:00Z''"

definition sample_os :: os where
  "sample_os =
     \<lparr>os_alloc = (\<lambda>_. True), os_now = sample_time, os_gmtime = (\<lambda>_. Some sample_time),
      os_fopen = (\<lambda>p. if p \<in> {''./a.txt'', ''./d/index.htm'', ''./cgi-bin/x''} then Inr sample_file
                      else if p \<in> {''./d'', ''./e''} then Inr sample_dir
                      else if p = ''./secret'' then Inl EACCES else Inl ENOENT),
      os_opendir = (\<lambda>p. if p = ''e'' then Some [\<lparr>d_name = ''f'', d_is_dir = False\<rparr>] else None),
      os_magic = (\<lambda>_. Some ''text/plain''),
      os_pipe = Some (100, 101),
      os_cgi = (\<lambda>_ _. \<lparr>cgi_fork_ok = True, cgi_output = [Data ''ok''],
                        cgi_wait = Exited 0\<rparr>)\<rparr>"

section \<open>What the primitives do to each field\<close>

lemma raise_fault_fields [world_simps]:
  "w_next (raise_fault f w) = w_next w" "w_blocks (raise_fault f w) = w_blocks w"
  "w_streams (raise_fault f w) = w_streams w" "w_fds (raise_fault f w) = w_fds w"
  "w_wire (raise_fault f w) = w_wire w" "w_shut (raise_fault f w) = w_shut w"
  "w_log (raise_fault f w) = w_log w" "w_faults (raise_fault f w) = w_faults w @ [f]"
  by (simp_all add: raise_fault_def)

lemma fault_if_False [simp]: "fault_if False f w = w"
  by (simp add: fault_if_def)

lemma fault_if_fields [world_simps]:
  "w_next (fault_if b f w) = w_next w" "w_blocks (fault_if b f w) = w_blocks w"
  "w_streams (fault_if b f w) = w_streams w" "w_fds (fault_if b f w) = w_fds w"
  "w_wire (fault_if b f w) = w_wire w" "w_shut (fault_if b f w) = w_shut w"
  "w_log (fault_if b f w) = w_log w"
  by (simp_all add: fault_if_def raise_fault_def)

lemma c_close_fields [world_simps]:
  "w_next (c_close d w) = w_next w" "w_blocks (c_close d w) = w_blocks w"
  "w_streams (c_close d w) = w_streams w" "w_fds (c_close d w) = (w_fds w)(d := False)"
  "w_wire (c_close d w) = w_wire w" "w_shut (c_close d w) = w_shut w"
  "w_log (c_close d w) = w_log w" "w_faults (c_close d w) = w_faults w"
  by (simp_all add: c_close_def)

lemma c_fclose_fields [world_simps]:
  "w_next (c_fclose h w) = w_next w" "w_blocks (c_fclose h w) = w_blocks w"
  "w_streams (c_fclose h w) = (w_streams w)(h := None)" "w_fds (c_fclose h w) = w_fds w"
  "w_wire (c_fclose h w) = w_wire w" "w_shut (c_fclose h w) = w_shut w"
  "w_log (c_fclose h w) = w_log w"
  "w_faults (c_fclose h w) =
     (if w_streams w h = None then w_faults w @ [DoubleFclose h] else w_faults w)"
  by (auto simp: c_fclose_def raise_fault_def)

lemma c_free_fields [world_simps]:
  "w_next (c_free p w) = w_next w" "w_streams (c_free p w) = w_streams w"
  "w_fds (c_free p w) = w_fds w" "w_wire (c_free p w) = w_wire w"
  "w_shut (c_free p w) = w_shut w" "w_log (c_free p w) = w_log w"
  by (auto simp: c_free_def raise_fault_def split: option.splits)

lemma c_free_None [simp]: "c_free None w = w"
  by (simp add: c_free_def)

lemma c_free_Some_blocks [world_simps]: "w_blocks (c_free (Some i) w) = (w_blocks w)(i := None)"
  by (auto simp: c_free_def raise_fault_def)

lemma c_free_faults:
  "p = None \<or> w_blocks w (the p) \<noteq> None \<Longrightarrow> w_faults (c_free p w) = w_faults w"
  by (auto simp: c_free_def split: option.splits)

lemma c_memcpy_fields [world_simps]:
  "w_next (c_memcpy i off d w) = w_next w" "w_streams (c_memcpy i off d w) = w_streams w"
  "w_fds (c_memcpy i off d w) = w_fds w" "w_wire (c_memcpy i off d w) = w_wire w"
  "w_shut (c_memcpy i off d w) = w_shut w" "w_log (c_memcpy i off d w) = w_log w"
  by (auto simp: c_memcpy_def raise_fault_def split: option.splits)

lemma c_malloc_fields [world_simps]:
  "w_next (snd (c_malloc sys n w)) = Suc (w_next w)"
  "w_streams (snd (c_malloc sys n w)) = w_streams w" "w_fds (snd (c_malloc sys n w)) = w_fds w"
  "w_wire (snd (c_malloc sys n w)) = w_wire w" "w_shut (snd (c_malloc sys n w)) = w_shut w"
  "w_log (snd (c_malloc sys n w)) = w_log w" "w_faults (snd (c_malloc sys n w)) = w_faults w"
  by (simp_all add: c_malloc_def Let_def)

lemma c_realloc_fields [world_simps]:
  "w_next (snd (c_realloc sys p n w)) = Suc (w_next w)"
  "w_streams (snd (c_realloc sys p n w)) = w_streams w" "w_fds (snd (c_realloc sys p n w)) = w_fds w"
  "w_wire (snd (c_realloc sys p n w)) = w_wire w" "w_shut (snd (c_realloc sys p n w)) = w_shut w"
  "w_log (snd (c_realloc sys p n w)) = w_log w"
  by (auto simp: c_realloc_def Let_def world_simps split: option.split)

lemma c_memstream_eq:
  "c_memstream sys d w =
     (if os_alloc sys (w_next w)
      then (Some (w_next w),
            w\<lparr>w_next := Suc (w_next w),
              w_blocks := (w_blocks w)(w_next w \<mapsto> \<lparr>b_size = Suc (length d), b_data = d\<rparr>)\<rparr>)
      else (None, w\<lparr>w_next := Suc (w_next w)\<rparr>))"
  by (simp add: c_memstream_def c_open_memstream_def c_malloc_def c_mwrite_def Let_def)

lemma only_streams_refl [simp]: "only_streams w w"
  by (simp add: only_streams_def)

lemma only_streams_trans: "only_streams a b \<Longrightarrow> only_streams b c \<Longrightarrow> only_streams a c"
  by (simp add: only_streams_def)

lemma c_fopen_cases:
  obtains (fail) e where "os_fopen sys p = Inl e" "c_fopen sys p w = (Inl e, w)"
  | (opens) f w' where "os_fopen sys p = Inr f" "c_fopen sys p w = (Inr (w_next w), w')"
      "only_streams w w'" "w_next w' = Suc (w_next w)"
      "w_streams w' = (w_streams w)(w_next w \<mapsto> \<lparr>s_file = f, s_pos = 0\<rparr>)"
proof (cases "os_fopen sys p")
  case (Inl e)
  with fail show thesis by (simp add: c_fopen_def)
next
  case (Inr f)
  have "c_fopen sys p w = (Inr (w_next w), snd (c_fopen sys p w))"
    by (simp add: c_fopen_def Inr)
  then show thesis
    by (rule opens [OF Inr]) (simp_all add: c_fopen_def Inr only_streams_def)
qed

lemma c_fclose_live:
  "w_streams w h \<noteq> None \<Longrightarrow> only_streams w (c_fclose h w)"
  by (simp add: only_streams_def world_simps)

lemma world_ok_fresh:
  "world_ok w \<Longrightarrow> w_next w \<le> i \<Longrightarrow> w_streams w i = None"
  "world_ok w \<Longrightarrow> w_next w \<le> i \<Longrightarrow> w_blocks w i = None"
  by (simp_all add: world_ok_def)

lemma world_ok_live:
  "world_ok w \<Longrightarrow> w_streams w i = Some s \<Longrightarrow> i < w_next w"
  "world_ok w \<Longrightarrow> w_blocks w i = Some b \<Longrightarrow> i < w_next w"
  by (metis not_le_imp_less option.distinct(1) world_ok_fresh)+

lemma world_ok_opened:
  assumes "world_ok w" "only_streams w w'" "w_next w' = Suc (w_next w)"
    and "w_streams w' = (w_streams w)(w_next w \<mapsto> s)"
  shows "world_ok w'"
  using assms by (auto simp: world_ok_def only_streams_def)

lemma world_ok_only_streams:
  assumes "world_ok w" "only_streams w w'" "\<forall>i\<ge>w_next w'. w_streams w' i = None"
  shows "world_ok w'"
  using assms by (auto simp: world_ok_def only_streams_def)

lemma world_ok_empty [simp]: "world_ok empty_world"
  by (simp add: world_ok_def empty_world_def)

section \<open>The sample system\<close>

lemma sample_os_stat [simp]: "stat_works sample_os"
  by (simp add: stat_works_def sample_os_def sample_file_def sample_dir_def)

lemma sample_os_simps [simp]:
  "os_alloc sample_os n" "os_now sample_os = sample_time"
  "os_gmtime sample_os t = Some sample_time" "os_magic sample_os fi = Some ''text/plain''"
  by (simp_all add: sample_os_def)

lemma sample_time_simps [simp]: "length sample_time = 20" "CR \<notin> set sample_time"
  by (simp_all add: sample_time_def)

section \<open>Lemmas on waiting input\<close>

lemma io_read_weight:
  "io_read idle n es = (r, es') \<Longrightarrow> r \<noteq> idle \<Longrightarrow> r \<noteq> Got [] \<Longrightarrow> io_weight es' < io_weight es"
  by (induction idle n es arbitrary: r es' rule: io_read.induct)
     (auto split: if_splits simp: less_SucI)

lemma io_read_length: "io_read idle n es = (Got d, es') \<Longrightarrow> idle \<noteq> Got d \<Longrightarrow> length d \<le> n"
  by (induction idle n es arbitrary: es' rule: io_read.induct) (auto split: if_splits)

lemma io_read_bytes:
  "io_read idle n es = (Got d, es') \<Longrightarrow> idle \<noteq> Got d \<Longrightarrow> d \<noteq> [] \<Longrightarrow> io_bytes es = d @ io_bytes es'"
  by (induction idle n es arbitrary: es' rule: io_read.induct)
     (auto split: if_splits)

end
