(* ===== verification/Server_Types.thy ===== *)
theory Server_Types
  imports World
begin

text \<open>
  The data of the server: the enumerations and structs of \<^verbatim>\<open>client_conn/connections.h\<close>,
  \<^verbatim>\<open>requests/parse_request.h\<close>, \<^verbatim>\<open>requests/resolve_path.h\<close>, \<^verbatim>\<open>logging/logging.h\<close> and the bits of
  \<^verbatim>\<open>flags/flags.h\<close>.  A C enumeration is ordered by its values; \<open>client_state\<close> and
  \<open>client_response\<close> get that order as instances of \<open>linorder\<close>, because
  \<^verbatim>\<open>build_error_response\<close> compares response codes with \<^verbatim>\<open><\<close> and because the connection
  lifecycle is stated as progress in the order of the states.
\<close>

section \<open>Enumerations\<close>

datatype client_state =
  READING | PROCESSING | SENDING_HEADER | SENDING_BODY | CLOSING | NUM_CLIENT_STATE

datatype client_response =
  RESP_200 | RESP_400 | RESP_403 | RESP_404 | RESP_414 | RESP_500 | RESP_501 | RESP_505
| NUM_CLIENT_RESP

datatype http_method =
  HTTP_GET | HTTP_POST | HTTP_HEAD | HTTP_PUT | HTTP_DELETE | HTTP_METHOD_UNKNOWN
| NUM_HTTP_METHOD

datatype http_version =
  HTTP_0_9 | HTTP_1_0 | HTTP_1_1 | HTTP_2 | HTTP_3 | HTTP_VERSION_UNSUPPORTED
| HTTP_VERSION_UNKNOWN | NUM_HTTP_VERSION

datatype Path_type = UNKNOWN | IS_FILE | IS_DIR | IS_CGI

fun client_state_ord :: "client_state \<Rightarrow> nat" where
  "client_state_ord READING = 0"
| "client_state_ord PROCESSING = 1"
| "client_state_ord SENDING_HEADER = 2"
| "client_state_ord SENDING_BODY = 3"
| "client_state_ord CLOSING = 4"
| "client_state_ord NUM_CLIENT_STATE = 5"

fun client_response_ord :: "client_response \<Rightarrow> nat" where
  "client_response_ord RESP_200 = 0"
| "client_response_ord RESP_400 = 1"
| "client_response_ord RESP_403 = 2"
| "client_response_ord RESP_404 = 3"
| "client_response_ord RESP_414 = 4"
| "client_response_ord RESP_500 = 5"
| "client_response_ord RESP_501 = 6"
| "client_response_ord RESP_505 = 7"
| "client_response_ord NUM_CLIENT_RESP = 8"

lemma client_state_ord_inj: "client_state_ord a = client_state_ord b \<Longrightarrow> a = b"
  by (cases a; cases b) simp_all

lemma client_response_ord_inj: "client_response_ord a = client_response_ord b \<Longrightarrow> a = b"
  by (cases a; cases b) simp_all

instantiation client_state :: linorder
begin

definition less_eq_client_state :: "client_state \<Rightarrow> client_state \<Rightarrow> bool" where
  "less_eq_client_state a b \<longleftrightarrow> client_state_ord a \<le> client_state_ord b"

definition less_client_state :: "client_state \<Rightarrow> client_state \<Rightarrow> bool" where
  "less_client_state a b \<longleftrightarrow> client_state_ord a < client_state_ord b"

instance
  by standard (auto simp: less_eq_client_state_def less_client_state_def
      dest: client_state_ord_inj)

end

instantiation client_response :: linorder
begin

definition less_eq_client_response :: "client_response \<Rightarrow> client_response \<Rightarrow> bool" where
  "less_eq_client_response a b \<longleftrightarrow> client_response_ord a \<le> client_response_ord b"

definition less_client_response :: "client_response \<Rightarrow> client_response \<Rightarrow> bool" where
  "less_client_response a b \<longleftrightarrow> client_response_ord a < client_response_ord b"

instance
  by standard (auto simp: less_eq_client_response_def less_client_response_def
      dest: client_response_ord_inj)

end

section \<open>Constants\<close>

definition MAX_REQUEST_SIZE :: nat where "MAX_REQUEST_SIZE = 8192"

definition TEMP_BUFFER :: nat where "TEMP_BUFFER = 2048"

definition PATH_MAX :: nat where "PATH_MAX = 4096"

definition TIME_RECEIVED_LENGTH :: nat where "TIME_RECEIVED_LENGTH = 32"

definition LOG_BUF_SIZE :: nat where "LOG_BUF_SIZE = MAX_REQUEST_SIZE + 128"

text \<open>\<^verbatim>\<open>INET6_ADDRSTRLEN\<close> of the system header.\<close>

definition INET6_ADDRSTRLEN :: nat where "INET6_ADDRSTRLEN = 46"

definition INITIAL_SIZE :: nat where "INITIAL_SIZE = 32"

definition INT_MAX :: nat where "INT_MAX = 2 ^ 31 - 1"

type_synonym flags = "32 word"

definition C_FLAG :: flags where "C_FLAG = push_bit 0 1"
definition V_FLAG :: flags where "V_FLAG = push_bit 1 1"
definition H_FLAG :: flags where "H_FLAG = push_bit 2 1"
definition B4_FLAG :: flags where "B4_FLAG = push_bit 3 1"
definition B6_FLAG :: flags where "B6_FLAG = push_bit 4 1"
definition L_FLAG :: flags where "L_FLAG = push_bit 5 1"
definition P_FLAG :: flags where "P_FLAG = push_bit 6 1"

definition flag_set :: "flags \<Rightarrow> flags \<Rightarrow> bool" where
  "flag_set app_flags f \<longleftrightarrow> app_flags AND f \<noteq> 0"

section \<open>Structs\<close>

record Client =
  in_buf :: ptr
  out_buf :: ptr
  file_ptr :: ptr
  file_size :: int
  body_sent :: nat
  input_length :: nat
  input_capacity :: nat
  output_length :: nat
  output_capacity :: nat
  output_sent :: nat
  header_len :: nat
  body_len :: nat
  fd :: int
  state :: client_state
  resp_val :: client_response
  timestamp :: bytes
  client_addr :: bytes

record Request =
  req_method :: http_method
  req_version :: http_version
  time_received :: bytes
  req_path :: bytes

record ResolvedPath =
  query_string :: bytes
  rp_file_ptr :: ptr
  rp_file_size :: int
  mime_type :: "bytes option"
  last_mod :: int
  path_type :: Path_type

record LogEntry =
  le_buf :: bytes
  le_offset :: nat

text \<open>The zero-initialised locals of \<^verbatim>\<open>do_read\<close>: all enumerations start at their first value.\<close>

definition zero_Request :: Request where
  "zero_Request =
     \<lparr>req_method = HTTP_GET, req_version = HTTP_0_9, time_received = [], req_path = []\<rparr>"

definition zero_ResolvedPath :: ResolvedPath where
  "zero_ResolvedPath =
     \<lparr>query_string = [], rp_file_ptr = None, rp_file_size = 0, mime_type = None,
      last_mod = 0, path_type = UNKNOWN\<rparr>"

definition zero_LogEntry :: LogEntry where
  "zero_LogEntry = \<lparr>le_buf = [], le_offset = 0\<rparr>"

section \<open>Facts\<close>

lemmas state_order_defs = less_eq_client_state_def less_client_state_def

lemmas resp_order_defs = less_eq_client_response_def less_client_response_def

lemma MAX_REQUEST_SIZE_pos [simp]: "0 < MAX_REQUEST_SIZE"
  by (simp add: MAX_REQUEST_SIZE_def)

lemma PATH_MAX_pos [simp]: "0 < PATH_MAX"
  by (simp add: PATH_MAX_def)

end
