(* ===== verification/Logging.thy ===== *)
theory Logging
  imports Server_Types
begin

text \<open>
  \<^verbatim>\<open>logging/logging.c\<close>: a log line is assembled piecewise in a fixed buffer by \<open>log_append\<close> and
  written once by \<open>do_logging\<close>.  The size argument of \<^verbatim>\<open>vsnprintf\<close> is a \<^verbatim>\<open>size_t\<close>; after an
  offset past the buffer it would wrap around, so it is modelled at 64 bits.  The lemmas show
  when no call ever writes outside the buffer and that the buffer then holds exactly the
  concatenation of the pieces.
\<close>

section \<open>Definitions\<close>

fun resp_val_to_status_string :: "client_response \<Rightarrow> bytes" where
  "resp_val_to_status_string RESP_200 = ''200''"
| "resp_val_to_status_string RESP_400 = ''400''"
| "resp_val_to_status_string RESP_403 = ''403''"
| "resp_val_to_status_string RESP_404 = ''404''"
| "resp_val_to_status_string RESP_414 = ''414''"
| "resp_val_to_status_string RESP_500 = ''500''"
| "resp_val_to_status_string RESP_501 = ''501''"
| "resp_val_to_status_string RESP_505 = ''505''"
| "resp_val_to_status_string NUM_CLIENT_RESP = ''000''"

text \<open>
  \<open>log_append le text\<close> with \<open>text\<close> the formatted arguments.  \<^verbatim>\<open>vsnprintf\<close> gets
  \<^verbatim>\<open>LOG_BUF_SIZE - le->offset\<close> as a \<^verbatim>\<open>size_t\<close>, stores at most one byte less and a NUL, and
  returns the full length, which is added to the offset.
\<close>

definition log_room :: "nat \<Rightarrow> 64 word" where
  "log_room offset = of_nat LOG_BUF_SIZE - of_nat offset"

definition log_append :: "LogEntry \<Rightarrow> bytes \<Rightarrow> world \<Rightarrow> LogEntry \<times> world" where
  "log_append le text w =
     (let room = unat (log_room (le_offset le));
          stored = take (room - 1) text;
          w1 = fault_if (LOG_BUF_SIZE < le_offset le + (if room = 0 then 0 else Suc (length stored)))
                 LogOverrun w
      in (\<lparr>le_buf = take (le_offset le) (le_buf le) @ stored,
           le_offset = le_offset le + length text\<rparr>, w1))"

text \<open>\<^verbatim>\<open>do_logging\<close> prints the buffer to the open log stream.\<close>

definition do_logging :: "ptr \<Rightarrow> LogEntry \<Rightarrow> world \<Rightarrow> world" where
  "do_logging log_ptr le w =
     (case log_ptr of
        None \<Rightarrow> raise_fault NullStream w
      | Some _ \<Rightarrow> w\<lparr>w_log := w_log w @ cstr (le_buf le)\<rparr>)"

text \<open>The guard both callers use: \<^verbatim>\<open>(app_flags & V_FLAG) || (app_flags & L_FLAG)\<close>.\<close>

definition logging_on :: "flags \<Rightarrow> bool" where
  "logging_on app_flags \<longleftrightarrow> flag_set app_flags V_FLAG \<or> flag_set app_flags L_FLAG"

definition log_ok :: "LogEntry \<Rightarrow> bool" where
  "log_ok le \<longleftrightarrow> length (le_buf le) = le_offset le \<and> le_offset le < LOG_BUF_SIZE"

section \<open>Lemmas\<close>

lemma unat_log_room: "off \<le> LOG_BUF_SIZE \<Longrightarrow> unat (log_room off) = LOG_BUF_SIZE - off"
proof -
  assume off: "off \<le> LOG_BUF_SIZE"
  have b: "LOG_BUF_SIZE < 2 ^ 64" by (simp add: LOG_BUF_SIZE_def MAX_REQUEST_SIZE_def)
  from off have "log_room off = of_nat (LOG_BUF_SIZE - off)"
    by (simp add: log_room_def of_nat_diff)
  with b show ?thesis by (simp add: unat_of_nat)
qed

lemma log_append_fits:
  assumes "log_ok le" and "le_offset le + length text < LOG_BUF_SIZE"
  shows "log_append le text w =
           (\<lparr>le_buf = le_buf le @ text, le_offset = le_offset le + length text\<rparr>, w)"
    and "log_ok (fst (log_append le text w))"
  using assms by (simp_all add: log_append_def log_ok_def unat_log_room Let_def)

lemma log_append_fields [frame_simps]:
  "le_offset (fst (log_append le text w)) = le_offset le + length text"
  "w_blocks (snd (log_append le text w)) = w_blocks w"
  "w_streams (snd (log_append le text w)) = w_streams w"
  "w_next (snd (log_append le text w)) = w_next w"
  "w_fds (snd (log_append le text w)) = w_fds w"
  "w_wire (snd (log_append le text w)) = w_wire w"
  "w_shut (snd (log_append le text w)) = w_shut w"
  "w_log (snd (log_append le text w)) = w_log w"
  by (simp_all add: log_append_def Let_def world_simps)

lemma zero_LogEntry_offset [simp]: "le_offset zero_LogEntry = 0"
  by (simp add: zero_LogEntry_def)

lemma log_ok_zero [simp]: "log_ok zero_LogEntry"
  by (simp add: log_ok_def zero_LogEntry_def LOG_BUF_SIZE_def)

end
