(* ===== verification/Parse_Request.thy ===== *)
theory Parse_Request
  imports Logging
begin

text \<open>
  \<^verbatim>\<open>requests/parse_request.c\<close>: the request-line parser.  The model follows the code statement by
  statement: the three searches and copies into fixed buffers, the four \<^verbatim>\<open>strtok\<close> calls, the
  checks in their order with the \<^verbatim>\<open>DETERMINED_*\<close> macros as the values they leave behind.  The
  second part gives a specification of the request line (split at spaces, then a table of
  rules) and shows that the code computes it; the third shows what an accepted request
  guarantees, and the bounds of the fixed buffers.
\<close>

section \<open>Definitions\<close>

definition method_from_token :: "bytes \<Rightarrow> nat \<Rightarrow> http_method" where
  "method_from_token tok len =
     (if len = 0 then HTTP_METHOD_UNKNOWN
      else if len = length ''GET'' \<and> take len tok = ''GET'' then HTTP_GET
      else if len = length ''POST'' \<and> take len tok = ''POST'' then HTTP_POST
      else if len = length ''HEAD'' \<and> take len tok = ''HEAD'' then HTTP_HEAD
      else HTTP_METHOD_UNKNOWN)"

definition version_from_token :: "bytes \<Rightarrow> nat \<Rightarrow> http_version" where
  "version_from_token tok len =
     (if len = 0 then HTTP_VERSION_UNKNOWN
      else if len = length ''HTTP/1.0'' \<and> take len tok = ''HTTP/1.0'' then HTTP_1_0
      else if len = length ''HTTP/1.1'' \<and> take len tok = ''HTTP/1.1'' then HTTP_1_1
      else if len = length ''HTTP/0.9'' \<and> take len tok = ''HTTP/0.9'' then HTTP_VERSION_UNSUPPORTED
      else if len = length ''HTTP/2.0'' \<and> take len tok = ''HTTP/2.0'' then HTTP_VERSION_UNSUPPORTED
      else if len = length ''HTTP/3.0'' \<and> take len tok = ''HTTP/3.0'' then HTTP_VERSION_UNSUPPORTED
      else HTTP_VERSION_UNKNOWN)"

definition path_has_traversal :: "bytes \<Rightarrow> nat \<Rightarrow> bool" where
  "path_has_traversal path len \<longleftrightarrow> strnstr path ''../'' len \<noteq> None"

text \<open>The macro \<^verbatim>\<open>DETERMINED_400\<close>: both enumerations get their unknown value.\<close>

definition determined_400 :: "Request \<Rightarrow> Request" where
  "determined_400 out =
     out\<lparr>req_method := HTTP_METHOD_UNKNOWN, req_version := HTTP_VERSION_UNKNOWN\<rparr>"

type_synonym parse_result = "int \<times> Request \<times> client_response \<times> LogEntry \<times> world"

text \<open>The checks after the request line has been split, from the version to the return.\<close>

definition validate_request :: "Request \<Rightarrow> client_response \<Rightarrow> LogEntry \<Rightarrow> world \<Rightarrow> parse_result" where
  "validate_request out resp le w =
     (if req_path out = [] \<or> hd (req_path out) \<noteq> SLASH then (-1, determined_400 out, RESP_400, le, w)
      else if req_version out = HTTP_VERSION_UNKNOWN then (-1, determined_400 out, RESP_400, le, w)
      else if req_version out = HTTP_VERSION_UNSUPPORTED then (-1, out, RESP_505, le, w)
      else if path_has_traversal (req_path out) (length (req_path out)) then (-1, out, RESP_403, le, w)
      else if req_method out = HTTP_METHOD_UNKNOWN then (-1, out, RESP_501, le, w)
      else if req_method out = HTTP_POST then (-1, out, RESP_501, le, w)
      else (0, out, resp, le, w))"

definition parse_request ::
    "os \<Rightarrow> flags \<Rightarrow> bytes option \<Rightarrow> nat \<Rightarrow> Request \<Rightarrow> client_response \<Rightarrow> LogEntry \<Rightarrow> world \<Rightarrow> parse_result"
where
  "parse_request sys app_flags buf len out resp le w =
     (case buf of
        None \<Rightarrow> (-1, determined_400 out, RESP_400, le, w)
      | Some b \<Rightarrow>
          if len = 0 \<or> strnstr b (CRLF @ CRLF) len = None
          then (-1, determined_400 out, RESP_400, le, w)
          else
            let out1 = out\<lparr>time_received := os_now sys\<rparr>;
                line_length = (case strnstr b CRLF len of Some k \<Rightarrow> k | None \<Rightarrow> len);
                w1 = fault_if (MAX_REQUEST_SIZE < line_length) StackOverrun w;
                line_buf = cstr (take line_length b);
                (le1, w2) =
                  (if logging_on app_flags
                   then log_append le (os_now sys @ '' \"'' @ line_buf @ ''\" '') w1
                   else (le, w1));
                (method, rest1) = strtok line_buf '' '';
                (path, rest2) = strtok rest1 '' '';
                (version, rest3) = strtok rest2 '' '';
                (extra, rest4) = strtok rest3 '' ''
            in case (method, path, version, extra) of
                 (Some m, Some p, Some v, None) \<Rightarrow>
                   let (copied, path_len) = strlcpy p PATH_MAX;
                       out2 = out1\<lparr>req_method := method_from_token m (length m),
                                   req_version := version_from_token v (length v),
                                   req_path := copied\<rparr>
                   in if PATH_MAX \<le> path_len then (-1, out2, RESP_414, le1, w2)
                      else validate_request out2 resp le1 w2
               | _ \<Rightarrow> (-1, determined_400 out1, RESP_400, le1, w2))"

section \<open>Specification of the request line\<close>

text \<open>
  A request line is read as its non-empty words between spaces.  The rules, in order of
  priority: three words; the target fits; it starts with a slash; the version is known; it is
  served; no \<^verbatim>\<open>../\<close> in the target; the method is served.
\<close>

definition line_verdict :: "bytes list \<Rightarrow> client_response option" where
  "line_verdict ws =
     (case ws of
        [m, p, v] \<Rightarrow>
          if PATH_MAX \<le> length p then Some RESP_414
          else if hd p \<noteq> SLASH then Some RESP_400
          else if v \<in> {''HTTP/0.9'', ''HTTP/2.0'', ''HTTP/3.0''} then Some RESP_505
          else if v \<notin> {''HTTP/1.0'', ''HTTP/1.1''} then Some RESP_400
          else if sublist ''../'' p then Some RESP_403
          else if m \<notin> {''GET'', ''HEAD''} then Some RESP_501
          else None
      | _ \<Rightarrow> Some RESP_400)"

text \<open>The first line of a buffer, when its head is complete.\<close>

definition request_line :: "bytes \<Rightarrow> nat \<Rightarrow> bytes option" where
  "request_line b len =
     (if strnstr b (CRLF @ CRLF) len = None then None
      else map_option (\<lambda>k. take k b) (strnstr b CRLF len))"

text \<open>The verdict on a whole buffer: no complete head is a bad request.\<close>

definition parse_verdict :: "bytes \<Rightarrow> nat \<Rightarrow> client_response option" where
  "parse_verdict b len =
     (case request_line b len of
        None \<Rightarrow> Some RESP_400
      | Some line \<Rightarrow> line_verdict (split_words SP line))"

definition rc_of :: "parse_result \<Rightarrow> int" where "rc_of r = fst r"
definition out_of :: "parse_result \<Rightarrow> Request" where "out_of r = fst (snd r)"
definition resp_of :: "parse_result \<Rightarrow> client_response" where "resp_of r = fst (snd (snd r))"
definition le_of :: "parse_result \<Rightarrow> LogEntry" where "le_of r = fst (snd (snd (snd r)))"
definition world_of :: "parse_result \<Rightarrow> world" where "world_of r = snd (snd (snd (snd r)))"

lemmas result_defs = rc_of_def out_of_def resp_of_def le_of_def world_of_def

text \<open>The log entry and the world after the request line has been logged.\<close>

definition log_line :: "os \<Rightarrow> flags \<Rightarrow> bytes \<Rightarrow> LogEntry \<Rightarrow> world \<Rightarrow> LogEntry \<times> world" where
  "log_line sys app_flags line le w =
     (let w1 = fault_if (MAX_REQUEST_SIZE < length line) StackOverrun w
      in if logging_on app_flags
         then log_append le (os_now sys @ '' \"'' @ line @ ''\" '') w1 else (le, w1))"

text \<open>How a request is written on the wire, for the round trip.\<close>

definition render_request :: "bytes \<Rightarrow> bytes \<Rightarrow> bytes \<Rightarrow> bytes list \<Rightarrow> bytes" where
  "render_request m p v hdrs = crlf_lines ((m @ SP # p @ SP # v) # hdrs) @ CRLF"

section \<open>Tokens\<close>

lemma token_eq: "length tok = length lit \<and> take (length tok) tok = lit \<longleftrightarrow> tok = lit"
  by auto

lemma method_from_token_eq:
  "method_from_token m (length m) =
     (if m = ''GET'' then HTTP_GET else if m = ''POST'' then HTTP_POST
      else if m = ''HEAD'' then HTTP_HEAD else HTTP_METHOD_UNKNOWN)"
  unfolding method_from_token_def token_eq by simp

lemma version_from_token_eq:
  "version_from_token v (length v) =
     (if v = ''HTTP/1.0'' then HTTP_1_0 else if v = ''HTTP/1.1'' then HTTP_1_1
      else if v \<in> {''HTTP/0.9'', ''HTTP/2.0'', ''HTTP/3.0''} then HTTP_VERSION_UNSUPPORTED
      else HTTP_VERSION_UNKNOWN)"
  unfolding version_from_token_def token_eq by simp

lemmas token_eqs = method_from_token_eq version_from_token_eq

lemma path_has_traversal_iff:
  "NUL \<notin> set p \<Longrightarrow> path_has_traversal p (length p) \<longleftrightarrow> sublist ''../'' p"
  by (simp add: path_has_traversal_def strnstr_def cstr_id find_sub_None)

text \<open>The four calls of \<^verbatim>\<open>strtok\<close> are a match on the words of the line.\<close>

lemma strtok_chain:
  assumes "strtok line '' '' = (t1, r1)" "strtok r1 '' '' = (t2, r2)"
    "strtok r2 '' '' = (t3, r3)" "strtok r3 '' '' = (t4, r4)"
  shows "(t1, t2, t3, t4) =
    (case split_words SP line of
       [] \<Rightarrow> (None, None, None, None)
     | [a] \<Rightarrow> (Some a, None, None, None)
     | [a, b] \<Rightarrow> (Some a, Some b, None, None)
     | [a, b, c] \<Rightarrow> (Some a, Some b, Some c, None)
     | a # b # c # d # _ \<Rightarrow> (Some a, Some b, Some c, Some d))"
proof -
  let ?ws = "split_words SP line"
  have f: "t1 = (case ?ws of [] \<Rightarrow> None | w # _ \<Rightarrow> Some w)"
    "t2 = (case split_words SP r1 of [] \<Rightarrow> None | w # _ \<Rightarrow> Some w)"
    "t3 = (case split_words SP r2 of [] \<Rightarrow> None | w # _ \<Rightarrow> Some w)"
    "t4 = (case split_words SP r3 of [] \<Rightarrow> None | w # _ \<Rightarrow> Some w)"
    using assms by (metis fst_conv fst_strtok)+
  moreover have "split_words SP r1 = tl ?ws" "split_words SP r2 = tl (tl ?ws)"
    "split_words SP r3 = tl (tl (tl ?ws))"
    using assms by (metis snd_conv strtok_words(2))+
  ultimately show ?thesis by (simp split: list.split)
qed

section \<open>The parser computes the specification\<close>

lemma request_line_Some:
  assumes "strnstr b (CRLF @ CRLF) len \<noteq> None"
  obtains k where "strnstr b CRLF len = Some k" "request_line b len = Some (take k b)"
    "k + 4 \<le> len" "NUL \<notin> set (take k b)"
proof -
  from assms obtain n where n: "strnstr b (CRLF @ CRLF) len = Some n" by blast
  from strnstr_mono [OF n] obtain k where k: "k \<le> n" "strnstr b CRLF len = Some k" by blast
  from strnstr_Some_length(1) [OF n] k have "k + 4 \<le> len" by simp
  moreover from k assms have "request_line b len = Some (take k b)"
    by (simp add: request_line_def)
  ultimately show thesis using that k(2) strnstr_no_NUL [OF k(2)] by blast
qed

lemma strnstr_zero: "pat \<noteq> [] \<Longrightarrow> strnstr b pat 0 = None"
  by (simp add: strnstr_def clib_simps)

lemma request_line_None: "request_line b len = None \<longleftrightarrow> strnstr b (CRLF @ CRLF) len = None"
proof (cases "strnstr b (CRLF @ CRLF) len = None")
  case False
  then show ?thesis using request_line_Some [of b len] by (metis option.distinct(1))
qed (simp add: request_line_def)

lemma request_line_bounds:
  assumes "request_line b len = Some line"
  shows "length line + 4 \<le> len" and "NUL \<notin> set line"
proof -
  from assms have "strnstr b (CRLF @ CRLF) len \<noteq> None"
    using request_line_None [of b len] by auto
  then obtain k where "request_line b len = Some (take k b)" "k + 4 \<le> len" "NUL \<notin> set (take k b)"
    by (rule request_line_Some)
  with assms show "length line + 4 \<le> len" and "NUL \<notin> set line" by auto
qed

lemma parse_request_words:
  assumes "request_line b len = Some line"
  shows "parse_request sys fl (Some b) len out resp le w =
    (let (le1, w1) = log_line sys fl line le w; out1 = out\<lparr>time_received := os_now sys\<rparr>
     in case split_words SP line of
          [m, p, v] \<Rightarrow>
            (let out2 = out1\<lparr>req_method := method_from_token m (length m),
                             req_version := version_from_token v (length v),
                             req_path := take (PATH_MAX - 1) p\<rparr>
             in if PATH_MAX \<le> length p then (-1, out2, RESP_414, le1, w1)
                else validate_request out2 resp le1 w1)
        | _ \<Rightarrow> (-1, determined_400 out1, RESP_400, le1, w1))"
proof -
  from assms have n: "strnstr b (CRLF @ CRLF) len \<noteq> None"
    using request_line_None [of b len] by auto
  then obtain k where k: "strnstr b CRLF len = Some k" "line = take k b" "NUL \<notin> set (take k b)"
    using request_line_Some [of b len] assms by (metis option.inject)
  from n have len: "len \<noteq> 0" using strnstr_zero [of "CRLF @ CRLF" b] by (metis append_is_Nil_conv list.distinct(1))
  from strnstr_Some_length(2) [OF k(1)] k(2) have ll: "length line = k" by simp
  have c: "cstr (take k b) = line" using k by (simp add: cstr_id)
  obtain t1 r1 where t1: "strtok line '' '' = (t1, r1)" by fastforce
  obtain t2 r2 where t2: "strtok r1 '' '' = (t2, r2)" by fastforce
  obtain t3 r3 where t3: "strtok r2 '' '' = (t3, r3)" by fastforce
  obtain t4 r4 where t4: "strtok r3 '' '' = (t4, r4)" by fastforce
  note ts = strtok_chain [OF t1 t2 t3 t4]
  show ?thesis
    using n len ts
    unfolding parse_request_def log_line_def
    by (simp add: k(1) c ll t1 t2 t3 t4 strlcpy_def Let_def split: list.splits prod.splits)
qed

lemma validate_request_cases:
  assumes "p \<noteq> []" "NUL \<notin> set p" "length p < PATH_MAX"
    and "out2 = out1\<lparr>req_method := method_from_token m (length m),
                     req_version := version_from_token v (length v), req_path := p\<rparr>"
  shows "validate_request out2 resp le w =
    (case line_verdict [m, p, v] of
       None \<Rightarrow> (0, out2, resp, le, w)
     | Some r \<Rightarrow> (-1, if r = RESP_400 then determined_400 out2 else out2, r, le, w))"
  using assms unfolding validate_request_def line_verdict_def
  by (simp add: token_eqs path_has_traversal_iff)

lemma word_of_line:
  assumes "request_line b len = Some line" and "x \<in> set (split_words SP line)"
  shows "x \<noteq> []" and "NUL \<notin> set x" and "SP \<notin> set x" and "length x + 4 \<le> len"
  using request_line_bounds [OF assms(1)] split_words_sound [OF assms(2)]
    split_words_chars [OF assms(2)] split_words_length [OF assms(2)] by auto

lemma not_three_words:
  "\<nexists>m p v. ws = [m, p, v] \<Longrightarrow> (case ws of [m, p, v] \<Rightarrow> f m p v | _ \<Rightarrow> d) = d"
  by (auto split: list.split)

lemma line_verdict_other: "\<nexists>m p v. ws = [m, p, v] \<Longrightarrow> line_verdict ws = Some RESP_400"
  by (simp add: line_verdict_def not_three_words)

text \<open>One equation for every buffer with a complete head.\<close>

lemma parse_request_eq:
  assumes line: "request_line b len = Some line"
    and log: "log_line sys fl line le w = (le1, w1)"
  shows "parse_request sys fl (Some b) len out resp le w =
    (let out1 = out\<lparr>time_received := os_now sys\<rparr>
     in case split_words SP line of
          [m, p, v] \<Rightarrow>
            (let out2 = out1\<lparr>req_method := method_from_token m (length m),
                             req_version := version_from_token v (length v),
                             req_path := take (PATH_MAX - 1) p\<rparr>
             in case line_verdict [m, p, v] of
                  None \<Rightarrow> (0, out2, resp, le1, w1)
                | Some r \<Rightarrow> (-1, if r = RESP_400 then determined_400 out2 else out2, r, le1, w1))
        | _ \<Rightarrow> (-1, determined_400 out1, RESP_400, le1, w1))"
proof (cases "\<exists>m p v. split_words SP line = [m, p, v]")
  case True
  then obtain m p v where ws: "split_words SP line = [m, p, v]" by blast
  then have p: "p \<noteq> []" "NUL \<notin> set p" using word_of_line [OF line] by auto
  show ?thesis
  proof (cases "PATH_MAX \<le> length p")
    case True
    with ws show ?thesis
      by (simp add: parse_request_words [OF line] log line_verdict_def Let_def)
  next
    case False
    then have t: "take (PATH_MAX - Suc 0) p = p" by simp
    from ws False show ?thesis
      by (cases "line_verdict [m, p, v]")
         (simp_all add: t parse_request_words [OF line] log Let_def validate_request_cases [OF p])
  qed
next
  case False
  then show ?thesis
    by (simp add: parse_request_words [OF line] log Let_def not_three_words)
qed

lemma parse_request_incomplete:
  "request_line b len = None \<Longrightarrow>
     parse_request sys fl (Some b) len out resp le w = (-1, determined_400 out, RESP_400, le, w)"
  by (simp add: parse_request_def request_line_None)

lemma parse_request_NULL:
  "parse_request sys fl None len out resp le w = (-1, determined_400 out, RESP_400, le, w)"
  by (simp add: parse_request_def)

lemma parse_request_spec:
  "rc_of (parse_request sys fl (Some b) len out resp le w) =
     (if parse_verdict b len = None then 0 else -1) \<and>
   resp_of (parse_request sys fl (Some b) len out resp le w) =
     (case parse_verdict b len of None \<Rightarrow> resp | Some r \<Rightarrow> r)"
proof (cases "request_line b len")
  case None
  then show ?thesis
    by (simp add: parse_request_incomplete parse_verdict_def result_defs)
next
  case (Some line)
  obtain le1 w1 where log: "log_line sys fl line le w = (le1, w1)" by fastforce
  show ?thesis
  proof (cases "\<exists>m p v. split_words SP line = [m, p, v]")
    case True
    then obtain m p v where "split_words SP line = [m, p, v]" by blast
    then show ?thesis
      by (cases "line_verdict [m, p, v]")
         (simp_all add: parse_request_eq [OF Some log] parse_verdict_def Some result_defs Let_def)
  next
    case False
    then show ?thesis
      by (simp add: parse_request_eq [OF Some log] parse_verdict_def Some result_defs Let_def
          line_verdict_other not_three_words)
  qed
qed

section \<open>What acceptance guarantees\<close>

lemma parse_request_accepted:
  assumes "rc_of (parse_request sys fl (Some b) len out resp le w) = 0"
  obtains line m p v where "request_line b len = Some line" "split_words SP line = [m, p, v]"
    "line_verdict [m, p, v] = None"
    "out_of (parse_request sys fl (Some b) len out resp le w) =
       out\<lparr>time_received := os_now sys, req_method := method_from_token m (length m),
           req_version := version_from_token v (length v), req_path := p\<rparr>"
proof -
  from assms have "parse_verdict b len = None"
    using parse_request_spec [of sys fl b len out resp le w] by (auto split: if_splits)
  then obtain line where line: "request_line b len = Some line"
      and v: "line_verdict (split_words SP line) = None"
    by (auto simp: parse_verdict_def split: option.splits)
  obtain le1 w1 where log: "log_line sys fl line le w = (le1, w1)" by fastforce
  from v obtain m p v where ws: "split_words SP line = [m, p, v]"
    using line_verdict_other by force
  with v have lv: "line_verdict [m, p, v] = None" by simp
  then have "\<not> PATH_MAX \<le> length p" by (auto simp: line_verdict_def)
  then have "take (PATH_MAX - Suc 0) p = p" by simp
  with line ws lv show thesis
    by (intro that [of line m p v])
       (simp_all add: parse_request_eq [OF line log] result_defs Let_def)
qed

lemma line_verdict_NoneD:
  assumes "line_verdict [m, p, v] = None"
  shows "length p < PATH_MAX" "hd p = SLASH" "v \<in> {''HTTP/1.0'', ''HTTP/1.1''}"
    "\<not> sublist ''../'' p" "m \<in> {''GET'', ''HEAD''}"
  using assms unfolding line_verdict_def by (simp_all split: if_splits)

lemma parse_request_safe:
  assumes "rc_of (parse_request sys fl (Some b) len out resp le w) = 0"
  shows "let r = out_of (parse_request sys fl (Some b) len out resp le w) in
     req_method r \<in> {HTTP_GET, HTTP_HEAD} \<and> req_version r \<in> {HTTP_1_0, HTTP_1_1} \<and>
     (\<exists>rest. req_path r = SLASH # rest) \<and> length (req_path r) < PATH_MAX \<and>
     SP \<notin> set (req_path r) \<and> NUL \<notin> set (req_path r) \<and> \<not> sublist ''../'' (req_path r)"
proof -
  from assms obtain line m p v where
      line: "request_line b len = Some line" and ws: "split_words SP line = [m, p, v]"
      and lv: "line_verdict [m, p, v] = None"
      and r: "out_of (parse_request sys fl (Some b) len out resp le w) =
        out\<lparr>time_received := os_now sys, req_method := method_from_token m (length m),
             req_version := version_from_token v (length v), req_path := p\<rparr>"
    by (rule parse_request_accepted)
  note d = line_verdict_NoneD [OF lv]
  from ws have "p \<in> set (split_words SP line)" by simp
  note q = word_of_line [OF line this]
  have "\<exists>rest. p = SLASH # rest" using d(2) q(1) by (cases p) auto
  with d q show ?thesis by (auto simp: r token_eqs Let_def)
qed

section \<open>Bounds of the fixed buffers\<close>

lemma parse_request_bounds:
  assumes "len \<le> MAX_REQUEST_SIZE" and "log_ok le"
    and "le_offset le + length (os_now sys) + len < LOG_BUF_SIZE"
  shows "let r = parse_request sys fl buf len out resp le w in
     world_of r = w \<and> log_ok (le_of r) \<and>
     le_offset (le_of r) \<le> le_offset le + length (os_now sys) + len"
proof -
  let ?P = "\<lambda>r. world_of r = w \<and> log_ok (le_of r) \<and>
      le_offset (le_of r) \<le> le_offset le + length (os_now sys) + len"
  have "?P (parse_request sys fl buf len out resp le w)"
  proof (cases "\<exists>b line. buf = Some b \<and> request_line b len = Some line")
    case True
    then obtain b line where b: "buf = Some b" and line: "request_line b len = Some line"
      by blast
    note l = request_line_bounds(1) [OF line]
    let ?t = "os_now sys @ '' \"'' @ line @ ''\" ''"
    have fit: "le_offset le + length ?t < LOG_BUF_SIZE" using l assms(3) by simp
    obtain le1 w1 where log: "log_line sys fl line le w = (le1, w1)" by fastforce
    with l assms(1) log_append_fits [OF assms(2) fit, of w]
    have ok: "w1 = w" "log_ok le1" "le_offset le1 \<le> le_offset le + length (os_now sys) + len"
      using assms(2) by (auto simp: log_line_def fault_if_def split: if_splits)
    show ?thesis
    proof (cases "\<exists>m p v. split_words SP line = [m, p, v]")
      case True
      then obtain m p v where "split_words SP line = [m, p, v]" by blast
      with ok show ?thesis
        by (cases "line_verdict [m, p, v]")
           (simp_all add: b parse_request_eq [OF line log] result_defs Let_def)
    next
      case False
      with ok show ?thesis
        by (simp add: b parse_request_eq [OF line log] result_defs Let_def not_three_words)
    qed
  next
    case False
    with assms(2) show ?thesis
      by (cases buf) (auto simp: parse_request_incomplete parse_request_NULL result_defs)
  qed
  then show ?thesis by (simp add: Let_def)
qed

section \<open>Round trip\<close>

lemma request_line_render:
  assumes "CR \<notin> set line" "NUL \<notin> set line" "\<forall>h \<in> set hdrs. NUL \<notin> set h"
  defines "b \<equiv> crlf_lines (line # hdrs) @ CRLF"
  shows "request_line b (length b) = Some line"
proof -
  have n: "NUL \<notin> set b" using assms(2,3) by (auto simp: b_def crlf_lines_def)
  have "suffix (CRLF @ CRLF) b" unfolding b_def crlf_lines_def
    by (cases hdrs rule: rev_cases) (auto simp: suffix_def)
  then have "sublist (CRLF @ CRLF) b" by (rule suffix_imp_sublist)
  then have s: "strnstr b (CRLF @ CRLF) (length b) \<noteq> None"
    using n by (simp add: strnstr_def cstr_id find_sub_None)
  have "strnstr b CRLF (length b) = Some (length line)"
    using n find_sub_at [OF assms(1), of "[LF]"] by (simp add: strnstr_def cstr_id b_def)
  with s show ?thesis by (simp add: request_line_def b_def)
qed

lemma parse_request_render:
  assumes "m \<in> {''GET'', ''HEAD''}" "v \<in> {''HTTP/1.0'', ''HTTP/1.1''}"
    and "\<exists>rest. p = SLASH # rest" "length p < PATH_MAX" "\<not> sublist ''../'' p"
    and "SP \<notin> set p" "CR \<notin> set p" "NUL \<notin> set p" "\<forall>h \<in> set hdrs. NUL \<notin> set h"
  shows "\<exists>le' w'. parse_request sys fl (Some (render_request m p v hdrs))
       (length (render_request m p v hdrs)) out resp le w =
     (0, out\<lparr>time_received := os_now sys,
             req_method := (if m = ''GET'' then HTTP_GET else HTTP_HEAD),
             req_version := (if v = ''HTTP/1.0'' then HTTP_1_0 else HTTP_1_1),
             req_path := p\<rparr>, resp, le', w')"
proof -
  let ?line = "m @ SP # p @ SP # v" and ?b = "render_request m p v hdrs"
  have line: "request_line ?b (length ?b) = Some ?line"
    unfolding render_request_def
    by (rule request_line_render) (use assms(1-9) in auto)
  have "SP \<notin> set m" "m \<noteq> []" "SP \<notin> set v" "v \<noteq> []" "p \<noteq> []" using assms(1-3) by auto
  with assms(6) have ws: "split_words SP ?line = [m, p, v]"
    by (simp add: split_words_append split_words_single)
  have lv: "line_verdict [m, p, v] = None"
    using assms(1-5) by (auto simp: line_verdict_def)
  have t: "take (PATH_MAX - Suc 0) p = p" using assms(4) by simp
  have k: "method_from_token m (length m) = (if m = ''GET'' then HTTP_GET else HTTP_HEAD)"
    "version_from_token v (length v) = (if v = ''HTTP/1.0'' then HTTP_1_0 else HTTP_1_1)"
    using assms(1,2) by (auto simp: token_eqs)
  obtain le1 w1 where log: "log_line sys fl ?line le w = (le1, w1)" by fastforce
  show ?thesis by (simp add: parse_request_eq [OF line log] ws lv t k Let_def)
qed

section \<open>Properties\<close>

text \<open>
  C5: for every buffer, every length and every starting state, the return value and the
  response code of \<^verbatim>\<open>parse_request\<close> are the verdict of the specification: 0 with the response
  code untouched when the verdict is "accept", -1 with the specified code otherwise.  The
  specification gives the priority of the errors.
\<close>

theorem parse_request_verdict:
  "rc_of (parse_request sys fl (Some b) len out resp le w) =
     (if parse_verdict b len = None then 0 else -1) \<and>
   resp_of (parse_request sys fl (Some b) len out resp le w) =
     (case parse_verdict b len of None \<Rightarrow> resp | Some r \<Rightarrow> r)"
  by (rule parse_request_spec)

text \<open>
  A request the parser accepts has a served method and version, and a target that starts
  with a slash, fits its buffer with the terminating NUL, contains no space and no NUL, and
  nowhere contains \<^verbatim>\<open>../\<close>.
\<close>

theorem parse_request_accepts_safe:
  assumes "rc_of (parse_request sys fl (Some b) len out resp le w) = 0"
  shows "let r = out_of (parse_request sys fl (Some b) len out resp le w) in
     req_method r \<in> {HTTP_GET, HTTP_HEAD} \<and> req_version r \<in> {HTTP_1_0, HTTP_1_1} \<and>
     (\<exists>rest. req_path r = SLASH # rest) \<and> length (req_path r) < PATH_MAX \<and>
     SP \<notin> set (req_path r) \<and> NUL \<notin> set (req_path r) \<and> \<not> sublist ''../'' (req_path r)"
  using assms by (rule parse_request_safe)

lemma sample_get_accepted:
  "rc_of (parse_request sample_os 0 (Some (render_request ''GET'' ''/a.txt'' ''HTTP/1.1'' []))
     (length (render_request ''GET'' ''/a.txt'' ''HTTP/1.1'' [])) zero_Request NUM_CLIENT_RESP
     zero_LogEntry empty_world) = 0"
proof -
  have "\<not> sublist ''../'' ''/a.txt''" by (simp add: sublist_Cons_right)
  then show ?thesis
    using parse_request_render [of "''GET''" "''HTTP/1.1''" "''/a.txt''" "[]" sample_os 0
        zero_Request NUM_CLIENT_RESP zero_LogEntry empty_world]
    by (auto simp: rc_of_def PATH_MAX_def)
qed

theorem parse_request_accepts_safe_witness:
  "length (req_path (out_of (parse_request sample_os 0
      (Some (render_request ''GET'' ''/a.txt'' ''HTTP/1.1'' []))
      (length (render_request ''GET'' ''/a.txt'' ''HTTP/1.1'' [])) zero_Request NUM_CLIENT_RESP
      zero_LogEntry empty_world))) < PATH_MAX"
  using parse_request_accepts_safe [OF sample_get_accepted] by (simp add: Let_def)

text \<open>
  C22: with at most \<^verbatim>\<open>MAX_REQUEST_SIZE\<close> bytes of input, and a log entry that has room for the
  time stamp and that many bytes, the parser changes nothing outside its results: the copy
  into \<^verbatim>\<open>line_buf\<close> and the log entry stay inside their arrays, whatever the bytes are.
\<close>

theorem parse_request_in_bounds:
  assumes "len \<le> MAX_REQUEST_SIZE" and "log_ok le"
    and "le_offset le + length (os_now sys) + len < LOG_BUF_SIZE"
  shows "let r = parse_request sys fl buf len out resp le w in
     world_of r = w \<and> log_ok (le_of r) \<and>
     le_offset (le_of r) \<le> le_offset le + length (os_now sys) + len"
  using assms by (rule parse_request_bounds)

theorem parse_request_in_bounds_witness:
  "world_of (parse_request sample_os 34 (Some (replicate 8192 CR)) 8192 zero_Request
     NUM_CLIENT_RESP zero_LogEntry empty_world) = empty_world"
  using parse_request_in_bounds [of 8192 zero_LogEntry sample_os 34 "Some (replicate 8192 CR)"
      zero_Request NUM_CLIENT_RESP empty_world]
  by (simp add: Let_def MAX_REQUEST_SIZE_def LOG_BUF_SIZE_def)

text \<open>
  C23: a well-formed request, written in the wire format with any header lines, is read back:
  the parser returns 0, leaves the response code alone and yields the method, version and
  target that were written.
\<close>

theorem parse_request_roundtrip:
  assumes "m \<in> {''GET'', ''HEAD''}" "v \<in> {''HTTP/1.0'', ''HTTP/1.1''}"
    and "\<exists>rest. p = SLASH # rest" "length p < PATH_MAX" "\<not> sublist ''../'' p"
    and "SP \<notin> set p" "CR \<notin> set p" "NUL \<notin> set p" "\<forall>h \<in> set hdrs. NUL \<notin> set h"
  shows "\<exists>le' w'. parse_request sys fl (Some (render_request m p v hdrs))
       (length (render_request m p v hdrs)) out resp le w =
     (0, out\<lparr>time_received := os_now sys,
             req_method := (if m = ''GET'' then HTTP_GET else HTTP_HEAD),
             req_version := (if v = ''HTTP/1.0'' then HTTP_1_0 else HTTP_1_1),
             req_path := p\<rparr>, resp, le', w')"
  using assms by (rule parse_request_render)

theorem parse_request_roundtrip_witness:
  "\<exists>le' w'. parse_request sample_os 0 (Some (render_request ''HEAD'' ''/my..file'' ''HTTP/1.0'' [''Host: x'']))
       (length (render_request ''HEAD'' ''/my..file'' ''HTTP/1.0'' [''Host: x''])) zero_Request
       NUM_CLIENT_RESP zero_LogEntry empty_world =
     (0, zero_Request\<lparr>time_received := sample_time, req_method := HTTP_HEAD,
             req_version := HTTP_1_0, req_path := ''/my..file''\<rparr>, NUM_CLIENT_RESP, le', w')"
proof -
  have "\<not> sublist ''../'' ''/my..file''" by (simp add: sublist_Cons_right)
  then show ?thesis
    using parse_request_roundtrip [of "''HEAD''" "''HTTP/1.0''" "''/my..file''" "[''Host: x'']"
        sample_os 0 zero_Request NUM_CLIENT_RESP zero_LogEntry empty_world]
    by (simp add: PATH_MAX_def)
qed

text \<open>
  The traversal check looks for the three bytes \<^verbatim>\<open>../\<close> only, so it does not reject every
  \<^verbatim>\<open>..\<close> segment: a request for \<^verbatim>\<open>/..\<close> is accepted, in every state.
\<close>

theorem parse_request_trailing_dotdot:
  "rc_of (parse_request sys fl (Some (render_request ''GET'' ''/..'' ''HTTP/1.0'' []))
     (length (render_request ''GET'' ''/..'' ''HTTP/1.0'' [])) out resp le w) = 0 \<and>
   req_path (out_of (parse_request sys fl (Some (render_request ''GET'' ''/..'' ''HTTP/1.0'' []))
     (length (render_request ''GET'' ''/..'' ''HTTP/1.0'' [])) out resp le w)) = ''/..''"
proof -
  have "\<not> sublist ''../'' ''/..''" by (simp add: sublist_Cons_right)
  then show ?thesis
    using parse_request_render [of "''GET''" "''HTTP/1.0''" "''/..''" "[]" sys fl out resp le w]
    by (auto simp: result_defs PATH_MAX_def)
qed

end
