(* ===== verification/Resolve_Path.thy ===== *)
theory Resolve_Path
  imports Parse_Request
begin

text \<open>
  \<^verbatim>\<open>requests/resolve_path.c\<close> and \<^verbatim>\<open>requests/close_resolve_path.c\<close>: from the request target to a
  file system entry.  The query string is cut off, the rest is opened relative to the working
  directory, and the stream, its size and its MIME type go into both the \<^verbatim>\<open>ResolvedPath\<close> and the
  \<^verbatim>\<open>Client\<close>; the two then hold the same \<^verbatim>\<open>FILE *\<close>.  The lemmas describe the outcome on every
  branch, which streams stay open, and how far the opened name can lead.
\<close>

section \<open>Definitions\<close>

definition BASE_URL :: bytes where "BASE_URL = ''.''"
definition DIR_INDEX :: bytes where "DIR_INDEX = ''index.htm''"
definition DIR_INDEX2 :: bytes where "DIR_INDEX2 = ''index.html''"

datatype trailing_char = TRAILING_SLASH | TRAILING_CHAR

definition get_file_path_slash :: "os \<Rightarrow> bytes \<Rightarrow> bytes \<Rightarrow> world \<Rightarrow> (errno + nat) \<times> world" where
  "get_file_path_slash sys path dir_index w =
     c_fopen sys (fst (snprintf PATH_MAX (path @ dir_index))) w"

definition get_file_path_char :: "os \<Rightarrow> bytes \<Rightarrow> bytes \<Rightarrow> world \<Rightarrow> (errno + nat) \<times> world" where
  "get_file_path_char sys path dir_index w =
     c_fopen sys (fst (snprintf PATH_MAX (path @ ''/'' @ dir_index))) w"

fun get_file_path ::
    "trailing_char \<Rightarrow> os \<Rightarrow> bytes \<Rightarrow> bytes \<Rightarrow> world \<Rightarrow> (errno + nat) \<times> world"
where
  "get_file_path TRAILING_SLASH = get_file_path_slash"
| "get_file_path TRAILING_CHAR = get_file_path_char"

text \<open>The extension table, in the order of the comparisons.\<close>

definition mime_table :: "(bytes \<times> bytes) list" where
  "mime_table =
     [(''.html'', ''text/html''), (''.htm'', ''text/html''),
      (''.txt'', ''text/plain; charset=utf-8''), (''.csv'', ''text/csv; charset=utf-8''),
      (''.md'', ''text/markdown; charset=utf-8''), (''.xml'', ''application/xml''),
      (''.json'', ''application/json''), (''.map'', ''application/json''),
      (''.wasm'', ''application/wasm''), (''.mjs'', ''text/javascript''),
      (''.cjs'', ''text/javascript''), (''.jpeg'', ''image/jpeg''), (''.jpg'', ''image/jpeg''),
      (''.gif'', ''image/gif''), (''.svg'', ''image/svg+xml''), (''.webp'', ''image/webp''),
      (''.ico'', ''image/x-icon''), (''.woff'', ''font/woff''), (''.woff2'', ''font/woff2''),
      (''.ttf'', ''font/ttf''), (''.otf'', ''font/otf''), (''.mp3'', ''audio/mpeg''),
      (''.wav'', ''audio/wav''), (''.mp4'', ''video/mp4''), (''.webm'', ''video/webm''),
      (''.pdf'', ''application/pdf''), (''.zip'', ''application/zip''),
      (''.gz'', ''application/gzip''), (''.tgz'', ''application/gzip''),
      (''.tar'', ''application/x-tar'')]"

fun mime_lookup :: "(bytes \<times> bytes) list \<Rightarrow> bytes \<Rightarrow> bytes option" where
  "mime_lookup [] ext = None"
| "mime_lookup ((e, t) # es) ext = (if strcasecmp_eq ext e then Some t else mime_lookup es ext)"

text \<open>\<^verbatim>\<open>magic_descriptor\<close> is asked about the open file; it may return NULL.\<close>

definition get_mime_type_by_ext :: "os \<Rightarrow> bytes \<Rightarrow> file_info \<Rightarrow> bytes option" where
  "get_mime_type_by_ext sys filename fi =
     (case strrchr filename CHR ''.'' of
        None \<Rightarrow> os_magic sys fi
      | Some ext \<Rightarrow>
          (case mime_lookup mime_table ext of
             Some t \<Rightarrow> Some t
           | None \<Rightarrow> os_magic sys fi))"

definition path_includes_cgi :: "bytes \<Rightarrow> bool" where
  "path_includes_cgi path \<longleftrightarrow> strnstr path ''./cgi-bin/'' 10 \<noteq> None"

text \<open>
  \<^verbatim>\<open>path[len - 1]\<close> is read; the caller passes a token of \<^verbatim>\<open>strtok\<close>, which is never empty.
\<close>

definition get_last_char :: "bytes \<Rightarrow> trailing_char" where
  "get_last_char path =
     (if path \<noteq> [] \<and> last path = SLASH then TRAILING_SLASH else TRAILING_CHAR)"

type_synonym resolve_result = "int \<times> Client \<times> ResolvedPath \<times> world"

text \<open>
  The macro \<^verbatim>\<open>HANDLE_DIR_INDEX\<close> with the \<^verbatim>\<open>return 0\<close> that follows it.  When \<^verbatim>\<open>fstat\<close> fails the
  stream is closed and its pointer stays in \<^verbatim>\<open>rp->file_ptr\<close>.
\<close>

definition handle_dir_index ::
    "nat \<Rightarrow> Client \<Rightarrow> ResolvedPath \<Rightarrow> world \<Rightarrow> resolve_result"
where
  "handle_dir_index index c rp w =
     (let rp1 = rp\<lparr>rp_file_ptr := Some index\<rparr>
      in case c_fstat index w of
           None \<Rightarrow> (-1, c\<lparr>resp_val := RESP_500\<rparr>, rp1, c_fclose index w)
         | Some st \<Rightarrow>
             (0, c\<lparr>file_ptr := Some index, file_size := fi_size st\<rparr>,
              rp1\<lparr>rp_file_size := fi_size st, mime_type := Some ''text/html'',
                  last_mod := fi_mtime st, path_type := IS_FILE\<rparr>, w))"

text \<open>The directory branch: two index names, then a listing.\<close>

definition resolve_dir ::
    "os \<Rightarrow> bytes \<Rightarrow> nat \<Rightarrow> file_info \<Rightarrow> Client \<Rightarrow> ResolvedPath \<Rightarrow> world \<Rightarrow> resolve_result"
where
  "resolve_dir sys local_path dir_fp st c rp w =
     (case get_file_path (get_last_char local_path) sys local_path DIR_INDEX w of
        (Inr index, w1) \<Rightarrow> handle_dir_index index c rp (c_fclose dir_fp w1)
      | (Inl _, w1) \<Rightarrow>
          (case get_file_path (get_last_char local_path) sys local_path DIR_INDEX2 w1 of
             (Inr index, w2) \<Rightarrow> handle_dir_index index c rp (c_fclose dir_fp w2)
           | (Inl _, w2) \<Rightarrow>
               (0, c, rp\<lparr>last_mod := fi_mtime st, path_type := IS_DIR, rp_file_ptr := None\<rparr>,
                c_fclose dir_fp w2)))"

text \<open>The branch for a stream that opened, after \<^verbatim>\<open>fstat\<close>.\<close>

definition resolve_open ::
    "os \<Rightarrow> flags \<Rightarrow> bytes \<Rightarrow> nat \<Rightarrow> file_info \<Rightarrow> Client \<Rightarrow> ResolvedPath \<Rightarrow> world \<Rightarrow> resolve_result"
where
  "resolve_open sys app_flags local_path h st c rp w =
     (if path_includes_cgi local_path \<and> \<not> flag_set app_flags C_FLAG
      then (-1, c\<lparr>resp_val := RESP_501\<rparr>, rp\<lparr>rp_file_ptr := None, path_type := UNKNOWN\<rparr>, w)
      else
        let rp1 = rp\<lparr>path_type := (if path_includes_cgi local_path then IS_CGI else IS_FILE)\<rparr>
        in if fi_is_dir st then resolve_dir sys local_path h st c rp1 w
           else (0, c\<lparr>file_ptr := Some h, file_size := fi_size st\<rparr>,
                 rp1\<lparr>last_mod := fi_mtime st,
                     mime_type := get_mime_type_by_ext sys local_path st,
                     rp_file_size := fi_size st\<rparr>, w))"

text \<open>The local path and the query string of a target.\<close>

definition split_target :: "bytes \<Rightarrow> bytes option \<times> bytes option" where
  "split_target target =
     (let path_buffer = fst (snprintf PATH_MAX (BASE_URL @ target));
          (local_path, rest) = strtok path_buffer ''?'';
          (query_buffer, rest2) = strtok rest ''?''
      in (local_path, query_buffer))"

definition resolve_path ::
    "os \<Rightarrow> flags \<Rightarrow> Client \<Rightarrow> Request \<Rightarrow> ResolvedPath \<Rightarrow> world \<Rightarrow> resolve_result"
where
  "resolve_path sys app_flags c req rp w =
     (case split_target (req_path req) of
        (local_path_opt, query_buffer) \<Rightarrow>
          let rp1 = (case query_buffer of
                       Some q \<Rightarrow> rp\<lparr>query_string := fst (strlcpy q PATH_MAX)\<rparr>
                     | None \<Rightarrow> rp);
              local_path = (case local_path_opt of Some p \<Rightarrow> p | None \<Rightarrow> [])
          in case c_fopen sys local_path w of
               (Inl e, w1) \<Rightarrow>
                 (-1, c\<lparr>resp_val := (if e = EACCES then RESP_403 else RESP_404)\<rparr>,
                  rp1\<lparr>rp_file_ptr := None\<rparr>, w1)
             | (Inr h, w1) \<Rightarrow>
                 let rp2 = rp1\<lparr>rp_file_ptr := Some h\<rparr>
                 in case c_fstat h w1 of
                      None \<Rightarrow> (-1, c\<lparr>resp_val := RESP_500\<rparr>, rp2, c_fclose h w1)
                    | Some st \<Rightarrow> resolve_open sys app_flags local_path h st c rp2 w1)"

definition close_resolve_path_ptr :: "ResolvedPath \<Rightarrow> world \<Rightarrow> ResolvedPath \<times> world" where
  "close_resolve_path_ptr rp w =
     (case rp_file_ptr rp of
        None \<Rightarrow> (rp, w)
      | Some h \<Rightarrow> (rp\<lparr>rp_file_ptr := None\<rparr>, c_fclose h w))"

text \<open>
  How far a name leads, seen as a walk over its segments: \<^verbatim>\<open>..\<close> goes up and must not go above
  the start, empty segments and \<^verbatim>\<open>.\<close> stay, every other segment goes down.  Links are not
  followed.
\<close>

fun stays_below :: "nat \<Rightarrow> bytes list \<Rightarrow> bool" where
  "stays_below d [] = True"
| "stays_below d (s # ss) =
     (if s = ''..'' then 0 < d \<and> stays_below (d - 1) ss
      else if s = [] \<or> s = ''.'' then stays_below d ss
      else stays_below (Suc d) ss)"

definition contained :: "bytes \<Rightarrow> bool" where
  "contained path \<longleftrightarrow> stays_below 0 (split_fields SLASH path)"

text \<open>The names \<^verbatim>\<open>resolve_path\<close> may open for a local path: itself and the two index files.\<close>

definition opened_names :: "bytes \<Rightarrow> bytes set" where
  "opened_names lp =
     {lp, take (PATH_MAX - 1) (lp @ (if last lp = SLASH then [] else ''/'') @ DIR_INDEX),
      take (PATH_MAX - 1) (lp @ (if last lp = SLASH then [] else ''/'') @ DIR_INDEX2)}"

definition local_path_of :: "bytes \<Rightarrow> bytes" where
  "local_path_of t = (case fst (split_target t) of Some p \<Rightarrow> p | None \<Rightarrow> [])"

text \<open>
  What a local path stands for, read off the file system alone: the specification
  \<^verbatim>\<open>resolve_path\<close> is held against.
\<close>

definition find_index :: "os \<Rightarrow> bytes \<Rightarrow> file_info option" where
  "find_index sys lp =
     (let name = (\<lambda>idx. take (PATH_MAX - 1) (lp @ (if lp \<noteq> [] \<and> last lp = SLASH then [] else ''/'') @ idx))
      in case os_fopen sys (name DIR_INDEX) of
           Inr f \<Rightarrow> Some f
         | Inl _ \<Rightarrow> (case os_fopen sys (name DIR_INDEX2) of Inr f \<Rightarrow> Some f | Inl _ \<Rightarrow> None))"

datatype resource =
    Refused client_response
  | Plain_file file_info "bytes option"
  | Script file_info
  | Listing file_info

definition resource_of :: "os \<Rightarrow> flags \<Rightarrow> bytes \<Rightarrow> resource" where
  "resource_of sys app_flags lp =
     (case os_fopen sys lp of
        Inl e \<Rightarrow> Refused (if e = EACCES then RESP_403 else RESP_404)
      | Inr f \<Rightarrow>
          if path_includes_cgi lp \<and> \<not> flag_set app_flags C_FLAG then Refused RESP_501
          else if fi_is_dir f then
            (case find_index sys lp of Some g \<Rightarrow> Plain_file g (Some ''text/html'') | None \<Rightarrow> Listing f)
          else if path_includes_cgi lp then Script f
          else Plain_file f (get_mime_type_by_ext sys lp f))"

definition with_query :: "bytes \<Rightarrow> ResolvedPath \<Rightarrow> ResolvedPath" where
  "with_query t rp =
     (case snd (split_target t) of
        Some q \<Rightarrow> rp\<lparr>query_string := fst (strlcpy q PATH_MAX)\<rparr>
      | None \<Rightarrow> rp)"

section \<open>The local path\<close>

lemma split_target_buffer: "take (PATH_MAX - 1) (CHR ''.'' # t) = CHR ''.'' # take (PATH_MAX - 2) t"
  by (simp add: take_Cons' PATH_MAX_def)

lemma split_target_local:
  "fst (split_target t) = Some (CHR ''.'' # takeWhile (\<lambda>c. c \<noteq> CHR ''?'') (take (PATH_MAX - 2) t))"
proof -
  have "fst (strtok (CHR ''.'' # b) ''?'') = Some (CHR ''.'' # takeWhile (\<lambda>c. c \<noteq> CHR ''?'') b)" for b
    by (simp add: strtok_def Let_def)
  then show ?thesis
    using split_target_buffer [of t]
    by (simp add: split_target_def snprintf_def BASE_URL_def Let_def split: prod.split)
       (metis fst_conv)
qed

lemma split_target_fits:
  "length t + 1 < PATH_MAX \<Longrightarrow>
     fst (split_target t) = Some (CHR ''.'' # takeWhile (\<lambda>c. c \<noteq> CHR ''?'') t)"
  by (simp add: split_target_local)

lemma local_path_of_eq:
  "local_path_of t = CHR ''.'' # takeWhile (\<lambda>c. c \<noteq> CHR ''?'') (take (PATH_MAX - 2) t)"
  by (simp add: local_path_of_def split_target_local)

section \<open>Outcome on every branch\<close>

lemma handle_dir_index_ok:
  assumes "w_streams w h = Some \<lparr>s_file = f, s_pos = 0\<rparr>" "fi_stat_ok f"
  shows "handle_dir_index h c rp w =
    (0, c\<lparr>file_ptr := Some h, file_size := fi_size f\<rparr>,
     rp\<lparr>rp_file_ptr := Some h, rp_file_size := fi_size f, mime_type := Some ''text/html'',
        last_mod := fi_mtime f, path_type := IS_FILE\<rparr>, w)"
  using assms by (simp add: handle_dir_index_def c_fstat_def Let_def)

lemma get_file_path_opens:
  "get_file_path (get_last_char lp) sys lp idx w =
     c_fopen sys (take (PATH_MAX - 1) (lp @ (if lp \<noteq> [] \<and> last lp = SLASH then [] else ''/'') @ idx)) w"
  by (simp add: get_last_char_def get_file_path_slash_def get_file_path_char_def snprintf_def
      del: take_append)

text \<open>
  The directory branch with the stream of the directory open: either an index file is served
  and the directory stream is closed, or the stream is closed and a listing is announced.
\<close>

lemma resolve_dir_cases:
  assumes "world_ok w" and "stat_works sys" and "w_streams w d \<noteq> None"
    and res: "resolve_dir sys lp d st c rp w = (rc, c', rp', w')"
  obtains (index) h f where "rc = 0" "w_next w \<le> h" "d \<noteq> h"
      "c' = c\<lparr>file_ptr := Some h, file_size := fi_size f\<rparr>" "fi_stat_ok f"
      "rp' = rp\<lparr>rp_file_ptr := Some h, rp_file_size := fi_size f, mime_type := Some ''text/html'',
               last_mod := fi_mtime f, path_type := IS_FILE\<rparr>"
      "only_streams w w'" "h < w_next w'"
      "w_streams w' = (w_streams w)(d := None, h \<mapsto> \<lparr>s_file = f, s_pos = 0\<rparr>)"
      "\<exists>idx \<in> {DIR_INDEX, DIR_INDEX2}. os_fopen sys (take (PATH_MAX - 1)
         (lp @ (if lp \<noteq> [] \<and> last lp = SLASH then [] else ''/'') @ idx)) = Inr f"
      "find_index sys lp = Some f"
  | (listing) "rc = 0" "c' = c" "find_index sys lp = None"
      "rp' = rp\<lparr>last_mod := fi_mtime st, path_type := IS_DIR, rp_file_ptr := None\<rparr>"
      "only_streams w w'" "w_streams w' = (w_streams w)(d := None)"
proof -
  let ?n = "\<lambda>idx. take (PATH_MAX - 1) (lp @ (if lp \<noteq> [] \<and> last lp = SLASH then [] else ''/'') @ idx)"
  have found: thesis
    if idx: "idx \<in> {DIR_INDEX, DIR_INDEX2}" and o: "os_fopen sys (?n idx) = Inr f"
      and fi: "find_index sys lp = Some f"
      and w1: "only_streams w w1" "w_next w1 = Suc (w_next w)"
        "w_streams w1 = (w_streams w)(w_next w \<mapsto> \<lparr>s_file = f, s_pos = 0\<rparr>)"
      and r: "handle_dir_index (w_next w) c rp (c_fclose d w1) = (rc, c', rp', w')" for idx f w1
  proof -
    have d: "d \<noteq> w_next w" using assms(3) world_ok_fresh(1) [OF assms(1), of d] by auto
    have st: "fi_stat_ok f" using assms(2) o by (simp add: stat_works_def)
    have s: "w_streams (c_fclose d w1) =
        (w_streams w)(d := None, w_next w \<mapsto> \<lparr>s_file = f, s_pos = 0\<rparr>)"
      using d by (auto simp: w1 world_simps)
    have l: "w_streams w1 d \<noteq> None" using d assms(3) by (simp add: w1)
    note e = handle_dir_index_ok [of "c_fclose d w1" "w_next w" f c rp]
    have "w' = c_fclose d w1" and "rc = 0" and "c' = c\<lparr>file_ptr := Some (w_next w), file_size := fi_size f\<rparr>"
      and "rp' = rp\<lparr>rp_file_ptr := Some (w_next w), rp_file_size := fi_size f,
             mime_type := Some ''text/html'', last_mod := fi_mtime f, path_type := IS_FILE\<rparr>"
      using r e st by (simp_all add: s)
    then show thesis
      using s st d idx o fi w1(2) only_streams_trans [OF w1(1) c_fclose_live [OF l]]
      by (intro index [where h = "w_next w" and f = f]) (auto simp: world_simps)
  qed
  show thesis
  proof (cases rule: c_fopen_cases [of sys "?n DIR_INDEX" w])
    case (opens f w1)
    with found [of DIR_INDEX f w1] res show thesis
      by (simp add: resolve_dir_def get_file_path_opens find_index_def)
  next
    case e1: (fail e)
    show thesis
    proof (cases rule: c_fopen_cases [of sys "?n DIR_INDEX2" w])
      case (opens f w1)
      with found [of DIR_INDEX2 f w1] res e1 show thesis
        by (simp add: resolve_dir_def get_file_path_opens find_index_def)
    next
      case (fail e')
      with res e1 have "rc = 0" "c' = c" "w' = c_fclose d w"
        "rp' = rp\<lparr>last_mod := fi_mtime st, path_type := IS_DIR, rp_file_ptr := None\<rparr>"
        by (simp_all add: resolve_dir_def get_file_path_opens)
      then show thesis
        using c_fclose_live [OF assms(3)] e1 fail
        by (intro listing) (simp_all add: world_simps find_index_def)
    qed
  qed
qed

lemma resolve_path_eq:
  "resolve_path sys fl c req rp w =
     (case c_fopen sys (local_path_of (req_path req)) w of
        (Inl e, w1) \<Rightarrow> (-1, c\<lparr>resp_val := (if e = EACCES then RESP_403 else RESP_404)\<rparr>,
           (with_query (req_path req) rp)\<lparr>rp_file_ptr := None\<rparr>, w1)
      | (Inr h, w1) \<Rightarrow>
          (case c_fstat h w1 of
             None \<Rightarrow> (-1, c\<lparr>resp_val := RESP_500\<rparr>,
               (with_query (req_path req) rp)\<lparr>rp_file_ptr := Some h\<rparr>, c_fclose h w1)
           | Some st \<Rightarrow> resolve_open sys fl (local_path_of (req_path req)) h st c
               ((with_query (req_path req) rp)\<lparr>rp_file_ptr := Some h\<rparr>) w1))"
  unfolding resolve_path_def local_path_of_def with_query_def Let_def
  by (simp add: case_prod_unfold)

text \<open>
  Every way \<^verbatim>\<open>resolve_path\<close> can end, when \<^verbatim>\<open>fstat\<close> works.  In the case \<open>serve\<close> the client and the
  result hold the same stream, which is new; in the case \<open>cgi_off\<close> a stream stays open that
  nothing points to.
\<close>

lemma resolve_path_cases:
  assumes ok: "world_ok w" and st: "stat_works sys"
    and res: "resolve_path sys fl c req rp w = (rc, c', rp', w')"
  obtains (nofile) e where "os_fopen sys (local_path_of (req_path req)) = Inl e" "rc = -1"
      "c' = c\<lparr>resp_val := (if e = EACCES then RESP_403 else RESP_404)\<rparr>"
      "rp_file_ptr rp' = None" "w' = w"
      "resource_of sys fl (local_path_of (req_path req)) = Refused (if e = EACCES then RESP_403 else RESP_404)"
  | (cgi_off) f where "os_fopen sys (local_path_of (req_path req)) = Inr f"
      "path_includes_cgi (local_path_of (req_path req))" "\<not> flag_set fl C_FLAG" "rc = -1"
      "c' = c\<lparr>resp_val := RESP_501\<rparr>" "rp_file_ptr rp' = None" "only_streams w w'"
      "w_next w' = Suc (w_next w)"
      "w_streams w' = (w_streams w)(w_next w \<mapsto> \<lparr>s_file = f, s_pos = 0\<rparr>)"
      "resource_of sys fl (local_path_of (req_path req)) = Refused RESP_501"
  | (listing) f where "os_fopen sys (local_path_of (req_path req)) = Inr f" "fi_is_dir f" "rc = 0"
      "c' = c" "rp_file_ptr rp' = None" "path_type rp' = IS_DIR" "last_mod rp' = fi_mtime f"
      "only_streams w w'" "w_streams w' = w_streams w"
      "resource_of sys fl (local_path_of (req_path req)) = Listing f"
  | (serve) h f name where "rc = 0" "c' = c\<lparr>file_ptr := Some h, file_size := fi_size f\<rparr>"
      "rp_file_ptr rp' = Some h" "rp_file_size rp' = fi_size f" "last_mod rp' = fi_mtime f"
      "path_type rp' \<in> {IS_FILE, IS_CGI}"
      "path_type rp' = IS_CGI \<Longrightarrow> path_includes_cgi (local_path_of (req_path req)) \<and> flag_set fl C_FLAG"
      "only_streams w w'" "w_next w \<le> h" "h < w_next w'"
      "w_streams w' = (w_streams w)(h \<mapsto> \<lparr>s_file = f, s_pos = 0\<rparr>)"
      "name \<in> opened_names (local_path_of (req_path req))" "os_fopen sys name = Inr f"
      "resource_of sys fl (local_path_of (req_path req)) =
         (if path_type rp' = IS_CGI then Script f else Plain_file f (mime_type rp'))"
      "query_string rp' = query_string (with_query (req_path req) rp)"
proof -
  let ?lp = "local_path_of (req_path req)" and ?rp1 = "with_query (req_path req) rp"
  have fresh: "w_streams w (w_next w) = None" using ok by (simp add: world_ok_fresh)
  show thesis
  proof (cases rule: c_fopen_cases [of sys ?lp w])
    case (fail e)
    with res resolve_path_eq [of sys fl c req rp w] show thesis by (intro nofile [of e]) (auto simp: resource_of_def)
  next
    case (opens f w1)
    let ?h = "w_next w"
    let ?k = "if path_includes_cgi ?lp then IS_CGI else IS_FILE" and ?rp2 = "?rp1\<lparr>rp_file_ptr := Some ?h\<rparr>"
    from st opens(1) have f: "fi_stat_ok f" by (simp add: stat_works_def)
    with opens have "c_fstat ?h w1 = Some f" by (simp add: c_fstat_def)
    with opens res resolve_path_eq [of sys fl c req rp w]
    have r: "resolve_open sys fl ?lp ?h f c ?rp2 w1 = (rc, c', rp', w')" by simp
    consider (off) "path_includes_cgi ?lp" "\<not> flag_set fl C_FLAG"
      | (dir) "\<not> (path_includes_cgi ?lp \<and> \<not> flag_set fl C_FLAG)" "fi_is_dir f"
      | (regular) "\<not> (path_includes_cgi ?lp \<and> \<not> flag_set fl C_FLAG)" "\<not> fi_is_dir f" by blast
    then show thesis
    proof cases
      case off
      with r opens show thesis by (intro cgi_off [of f]) (auto simp: resolve_open_def resource_of_def)
    next
      case dir
      have ok1: "world_ok w1" using ok opens(3-5) by (rule world_ok_opened)
      have d1: "w_streams w1 ?h \<noteq> None" by (simp add: opens(5))
      from r dir have "resolve_dir sys ?lp ?h f c (?rp2\<lparr>path_type := ?k\<rparr>) w1 = (rc, c', rp', w')"
        by (simp add: resolve_open_def Let_def)
      note rd = this
      have rs: "resource_of sys fl ?lp =
          (case find_index sys ?lp of Some g \<Rightarrow> Plain_file g (Some ''text/html'') | None \<Rightarrow> Listing f)"
        unfolding resource_of_def opens(1) using dir by auto
      from ok1 st d1 rd show thesis
      proof (cases rule: resolve_dir_cases)
        case (index h g)
        then obtain name where "name \<in> opened_names ?lp" "os_fopen sys name = Inr g"
          by (auto simp: opened_names_def local_path_of_eq)
        with index opens show thesis
          using only_streams_trans [OF opens(3) index(7)] fresh
          by (intro serve [where h = h and f = g]) (auto simp: only_streams_def rs)
      next
        case listing
        with opens show thesis
          using only_streams_trans [OF opens(3) listing(5)] fresh dir
          by (intro that(3) [of f]) (auto simp: rs)
      qed
    next
      case regular
      with r opens show thesis
        by (intro serve [where h = ?h and f = f and name = ?lp]) (auto simp: resolve_open_def Let_def opened_names_def resource_of_def split: if_splits)
    qed
  qed
qed

section \<open>Containment\<close>

lemma split_fields_inner:
  "s \<in> set (butlast (split_fields SLASH p)) \<Longrightarrow> sublist (s @ [SLASH]) p"
proof (induction p arbitrary: s)
  case (Cons x p)
  show ?case
  proof (cases "x = SLASH")
    case True
    with Cons show ?thesis by (auto intro: sublist_Cons_right [THEN iffD2])
  next
    case False
    obtain f fs where f: "split_fields SLASH p = f # fs"
      by (cases "split_fields SLASH p") auto
    show ?thesis
    proof (cases fs)
      case Nil
      with Cons.prems False f show ?thesis by simp
    next
      case (Cons g gs)
      with Cons.prems False f have "s = x # f \<or> s \<in> set (butlast fs)" by auto
      then show ?thesis
      proof
        assume s: "s = x # f"
        have "prefix (f @ [SLASH]) p"
          using f Cons by (intro split_fields_first [of SLASH p f g gs]) simp
        with s show ?thesis by (simp add: sublist_Cons_right)
      next
        assume "s \<in> set (butlast fs)"
        with f Cons have "s \<in> set (butlast (split_fields SLASH p))" by simp
        then have "sublist (s @ [SLASH]) p" by (rule Cons.IH)
        then show ?thesis by (simp add: sublist_Cons_right)
      qed
    qed
  qed
qed simp

lemma stays_below_no_dotdot: "''..'' \<notin> set ss \<Longrightarrow> stays_below d ss"
  by (induction ss arbitrary: d) auto

lemma local_path_no_traversal:
  assumes "\<exists>rest. t = SLASH # rest" and "\<not> sublist ''../'' t"
  shows "\<not> sublist ''../'' (local_path_of t)"
proof -
  let ?u = "takeWhile (\<lambda>c. c \<noteq> CHR ''?'') (take (PATH_MAX - 2) t)"
  have "prefix ?u t" by (meson prefix_order.order_trans take_is_prefix takeWhile_is_prefix)
  then have "\<not> sublist ''../'' ?u"
    using assms(2) by (meson prefix_imp_sublist sublist_order.order_trans)
  moreover have "\<not> prefix ''../'' (CHR ''.'' # ?u)"
  proof -
    from assms(1) obtain rest where "take (PATH_MAX - 2) t = SLASH # take (PATH_MAX - 3) rest"
      by (auto simp: PATH_MAX_def take_Cons')
    then show ?thesis by simp
  qed
  ultimately show ?thesis by (simp add: local_path_of_eq sublist_Cons_right)
qed

lemma local_path_segments:
  assumes "\<exists>rest. t = SLASH # rest" "\<not> sublist ''../'' t"
    and "last (split_fields SLASH (local_path_of t)) \<noteq> ''..''"
  shows "''..'' \<notin> set (split_fields SLASH (local_path_of t))"
proof -
  let ?fs = "split_fields SLASH (local_path_of t)"
  have "''..'' \<notin> set (butlast ?fs)"
    using split_fields_inner [of "''..''" "local_path_of t"] local_path_no_traversal [OF assms(1,2)]
    by auto
  moreover have "set ?fs = insert (last ?fs) (set (butlast ?fs))"
    by (metis append_butlast_last_id list.simps(15) rotate1.simps(2) set_rotate1 split_fields_not_Nil)
  ultimately show ?thesis using assms(3) by auto
qed

lemma split_fields_extend:
  assumes "SLASH \<notin> set pre" and "lp \<noteq> []"
  shows "set (split_fields SLASH (lp @ (if last lp = SLASH then [] else ''/'') @ pre))
           \<subseteq> insert pre (set (split_fields SLASH lp))"
proof (cases "last lp = SLASH")
  case True
  with assms(2) have "lp = butlast lp @ [SLASH]" by (metis append_butlast_last_id)
  then obtain l where l: "lp = l @ [SLASH]" by blast
  with assms(1) show ?thesis
    using split_fields_snoc [of SLASH l pre] split_fields_snoc [of SLASH l "[]"]
    by (auto simp: split_fields_single)
next
  case False
  with assms(1) show ?thesis
    using split_fields_snoc [of SLASH lp pre] by (auto simp: split_fields_single)
qed

lemma take_index_name:
  assumes "length lp \<le> n" "SLASH \<notin> set idx" "''..'' \<notin> set (prefixes idx)" "lp \<noteq> []"
    and "''..'' \<notin> set (split_fields SLASH lp)"
  shows "''..'' \<notin> set (split_fields SLASH (take n (lp @ (if last lp = SLASH then [] else ''/'') @ idx)))"
proof -
  let ?sep = "if last lp = SLASH then [] else ''/''"
  consider "take n (lp @ ?sep @ idx) = lp" | k where "take n (lp @ ?sep @ idx) = lp @ ?sep @ take k idx"
    using assms(1) by (cases "n = length lp") (force simp: take_Cons')+
  then show ?thesis
  proof cases
    case 1
    then show ?thesis using assms(5) by simp
  next
    case (2 k)
    have "SLASH \<notin> set (take k idx)" using assms(2) by (meson in_set_takeD)
    moreover have "take k idx \<noteq> ''..''" using assms(3) by (metis in_set_prefixes take_is_prefix)
    ultimately show ?thesis
      using split_fields_extend [of "take k idx" lp] assms(4,5) unfolding 2 by auto
  qed
qed

text \<open>Every name the server opens for a target without \<^verbatim>\<open>../\<close> and without a last \<^verbatim>\<open>..\<close> stays inside.\<close>

lemma opened_names_contained:
  assumes t: "\<exists>rest. t = SLASH # rest" "\<not> sublist ''../'' t"
    and l: "last (split_fields SLASH (local_path_of t)) \<noteq> ''..''"
    and n: "name \<in> opened_names (local_path_of t)"
  shows "contained name"
proof -
  let ?lp = "local_path_of t"
  have f: "''..'' \<notin> set (split_fields SLASH ?lp)" using t l by (rule local_path_segments)
  have "length ?lp \<le> PATH_MAX - 1"
    using length_takeWhile_le [of "\<lambda>c. c \<noteq> CHR ''?''" "take (PATH_MAX - 2) t"]
    by (simp add: local_path_of_eq PATH_MAX_def)
  moreover have "?lp \<noteq> []" by (simp add: local_path_of_eq)
  ultimately have "''..'' \<notin> set (split_fields SLASH
      (take (PATH_MAX - 1) (?lp @ (if last ?lp = SLASH then [] else ''/'') @ idx)))"
    if "idx \<in> {DIR_INDEX, DIR_INDEX2}" for idx
    using that f by (intro take_index_name) (auto simp: DIR_INDEX_def DIR_INDEX2_def)
  with n f have "''..'' \<notin> set (split_fields SLASH name)"
    by (auto simp: opened_names_def simp del: take_append)
  then show ?thesis by (simp add: contained_def stays_below_no_dotdot)
qed

text \<open>
  Of the file system, \<^verbatim>\<open>resolve_path\<close> sees the opened names only: two systems that agree on them
  give the same result.
\<close>

lemma c_fopen_cong: "os_fopen sys n = os_fopen sys' n \<Longrightarrow> c_fopen sys n w = c_fopen sys' n w"
  by (simp add: c_fopen_def)

lemma index_name_opened:
  assumes "lp \<noteq> []" "idx \<in> {DIR_INDEX, DIR_INDEX2}"
  shows "take (PATH_MAX - 1) (lp @ (if lp \<noteq> [] \<and> last lp = SLASH then [] else ''/'') @ idx) \<in> opened_names lp"
  using assms unfolding opened_names_def by auto

lemma resolve_dir_reads:
  assumes "\<forall>n \<in> opened_names lp. os_fopen sys n = os_fopen sys' n" "lp \<noteq> []"
  shows "resolve_dir sys lp d st c rp w = resolve_dir sys' lp d st c rp w"
proof -
  have e: "get_file_path (get_last_char lp) sys lp idx w = get_file_path (get_last_char lp) sys' lp idx w"
    if "idx \<in> {DIR_INDEX, DIR_INDEX2}" for idx w
    unfolding get_file_path_opens using assms(1) index_name_opened [OF assms(2) that] by (intro c_fopen_cong) blast
  show ?thesis unfolding resolve_dir_def e [of DIR_INDEX, simplified] e [of DIR_INDEX2, simplified] ..
qed

lemma resolve_path_reads:
  assumes "\<forall>n \<in> opened_names (local_path_of (req_path req)). os_fopen sys n = os_fopen sys' n"
    and "os_magic sys = os_magic sys'"
  shows "resolve_path sys fl c req rp w = resolve_path sys' fl c req rp w"
proof -
  let ?lp = "local_path_of (req_path req)"
  have "?lp \<noteq> []" by (simp add: local_path_of_eq)
  note d = resolve_dir_reads [OF assms(1) this]
  have o: "resolve_open sys fl ?lp h st c rp w = resolve_open sys' fl ?lp h st c rp w" for h st rp w
    unfolding resolve_open_def get_mime_type_by_ext_def d assms(2) ..
  have "c_fopen sys ?lp w = c_fopen sys' ?lp w"
    using assms(1) by (intro c_fopen_cong) (simp add: opened_names_def)
  then show ?thesis unfolding resolve_path_eq o by (rule arg_cong)
qed

text \<open>The outcome as a function of the resource the path stands for.\<close>

lemma resolve_path_outcome:
  assumes "world_ok w" "stat_works sys" "resolve_path sys fl c req rp0 w = (rc, c', rp, w')"
  shows "case resource_of sys fl (local_path_of (req_path req)) of
       Refused r \<Rightarrow> rc = -1 \<and> c' = c\<lparr>resp_val := r\<rparr> \<and> rp_file_ptr rp = None
     | Listing f \<Rightarrow> rc = 0 \<and> c' = c \<and> path_type rp = IS_DIR \<and> last_mod rp = fi_mtime f \<and>
         rp_file_ptr rp = None \<and> w_streams w' = w_streams w
     | Script f \<Rightarrow> rc = 0 \<and> path_type rp = IS_CGI \<and>
         (\<exists>h. rp_file_ptr rp = Some h \<and> w_streams w' = (w_streams w)(h \<mapsto> \<lparr>s_file = f, s_pos = 0\<rparr>))
     | Plain_file f m \<Rightarrow> rc = 0 \<and> path_type rp = IS_FILE \<and> mime_type rp = m \<and>
         rp_file_size rp = fi_size f \<and> last_mod rp = fi_mtime f \<and>
         (\<exists>h. rp_file_ptr rp = Some h \<and> w_streams w' = (w_streams w)(h \<mapsto> \<lparr>s_file = f, s_pos = 0\<rparr>))"
  using assms
proof (cases rule: resolve_path_cases)
  case (serve h f name)
  then show ?thesis by (cases "path_type rp = IS_CGI") auto
qed simp_all

section \<open>Properties\<close>

text \<open>
  C4: \<^verbatim>\<open>resolve_path\<close> classifies a target as the specification reads it off the file system:
  403 or 404 when the path cannot be opened, 501 for a script with CGI off, an index file or a
  listing for a directory, else the file itself.  A served file's stream is open at its start
  and the recorded type, size and time are those of that file.
\<close>

theorem resolve_path_refines:
  assumes "world_ok w" "stat_works sys"
  shows "case resolve_path sys fl c req rp0 w of (rc, c', rp, w') \<Rightarrow>
     case resource_of sys fl (local_path_of (req_path req)) of
       Refused r \<Rightarrow> rc = -1 \<and> c' = c\<lparr>resp_val := r\<rparr> \<and> rp_file_ptr rp = None
     | Listing f \<Rightarrow> rc = 0 \<and> c' = c \<and> path_type rp = IS_DIR \<and> last_mod rp = fi_mtime f \<and>
         rp_file_ptr rp = None \<and> w_streams w' = w_streams w
     | Script f \<Rightarrow> rc = 0 \<and> path_type rp = IS_CGI \<and>
         (\<exists>h. rp_file_ptr rp = Some h \<and> w_streams w' = (w_streams w)(h \<mapsto> \<lparr>s_file = f, s_pos = 0\<rparr>))
     | Plain_file f m \<Rightarrow> rc = 0 \<and> path_type rp = IS_FILE \<and> mime_type rp = m \<and>
         rp_file_size rp = fi_size f \<and> last_mod rp = fi_mtime f \<and>
         (\<exists>h. rp_file_ptr rp = Some h \<and> w_streams w' = (w_streams w)(h \<mapsto> \<lparr>s_file = f, s_pos = 0\<rparr>))"
  using resolve_path_outcome [OF assms] by (auto split: prod.split)

text \<open>A connection and a request for examples.\<close>

definition sample_Client :: Client where
  "sample_Client =
     \<lparr>in_buf = None, out_buf = None, file_ptr = None, file_size = 0, body_sent = 0,
      input_length = 0, input_capacity = 0, output_length = 0, output_capacity = 0,
      output_sent = 0, header_len = 0, body_len = 0, fd = 5, state = READING,
      resp_val = NUM_CLIENT_RESP, timestamp = [], client_addr = ''::1''\<rparr>"

definition sample_request :: "bytes \<Rightarrow> Request" where
  "sample_request path =
     zero_Request\<lparr>time_received := sample_time, req_method := HTTP_GET, req_version := HTTP_1_0, req_path := path\<rparr>"

lemma sample_request_simps [simp]:
  "req_path (sample_request p) = p" "time_received (sample_request p) = sample_time"
  "req_method (sample_request p) = HTTP_GET" "req_version (sample_request p) = HTTP_1_0"
  by (simp_all add: sample_request_def)

lemma sample_index: "resource_of sample_os 0 ''./d'' = Plain_file sample_file (Some ''text/html'')"
  by (simp add: resource_of_def sample_os_def sample_dir_def find_index_def path_includes_cgi_def strnstr_def
      DIR_INDEX_def PATH_MAX_def cstr_def)

theorem resolve_path_refines_witness:
  "fst (resolve_path sample_os 0 sample_Client (sample_request ''/d'') zero_ResolvedPath empty_world) = 0 \<and>
   mime_type (fst (snd (snd (resolve_path sample_os 0 sample_Client (sample_request ''/d'')
      zero_ResolvedPath empty_world)))) = Some ''text/html''"
proof -
  have "local_path_of ''/d'' = ''./d''" by (simp add: local_path_of_eq PATH_MAX_def)
  then show ?thesis
    using resolve_path_refines [OF world_ok_empty sample_os_stat, where fl = 0 and c = sample_Client and req = "sample_request ''/d''" and ?rp0.0 = zero_ResolvedPath]
    by (auto simp: sample_index split: prod.splits)
qed



text \<open>
  C35: the gap in the traversal check.  When the parent directory can be opened and holds an
  index file, a \<^verbatim>\<open>GET /..\<close> passes the parser and \<^verbatim>\<open>resolve_path\<close> serves that file, which is not
  below the served directory.
\<close>

theorem trailing_dotdot_escapes:
  assumes "world_ok w" "stat_works sys"
    and "os_fopen sys ''./..'' = Inr d" "fi_is_dir d" "os_fopen sys ''./../index.htm'' = Inr f"
  shows "\<not> contained ''./../index.htm'' \<and>
     (\<exists>req le w1. parse_request sys0 fl (Some (render_request ''GET'' ''/..'' ''HTTP/1.0'' []))
        (length (render_request ''GET'' ''/..'' ''HTTP/1.0'' [])) zero_Request NUM_CLIENT_RESP zero_LogEntry w =
          (0, req, NUM_CLIENT_RESP, le, w1) \<and>
      (\<exists>c' rp w' h. resolve_path sys fl c req rp0 w = (0, c', rp, w') \<and> rp_file_ptr rp = Some h \<and>
          w_streams w' h = Some \<lparr>s_file = f, s_pos = 0\<rparr>))"
proof -
  have "\<not> sublist ''../'' ''/..''" by (simp add: sublist_Cons_right)
  then obtain req le w1 where p: "parse_request sys0 fl (Some (render_request ''GET'' ''/..'' ''HTTP/1.0'' []))
        (length (render_request ''GET'' ''/..'' ''HTTP/1.0'' [])) zero_Request NUM_CLIENT_RESP zero_LogEntry w =
          (0, req, NUM_CLIENT_RESP, le, w1)" "req_path req = ''/..''"
    using parse_request_render [of "''GET''" "''HTTP/1.0''" "''/..''" "[]" sys0 fl zero_Request
        NUM_CLIENT_RESP zero_LogEntry w]
    by (auto simp: PATH_MAX_def)
  have lp: "local_path_of (req_path req) = ''./..''" by (simp add: p(2) local_path_of_eq PATH_MAX_def)
  have "resource_of sys fl (local_path_of (req_path req)) = Plain_file f (Some ''text/html'')"
    unfolding lp using assms(3-5)
    by (simp add: resource_of_def find_index_def path_includes_cgi_def strnstr_def DIR_INDEX_def PATH_MAX_def cstr_def)
  moreover obtain rc c' rp w' where r: "resolve_path sys fl c req rp0 w = (rc, c', rp, w')"
    using prod_cases4 by blast
  ultimately have "rc = 0" "\<exists>h. rp_file_ptr rp = Some h \<and> w_streams w' h = Some \<lparr>s_file = f, s_pos = 0\<rparr>"
    using resolve_path_outcome [OF assms(1,2) r] by auto
  with r p(1) show ?thesis by (auto simp: contained_def)
qed

theorem trailing_dotdot_escapes_witness:
  "\<exists>req c' rp w'. resolve_path (sample_os\<lparr>os_fopen := (\<lambda>p. if p = ''./..'' then Inr sample_dir
        else if p = ''./../index.htm'' then Inr sample_file else Inl ENOENT)\<rparr>)
      0 sample_Client req zero_ResolvedPath empty_world = (0, c', rp, w')"
proof -
  let ?s = "sample_os\<lparr>os_fopen := (\<lambda>p. if p = ''./..'' then Inr sample_dir
        else if p = ''./../index.htm'' then Inr sample_file else Inl ENOENT)\<rparr>"
  have "stat_works ?s" by (simp add: stat_works_def sample_file_def sample_dir_def)
  then show ?thesis
    using trailing_dotdot_escapes [OF world_ok_empty, where sys = ?s and d = sample_dir and f = sample_file and ?sys0.0 = sample_os and fl = 0 and
        c = sample_Client and ?rp0.0 = zero_ResolvedPath]
    by (auto simp: sample_dir_def)
qed

end
