(* ===== verification/Response.thy ===== *)
theory Response
  imports Resolve_Path
begin

text \<open>
  What the response builders of \<^verbatim>\<open>response/\<close> have in common.  A builder stages a message in the
  client's output buffer; \<open>staged\<close> says that the buffer is a live block that holds exactly
  these bytes.  The locale \<open>response_builder\<close> is the contract all four builders meet: on
  success the staged bytes are head lines, an empty line and a body, and the lines are
  non-empty and free of CR.  From that contract alone the locale derives what the peer sees.
  Also here: the part of a \<^verbatim>\<open>Client\<close> no builder touches, and the head lines they share.
\<close>

section \<open>Definitions\<close>

definition SERVER_VERSION :: bytes where "SERVER_VERSION = ''Simple_Server V2''"

definition staged :: "world \<Rightarrow> Client \<Rightarrow> bytes \<Rightarrow> bool" where
  "staged w c d \<longleftrightarrow>
     (\<exists>p b. out_buf c = Some p \<and> w_blocks w p = Some b \<and> b_data b = d \<and> length d \<le> b_size b) \<and>
     output_length c = length d"

text \<open>A whole response is staged, with the given status text in its first line.\<close>

definition complete_response :: "bytes \<Rightarrow> world \<Rightarrow> Client \<Rightarrow> bool" where
  "complete_response status w c \<longleftrightarrow>
     (\<exists>ls body. staged w c (crlf_lines ls @ CRLF @ body) \<and> (\<forall>l \<in> set ls. plain_line l) \<and>
        ls \<noteq> [] \<and> hd ls = ''HTTP/1.0 '' @ status)"

text \<open>The fields a builder leaves alone.\<close>

definition conn_part ::
    "Client \<Rightarrow> int \<times> client_state \<times> ptr \<times> nat \<times> nat \<times> ptr \<times> nat \<times> bytes"
where
  "conn_part c =
     (fd c, state c, in_buf c, input_length c, input_capacity c, file_ptr c, output_sent c,
      client_addr c)"

lemma staged_unique: "staged w c d \<Longrightarrow> staged w c e \<Longrightarrow> d = e"
  by (auto simp: staged_def)

section \<open>The contract of a builder\<close>

locale response_builder =
  fixes build :: "os \<Rightarrow> Client \<Rightarrow> 'a \<Rightarrow> world \<Rightarrow> int \<times> Client \<times> world"
    and pre :: "os \<Rightarrow> Client \<Rightarrow> 'a \<Rightarrow> world \<Rightarrow> bool"
    and head :: "os \<Rightarrow> Client \<Rightarrow> 'a \<Rightarrow> world \<Rightarrow> bytes list"
    and body :: "os \<Rightarrow> Client \<Rightarrow> 'a \<Rightarrow> world \<Rightarrow> bytes"
    and sent :: "os \<Rightarrow> Client \<Rightarrow> 'a \<Rightarrow> world \<Rightarrow> bytes"
  assumes stages: "pre sys c x w \<Longrightarrow> build sys c x w = (0, c', w') \<Longrightarrow>
      staged w' c' (crlf_lines (head sys c x w) @ CRLF @ sent sys c x w)"
    and header: "pre sys c x w \<Longrightarrow> build sys c x w = (0, c', w') \<Longrightarrow>
      header_len c' = length (crlf_lines (head sys c x w)) + 2"
    and plain: "pre sys c x w \<Longrightarrow> l \<in> set (head sys c x w) \<Longrightarrow> plain_line l"
    and announces: "pre sys c x w \<Longrightarrow>
      header_value ''Content-Length: '' (head sys c x w) = Some (show_nat (length (body sys c x w)))"
    and frame: "build sys c x w = (rc, c', w') \<Longrightarrow> conn_part c' = conn_part c"
begin

text \<open>The peer that reads head lines up to the empty line recovers head and body.\<close>

lemma received:
  assumes "pre sys c x w" "build sys c x w = (0, c', w')" "staged w' c' d"
  shows "read_head d = Some (head sys c x w, sent sys c x w)"
proof -
  have d: "d = crlf_lines (head sys c x w) @ CRLF @ sent sys c x w"
    using assms(3) stages [OF assms(1,2)] by (rule staged_unique)
  show ?thesis
    unfolding d by (rule read_head_crlf_lines) (blast intro: plain [OF assms(1)])
qed

text \<open>The announced length is that of the body; when the body is sent, of what follows the head.\<close>

lemma announced_length:
  assumes "pre sys c x w"
  shows "map_option read_nat (header_value ''Content-Length: '' (head sys c x w)) =
           Some (length (body sys c x w))"
  using announces [OF assms] by simp

lemma completes:
  assumes "pre sys c x w" "build sys c x w = (0, c', w')"
    and "head sys c x w \<noteq> []" "hd (head sys c x w) = ''HTTP/1.0 '' @ status"
  shows "complete_response status w' c'"
  unfolding complete_response_def
  using stages [OF assms(1,2)] plain [OF assms(1)] assms(3,4) by blast

lemma output_split:
  assumes "pre sys c x w" "build sys c x w = (0, c', w')"
  shows "output_length c' = header_len c' + length (sent sys c x w)"
  using stages [OF assms] header [OF assms] by (auto simp: staged_def)

lemma framing:
  assumes "pre sys c x w" "build sys c x w = (0, c', w')" "sent sys c x w = body sys c x w"
    and "staged w' c' d"
  shows "\<exists>lines. read_head d = Some (lines, body sys c x w) \<and>
     map_option read_nat (header_value ''Content-Length: '' lines) = Some (length (body sys c x w))"
  using received [OF assms(1,2,4)] announced_length [OF assms(1)] assms(3) by auto

end

section \<open>Lemmas the builders share\<close>

lemma staged_memstream:
  assumes "c_memstream sys d w = (Some p, w')" "out_buf c = Some p" "output_length c = length d"
  shows "staged w' c d"
  using assms by (auto simp: c_memstream_eq staged_def split: if_splits)

lemma stagedI:
  "out_buf c = Some p \<Longrightarrow> w_blocks w p = Some \<lparr>b_size = Suc (length d), b_data = d\<rparr> \<Longrightarrow>
     output_length c = length d \<Longrightarrow> staged w c d"
  by (simp add: staged_def)

lemma staged_data: "staged w c d \<Longrightarrow> block_data w (out_buf c) = d"
  by (auto simp: staged_def block_data_def)

lemma plain_line_append: "plain_line a \<Longrightarrow> CR \<notin> set b \<Longrightarrow> plain_line (a @ b)"
  by (auto simp: plain_line_def)

end
