(* ===== verification/File_Response.thy ===== *)
theory File_Response
  imports Response
begin

text \<open>
  The file branch of \<^verbatim>\<open>response/build_okay_response.c\<close> and the small helpers at the top of that
  file.  The body is copied from the open stream to the output stream in chunks of 8192 bytes;
  the copy loop is shown to end and to move exactly the bytes of the file.
\<close>

section \<open>Definitions\<close>

definition check_resolve_args :: "Client option \<Rightarrow> ResolvedPath option \<Rightarrow> Request option \<Rightarrow> int" where
  "check_resolve_args c rp req =
     (if c = None then -1 else if rp = None then -1 else if req = None then -1 else 0)"

text \<open>What \<^verbatim>\<open>%s\<close> prints for a pointer that may be NULL.\<close>

definition print_string :: "bytes option \<Rightarrow> bytes" where
  "print_string s = (case s of Some t \<Rightarrow> t | None \<Rightarrow> ''(null)'')"

text \<open>\<^verbatim>\<open>%zu\<close> of an \<^verbatim>\<open>off_t\<close>: the value modulo \<open>2 ^ 64\<close>.\<close>

definition print_size :: "int \<Rightarrow> bytes" where
  "print_size n = show_nat (nat (n mod 2 ^ 64))"

definition file_header :: "ResolvedPath \<Rightarrow> bytes \<Rightarrow> bytes \<Rightarrow> bytes" where
  "file_header rp time mod_time =
     ''HTTP/1.0 200 OK'' @ CRLF @
     ''Date: '' @ time @ CRLF @
     ''Server: '' @ SERVER_VERSION @ CRLF @
     ''Last-Modified: '' @ mod_time @ CRLF @
     ''Content-Type: '' @ print_string (mime_type rp) @ CRLF @
     ''Content-Length: '' @ print_size (rp_file_size rp) @ CRLF @
     ''Connection: close'' @ CRLF @
     CRLF"

text \<open>\<^verbatim>\<open>while ((n = fread(buf, 1, sizeof buf, fp)) > 0) fwrite(buf, 1, n, out_stream);\<close>\<close>

definition stream_left :: "nat \<Rightarrow> world \<Rightarrow> nat" where
  "stream_left h w =
     (case w_streams w h of None \<Rightarrow> 0 | Some s \<Rightarrow> length (fi_data (s_file s)) - s_pos s)"

lemma c_mwrite_streams [world_simps]: "w_streams (c_mwrite i d w) = w_streams w"
  by (simp add: c_mwrite_def world_simps split: option.split)

lemma c_fread_left:
  "c_fread h n w = (d, w') \<Longrightarrow> d \<noteq> [] \<Longrightarrow> stream_left h w' < stream_left h w"
  by (auto simp: c_fread_def stream_left_def Let_def split: option.splits)

function copy_stream :: "nat \<Rightarrow> nat \<Rightarrow> world \<Rightarrow> world" where
  "copy_stream h out_stream w =
     (case c_fread h 8192 w of
        (d, w1) \<Rightarrow> if d = [] then w1 else copy_stream h out_stream (c_mwrite out_stream d w1))"
  by pat_completeness auto
termination
proof (relation "measure (\<lambda>(h, out_stream, w). stream_left h w)", goal_cases)
  case (2 h out_stream w d w1)
  then have "stream_left h w1 < stream_left h w"
    using c_fread_left [of h 8192 w d w1] by simp
  then show ?case by (simp add: stream_left_def world_simps)
qed simp

declare copy_stream.simps [simp del]

definition build_response_file ::
    "os \<Rightarrow> Client \<Rightarrow> ResolvedPath \<Rightarrow> Request \<Rightarrow> world \<Rightarrow> int \<times> Client \<times> world"
where
  "build_response_file sys c rp req w =
     (if check_resolve_args (Some c) (Some rp) (Some req) \<noteq> 0 then (-1, c\<lparr>resp_val := RESP_500\<rparr>, w)
      else
        case os_gmtime sys (last_mod rp) of
          None \<Rightarrow> (-1, c\<lparr>resp_val := RESP_500\<rparr>, w)
        | Some mod_time_buf \<Rightarrow>
            (case c_open_memstream sys w of
               (None, w1) \<Rightarrow> (-1, c, w1)
             | (Some p, w1) \<Rightarrow>
                 let hdr = file_header rp (time_received req) mod_time_buf;
                     w2 = c_mwrite p hdr (fault_if (mime_type rp = None) NullString w1);
                     c1 = c\<lparr>out_buf := Some p, output_length := length hdr, header_len := length hdr\<rparr>
                 in if req_method req = HTTP_HEAD
                    then (0, c1\<lparr>body_len := nat (file_size c)\<rparr>, w2)
                    else
                      let w3 = (case rp_file_ptr rp of
                                  None \<Rightarrow> raise_fault BadStream w2
                                | Some h \<Rightarrow> copy_stream h p w2);
                          n = length (block_data w3 (Some p))
                      in (0, c1\<lparr>output_length := n, body_len := n - header_len c1\<rparr>, w3)))"

text \<open>The lines of the head, for the contract.\<close>

definition file_lines :: "ResolvedPath \<Rightarrow> bytes \<Rightarrow> bytes \<Rightarrow> bytes list" where
  "file_lines rp time mod_time =
     [''HTTP/1.0 200 OK'', ''Date: '' @ time, ''Server: '' @ SERVER_VERSION,
      ''Last-Modified: '' @ mod_time, ''Content-Type: '' @ print_string (mime_type rp),
      ''Content-Length: '' @ print_size (rp_file_size rp), ''Connection: close'']"

text \<open>
  What the builder relies on: the stream is open at its start, the size \<^verbatim>\<open>fstat\<close> reported is the
  number of bytes \<^verbatim>\<open>fread\<close> delivers, a MIME type is known, and no time or MIME type holds a CR.
\<close>

definition file_ready :: "os \<Rightarrow> ResolvedPath \<times> Request \<Rightarrow> world \<Rightarrow> bool" where
  "file_ready sys x w \<longleftrightarrow>
     (case x of (rp, req) \<Rightarrow>
        \<exists>h f m t. rp_file_ptr rp = Some h \<and> w_streams w h = Some \<lparr>s_file = f, s_pos = 0\<rparr> \<and>
          rp_file_size rp = int (length (fi_data f)) \<and> length (fi_data f) < 2 ^ 64 \<and>
          mime_type rp = Some m \<and> os_gmtime sys (last_mod rp) = Some t \<and>
          CR \<notin> set m \<and> CR \<notin> set t \<and> CR \<notin> set (time_received req))"

definition stream_data :: "world \<Rightarrow> ptr \<Rightarrow> bytes" where
  "stream_data w p =
     (case p of None \<Rightarrow> [] | Some h \<Rightarrow>
        (case w_streams w h of None \<Rightarrow> [] | Some s \<Rightarrow> drop (s_pos s) (fi_data (s_file s))))"

section \<open>The copy loop\<close>

lemma copy_stream_result:
  assumes "w_streams w h = Some \<lparr>s_file = f, s_pos = k\<rparr>"
    and "w_blocks w p = Some \<lparr>b_size = Suc (length e), b_data = e\<rparr>" and "k \<le> length (fi_data f)"
  shows "copy_stream h p w =
    w\<lparr>w_streams := (w_streams w)(h \<mapsto> \<lparr>s_file = f, s_pos = length (fi_data f)\<rparr>),
      w_blocks := (w_blocks w)(p \<mapsto> \<lparr>b_size = Suc (length (e @ drop k (fi_data f))),
         b_data = e @ drop k (fi_data f)\<rparr>)\<rparr>"
  using assms
proof (induction h p w arbitrary: k e rule: copy_stream.induct)
  case (1 h p w)
  let ?data = "fi_data f"
  define d where "d = take 8192 (drop k ?data)"
  let ?w1 = "w\<lparr>w_streams := (w_streams w)(h \<mapsto> \<lparr>s_file = f, s_pos = k + length d\<rparr>)\<rparr>"
  have r: "c_fread h 8192 w = (d, ?w1)"
    using "1.prems"(1) by (simp add: c_fread_def Let_def d_def)
  have whole: "d @ drop (k + length d) ?data = drop k ?data"
    using take_drop_length [of 8192 "drop k ?data"] by (simp only: d_def drop_drop add.commute)
  have kd: "k + length d \<le> length ?data" using "1.prems"(3) by (simp add: d_def)
  show ?case
  proof (cases "d = []")
    case True
    with "1.prems"(3) have "k = length ?data" by (simp add: d_def)
    moreover from "1.prems"(2)
    have "(w_blocks w)(p \<mapsto> \<lparr>b_size = Suc (length e), b_data = e\<rparr>) = w_blocks w" by auto
    ultimately show ?thesis using True by (subst copy_stream.simps) (simp add: r)
  next
    case False
    let ?w2 = "c_mwrite p d ?w1"
    have w2: "?w2 = ?w1\<lparr>w_blocks := (w_blocks w)(p \<mapsto> \<lparr>b_size = Suc (length (e @ d)), b_data = e @ d\<rparr>)\<rparr>"
      using "1.prems"(2) by (simp add: c_mwrite_def)
    have "copy_stream h p ?w2 =
      ?w2\<lparr>w_streams := (w_streams ?w2)(h \<mapsto> \<lparr>s_file = f, s_pos = length ?data\<rparr>),
        w_blocks := (w_blocks ?w2)(p \<mapsto> \<lparr>b_size = Suc (length ((e @ d) @ drop (k + length d) ?data)),
         b_data = (e @ d) @ drop (k + length d) ?data\<rparr>)\<rparr>"
      by (rule "1.IH" [OF r [symmetric] False]) (use kd in \<open>simp_all add: w2\<close>)
    then have "copy_stream h p ?w2 =
      w\<lparr>w_streams := (w_streams w)(h \<mapsto> \<lparr>s_file = f, s_pos = length ?data\<rparr>),
        w_blocks := (w_blocks w)(p \<mapsto> \<lparr>b_size = Suc (length (e @ drop k ?data)),
         b_data = e @ drop k ?data\<rparr>)\<rparr>"
      unfolding append_assoc whole by (simp add: w2)
    with False show ?thesis by (subst copy_stream.simps) (simp add: r)
  qed
qed

section \<open>The builder\<close>

lemma file_header_lines: "file_header rp t m = crlf_lines (file_lines rp t m) @ CRLF"
  by (simp add: file_header_def file_lines_def)

lemma c_open_memstream_eq:
  "c_open_memstream sys w =
     (if os_alloc sys (w_next w)
      then (Some (w_next w), w\<lparr>w_next := Suc (w_next w),
             w_blocks := (w_blocks w)(w_next w \<mapsto> \<lparr>b_size = 1, b_data = []\<rparr>)\<rparr>)
      else (None, w\<lparr>w_next := Suc (w_next w)\<rparr>))"
  by (simp add: c_open_memstream_def c_malloc_def Let_def)

text \<open>The result when the stream is ready and memory is there, for both methods.\<close>

lemma build_response_file_ok:
  fixes req :: Request
  assumes h: "rp_file_ptr rp = Some h" "w_streams w h = Some \<lparr>s_file = f, s_pos = 0\<rparr>"
    and m: "mime_type rp = Some m" and t: "os_gmtime sys (last_mod rp) = Some t"
    and a: "os_alloc sys (w_next w)"
  defines "hdr \<equiv> file_header rp (time_received req) t"
  defines "sent \<equiv> (if req_method req = HTTP_HEAD then [] else fi_data f)"
  shows "build_response_file sys c rp req w =
    (0, c\<lparr>out_buf := Some (w_next w), output_length := length (hdr @ sent),
          header_len := length hdr,
          body_len := (if req_method req = HTTP_HEAD then nat (file_size c) else length (fi_data f))\<rparr>,
     w\<lparr>w_next := Suc (w_next w),
       w_blocks := (w_blocks w)(w_next w \<mapsto> \<lparr>b_size = Suc (length (hdr @ sent)), b_data = hdr @ sent\<rparr>),
       w_streams := (if req_method req = HTTP_HEAD then w_streams w
          else (w_streams w)(h \<mapsto> \<lparr>s_file = f, s_pos = length (fi_data f)\<rparr>))\<rparr>)"
proof -
  let ?w2 = "w\<lparr>w_next := Suc (w_next w),
      w_blocks := (w_blocks w)(w_next w \<mapsto> \<lparr>b_size = Suc (length hdr), b_data = hdr\<rparr>)\<rparr>"
  have c: "copy_stream h (w_next w) ?w2 =
      ?w2\<lparr>w_streams := (w_streams w)(h \<mapsto> \<lparr>s_file = f, s_pos = length (fi_data f)\<rparr>),
        w_blocks := (w_blocks w)(w_next w \<mapsto> \<lparr>b_size = Suc (length (hdr @ fi_data f)),
          b_data = hdr @ fi_data f\<rparr>)\<rparr>"
    using copy_stream_result [of ?w2 h f 0 "w_next w" hdr] h by simp
  show ?thesis
    by (simp add: build_response_file_def check_resolve_args_def c_open_memstream_eq a t m h c
        c_mwrite_def block_data_def Let_def flip: hdr_def) (simp add: sent_def)
qed

lemma build_response_file_rc:
  "build_response_file sys c rp req w = (rc, c', w') \<Longrightarrow> rc = 0 \<Longrightarrow> os_alloc sys (w_next w)"
  by (auto simp: build_response_file_def c_open_memstream_eq split: option.splits if_splits)

lemma build_response_file_frame:
  "build_response_file sys c rp req w = (rc, c', w') \<Longrightarrow> conn_part c' = conn_part c"
  by (auto simp: build_response_file_def conn_part_def Let_def split: option.splits if_splits prod.splits)

lemma file_lines_plain:
  assumes "CR \<notin> set t" "CR \<notin> set m" "CR \<notin> set time" "mime_type rp = Some m"
    and "l \<in> set (file_lines rp time t)"
  shows "plain_line l"
  using assms
  by (auto simp: file_lines_def plain_line_def SERVER_VERSION_def print_string_def print_size_def)

lemma file_lines_length:
  "0 \<le> n \<Longrightarrow> n < 2 ^ 64 \<Longrightarrow> rp_file_size rp = n \<Longrightarrow>
     header_value ''Content-Length: '' (file_lines rp time t) = Some (show_nat (nat n))"
  by (simp add: file_lines_def print_size_def)

text \<open>The builder meets its contract; each law is a lemma of its own.\<close>

lemma file_readyE:
  assumes "file_ready sys (rp, req) w"
  obtains h f m t where "rp_file_ptr rp = Some h" "w_streams w h = Some \<lparr>s_file = f, s_pos = 0\<rparr>"
    "mime_type rp = Some m" "os_gmtime sys (last_mod rp) = Some t"
    "rp_file_size rp = int (length (fi_data f))" "length (fi_data f) < 2 ^ 64"
    "CR \<notin> set m" "CR \<notin> set t" "CR \<notin> set (time_received req)"
  using assms by (auto simp: file_ready_def)

lemma build_response_file_stages:
  assumes "file_ready sys (rp, req) w" "build_response_file sys c rp req w = (0, c', w')"
  shows "staged w' c' (crlf_lines (file_lines rp (time_received req) (the (os_gmtime sys (last_mod rp))))
           @ CRLF @ (if req_method req = HTTP_HEAD then [] else stream_data w (rp_file_ptr rp)))"
    and "header_len c' =
           length (crlf_lines (file_lines rp (time_received req) (the (os_gmtime sys (last_mod rp))))) + 2"
proof -
  from assms(1) obtain h f m t where r: "rp_file_ptr rp = Some h"
      "w_streams w h = Some \<lparr>s_file = f, s_pos = 0\<rparr>" "mime_type rp = Some m"
      "os_gmtime sys (last_mod rp) = Some t" by (rule file_readyE)
  from assms(2) have a: "os_alloc sys (w_next w)" by (rule build_response_file_rc) simp
  define d where "d = file_header rp (time_received req) t @
      (if req_method req = HTTP_HEAD then [] else fi_data f)"
  note e = build_response_file_ok [OF r a, where req = req and c = c, folded d_def]
  have "staged w' c' d"
    using assms(2) unfolding e by (intro stagedI [of _ "w_next w"]) auto
  moreover have "header_len c' = length (file_header rp (time_received req) t)"
    using assms(2) unfolding e by auto
  moreover have "stream_data w (rp_file_ptr rp) = fi_data f" by (simp add: stream_data_def r)
  ultimately show "staged w' c' (crlf_lines (file_lines rp (time_received req) (the (os_gmtime sys (last_mod rp))))
           @ CRLF @ (if req_method req = HTTP_HEAD then [] else stream_data w (rp_file_ptr rp)))"
    and "header_len c' =
           length (crlf_lines (file_lines rp (time_received req) (the (os_gmtime sys (last_mod rp))))) + 2"
    by (simp_all add: d_def r(4) file_header_lines split: if_splits)
qed

lemma file_head_ready:
  assumes "file_ready sys (rp, req) w"
  defines "ls \<equiv> file_lines rp (time_received req) (the (os_gmtime sys (last_mod rp)))"
  shows "l \<in> set ls \<Longrightarrow> plain_line l"
    and "header_value ''Content-Length: '' ls = Some (show_nat (length (stream_data w (rp_file_ptr rp))))"
proof -
  from assms(1) obtain h f m t where r: "rp_file_ptr rp = Some h"
      "w_streams w h = Some \<lparr>s_file = f, s_pos = 0\<rparr>" "mime_type rp = Some m"
      "os_gmtime sys (last_mod rp) = Some t" "rp_file_size rp = int (length (fi_data f))"
      "length (fi_data f) < 2 ^ 64" "CR \<notin> set m" "CR \<notin> set t" "CR \<notin> set (time_received req)"
    by (rule file_readyE)
  show "l \<in> set ls \<Longrightarrow> plain_line l"
    unfolding ls_def r(4) option.sel by (rule file_lines_plain [OF r(8,7,9,3)])
  have "int (length (fi_data f)) < 2 ^ 64" using r(6) by simp
  then show "header_value ''Content-Length: '' ls = Some (show_nat (length (stream_data w (rp_file_ptr rp))))"
    unfolding ls_def using file_lines_length [OF _ _ r(5)] by (simp add: stream_data_def r(1,2))
qed

interpretation fileb: response_builder
  "\<lambda>sys c x w. build_response_file sys c (fst x) (snd x) w"
  "\<lambda>sys c x w. file_ready sys x w"
  "\<lambda>sys c x w. file_lines (fst x) (time_received (snd x)) (the (os_gmtime sys (last_mod (fst x))))"
  "\<lambda>sys c x w. stream_data w (rp_file_ptr (fst x))"
  "\<lambda>sys c x w. if req_method (snd x) = HTTP_HEAD then [] else stream_data w (rp_file_ptr (fst x))"
proof (unfold_locales, goal_cases)
  case (1 sys c x w c' w')
  then show ?case using build_response_file_stages(1) by (metis prod.collapse)
next
  case (2 sys c x w c' w')
  then show ?case using build_response_file_stages(2) by (metis prod.collapse)
next
  case (3 sys c x w l)
  then show ?case using file_head_ready(1) by (metis prod.collapse)
next
  case (4 sys c x w)
  then show ?case using file_head_ready(2) by (metis prod.collapse)
next
  case (5 sys c x w rc c' w')
  then show ?case by (rule build_response_file_frame)
qed

section \<open>Properties\<close>

text \<open>
  The copy loop returns and delivers the rest of the file exactly: for an open stream at
  any position and a memory stream holding \<open>e\<close>, the memory stream ends up with \<open>e\<close> followed by
  all the remaining bytes, in order, the file stream stands at its end, and nothing else
  changed.
\<close>

theorem copy_stream_exact:
  assumes "w_streams w h = Some \<lparr>s_file = f, s_pos = k\<rparr>"
    and "w_blocks w p = Some \<lparr>b_size = Suc (length e), b_data = e\<rparr>" and "k \<le> length (fi_data f)"
  shows "copy_stream h p w =
    w\<lparr>w_streams := (w_streams w)(h \<mapsto> \<lparr>s_file = f, s_pos = length (fi_data f)\<rparr>),
      w_blocks := (w_blocks w)(p \<mapsto> \<lparr>b_size = Suc (length (e @ drop k (fi_data f))),
         b_data = e @ drop k (fi_data f)\<rparr>)\<rparr>"
  using assms by (rule copy_stream_result)

text \<open>A world with one open stream, for examples.\<close>

definition sample_world :: "file_info \<Rightarrow> world" where
  "sample_world f =
     empty_world\<lparr>w_next := 2, w_streams := [0 \<mapsto> \<lparr>s_file = f, s_pos = 0\<rparr>],
       w_blocks := [1 \<mapsto> \<lparr>b_size = 1, b_data = []\<rparr>]\<rparr>"

theorem copy_stream_exact_witness:
  "block_data (copy_stream 0 1 (sample_world sample_file)) (Some 1) = ''hello''"
  using copy_stream_exact [of "sample_world sample_file" 0 sample_file 0 1 "[]"]
  by (simp add: sample_world_def sample_file_def block_data_def)

text \<open>
  C24: a \<^verbatim>\<open>GET\<close> for a file: when the builder returns 0, a peer that reads the staged bytes line
  by line up to the empty line gets a head whose first line says 200 and whose
  \<^verbatim>\<open>Content-Length\<close>, read as a number, is the length of what follows, and what follows is the
  content of the file.
\<close>

theorem file_response_framed:
  assumes "file_ready sys (rp, req) w" "build_response_file sys c rp req w = (0, c', w')"
    and "req_method req \<noteq> HTTP_HEAD" "staged w' c' d"
  shows "\<exists>ls. read_head d = Some (ls, stream_data w (rp_file_ptr rp)) \<and> hd ls = ''HTTP/1.0 200 OK'' \<and>
     map_option read_nat (header_value ''Content-Length: '' ls) = Some (length (stream_data w (rp_file_ptr rp)))"
proof -
  have p: "file_ready sys (rp, req) w" "build_response_file sys c (fst (rp, req)) (snd (rp, req)) w = (0, c', w')"
    using assms(1,2) by simp_all
  show ?thesis
    using fileb.received [OF p assms(4)] fileb.announced_length [OF p(1)] assms(3)
    by (auto simp: file_lines_def)
qed

definition sample_rp :: ResolvedPath where
  "sample_rp = zero_ResolvedPath\<lparr>rp_file_ptr := Some 0, rp_file_size := 5, mime_type := Some ''text/plain'', path_type := IS_FILE\<rparr>"

theorem file_response_framed_witness:
  "\<exists>c' w' d ls. build_response_file sample_os sample_Client sample_rp (sample_request ''/a.txt'') (sample_world sample_file) =
      (0, c', w') \<and> staged w' c' d \<and> read_head d = Some (ls, ''hello'')"
proof -
  have r: "file_ready sample_os (sample_rp, sample_request ''/a.txt'') (sample_world sample_file)"
    by (simp add: file_ready_def sample_rp_def sample_world_def sample_file_def)
  have s: "stream_data (sample_world sample_file) (rp_file_ptr sample_rp) = ''hello''"
    by (simp add: stream_data_def sample_rp_def sample_world_def sample_file_def)
  have "\<exists>c' w'. build_response_file sample_os sample_Client sample_rp (sample_request ''/a.txt'') (sample_world sample_file) = (0, c', w')"
    using build_response_file_ok [where rp = sample_rp and h = 0 and w = "sample_world sample_file" and f = sample_file
        and m = "''text/plain''" and sys = sample_os and t = sample_time and c = sample_Client and req = "sample_request ''/a.txt''"]
    by (simp add: sample_rp_def sample_world_def)
  then obtain c' w' where b: "build_response_file sample_os sample_Client sample_rp (sample_request ''/a.txt'') (sample_world sample_file) = (0, c', w')"
    by blast
  from build_response_file_stages(1) [OF r b] file_response_framed [OF r b] b show ?thesis
    unfolding s by fastforce
qed

end
