(* ===== verification/Dir_Response.thy ===== *)
theory Dir_Response
  imports File_Response
begin

text \<open>
  The directory branch of \<^verbatim>\<open>response/build_okay_response.c\<close>: an HTML list of the entries that
  do not start with a dot.  The list is written to a first memory stream, whose buffer is
  released on every path; the head announces the length of list and frame.
\<close>

section \<open>Definitions\<close>

definition START_HTML_STRING :: bytes where
  "START_HTML_STRING = ''<html><body><h1>Directory:</h1><ul>''"

definition END_HTML_STRING :: bytes where
  "END_HTML_STRING = ''</ul></body></html>''"

definition EMPTY_DIR_HTML :: bytes where
  "EMPTY_DIR_HTML = ''<h2>Empty directory</h2>''"

definition HTML_STRING_LEN :: nat where
  "HTML_STRING_LEN = length START_HTML_STRING + length END_HTML_STRING"

definition DIR_ICON :: bytes where
  "DIR_ICON =
     ''<svg xmlns=\"http://www.w3.org/2000/svg\" width=\"16\" height=\"16\" fill=\"currentC'' @
     ''olor\" class=\"bi bi-folder\" viewBox=\"0 0 16 16\"><path d=\"M.54 3.87.5 3a2 2 0 0 '' @
     ''1 2-2h3.672a2 2 0 0 1 1.414.586l.828.828A2 2 0 0 0 9.828 3h3.982a2 2 0 0 1 1.992 2.1'' @
     ''81l-.637 7A2 2 0 0 1 13.174 14H2.826a2 2 0 0 1-1.991-1.819l-.637-7a2 2 0 0 1 .342-1.'' @
     ''31zM2.19 4a1 1 0 0 0-.996 1.09l.637 7a1 1 0 0 0 .995.91h10.348a1 1 0 0 0 .995-.91l.6'' @
     ''37-7A1 1 0 0 0 13.81 4zm4.69-1.707A1 1 0 0 0 6.172 2H2.5a1 1 0 0 0-1 .981l.006.139q.'' @
     ''323-.119.684-.12h5.396z\"/></svg>''"

definition FILE_ICON :: bytes where
  "FILE_ICON =
     ''<svg xmlns=\"http://www.w3.org/2000/svg\" width=\"16\" height=\"16\" fill=\"currentC'' @
     ''olor\" class=\"bi bi-file-earmark\" viewBox=\"0 0 16 16\"><path d=\"M14 4.5V14a2 2 0'' @
     '' 0 1-2 2H4a2 2 0 0 1-2-2V2a2 2 0 0 1 2-2h5.5zm-3 0A1.5 1.5 0 0 1 9.5 3V1H4a1 1 0 0 0'' @
     ''-1 1v12a1 1 0 0 0 1 1h8a1 1 0 0 0 1-1V4.5z\"/></svg>''"

text \<open>One entry of the loop over \<^verbatim>\<open>readdir\<close>; an entry that starts with a dot is skipped.\<close>

definition dir_item :: "bytes \<Rightarrow> dirent \<Rightarrow> bytes" where
  "dir_item dir_path e =
     (if d_name e \<noteq> [] \<and> hd (d_name e) = CHR ''.'' then []
      else ''<li>'' @ (if d_is_dir e then DIR_ICON else FILE_ICON) @ '' <a href=\"/'' @ dir_path @ ''/'' @
           d_name e @ ''\">'' @ d_name e @ ''</a></li>'')"

fun dir_items :: "bytes \<Rightarrow> dirent list \<Rightarrow> bytes" where
  "dir_items dir_path [] = []"
| "dir_items dir_path (e # es) = dir_item dir_path e @ dir_items dir_path es"

definition dir_header :: "bytes \<Rightarrow> bytes \<Rightarrow> nat \<Rightarrow> bytes" where
  "dir_header time mod_time local_body_len =
     ''HTTP/1.0 200 OK'' @ CRLF @
     ''Date: '' @ time @ CRLF @
     ''Server: '' @ SERVER_VERSION @ CRLF @
     ''Last-Modified: '' @ mod_time @ CRLF @
     ''Content-Type: text/html'' @ CRLF @
     ''Content-Length: '' @ show_nat local_body_len @ CRLF @
     ''Connection: close'' @ CRLF @
     CRLF"

definition build_response_dir ::
    "os \<Rightarrow> Client \<Rightarrow> ResolvedPath \<Rightarrow> Request \<Rightarrow> world \<Rightarrow> int \<times> Client \<times> world"
where
  "build_response_dir sys c rp req w =
     (if check_resolve_args (Some c) (Some rp) (Some req) \<noteq> 0 then (-1, c\<lparr>resp_val := RESP_500\<rparr>, w)
      else if path_type rp \<noteq> IS_DIR then (-1, c\<lparr>resp_val := RESP_500\<rparr>, w)
      else
        let dir_path = drop 1 (req_path req)
        in case os_opendir sys dir_path of
             None \<Rightarrow> (-1, c\<lparr>resp_val := RESP_500\<rparr>, w)
           | Some entries \<Rightarrow>
               (case c_open_memstream sys w of
                  (None, w1) \<Rightarrow> (-1, c\<lparr>resp_val := RESP_500\<rparr>, w1)
                | (Some dl, w1) \<Rightarrow>
                    let dir_list = dir_items dir_path entries;
                        w2 = c_mwrite dl dir_list w1
                    in case os_gmtime sys (last_mod rp) of
                         None \<Rightarrow> (-1, c\<lparr>resp_val := RESP_500\<rparr>, c_free (Some dl) w2)
                       | Some mod_time_buf \<Rightarrow>
                           (case c_open_memstream sys w2 of
                              (None, w3) \<Rightarrow> (-1, c\<lparr>resp_val := RESP_500\<rparr>, c_free (Some dl) w3)
                            | (Some p, w3) \<Rightarrow>
                                let local_body_len =
                                      (if 0 < length dir_list then length dir_list + HTML_STRING_LEN
                                       else HTML_STRING_LEN + length EMPTY_DIR_HTML);
                                    hdr = dir_header (time_received req) mod_time_buf local_body_len;
                                    w4 = c_mwrite p hdr w3;
                                    c1 = c\<lparr>out_buf := Some p, output_length := length hdr, header_len := length hdr\<rparr>
                                in if req_method req = HTTP_HEAD then (0, c1, c_free (Some dl) w4)
                                   else
                                     let w5 = c_mwrite p START_HTML_STRING w4;
                                         w6 = c_mwrite p (if 0 < length dir_list then dir_list else EMPTY_DIR_HTML) w5;
                                         w7 = c_mwrite p END_HTML_STRING w6;
                                         n = length (block_data w7 (Some p))
                                     in (0, c1\<lparr>output_length := n, body_len := n - header_len c1\<rparr>,
                                         c_free (Some dl) w7))))"

text \<open>The page and the lines of the head, for the contract.\<close>

definition dir_page :: "bytes \<Rightarrow> dirent list \<Rightarrow> bytes" where
  "dir_page dir_path es =
     START_HTML_STRING @
     (if dir_items dir_path es = [] then EMPTY_DIR_HTML else dir_items dir_path es) @
     END_HTML_STRING"

definition dir_lines :: "bytes \<Rightarrow> bytes \<Rightarrow> nat \<Rightarrow> bytes list" where
  "dir_lines time mod_time n =
     [''HTTP/1.0 200 OK'', ''Date: '' @ time, ''Server: '' @ SERVER_VERSION,
      ''Last-Modified: '' @ mod_time, ''Content-Type: text/html'',
      ''Content-Length: '' @ show_nat n, ''Connection: close'']"

definition dir_ready :: "os \<Rightarrow> ResolvedPath \<times> Request \<Rightarrow> bool" where
  "dir_ready sys x \<longleftrightarrow>
     (case x of (rp, req) \<Rightarrow>
        \<exists>es t. path_type rp = IS_DIR \<and> os_opendir sys (drop 1 (req_path req)) = Some es \<and>
          os_gmtime sys (last_mod rp) = Some t \<and> CR \<notin> set t \<and> CR \<notin> set (time_received req))"

definition the_page :: "os \<Rightarrow> Request \<Rightarrow> bytes" where
  "the_page sys req = dir_page (drop 1 (req_path req)) (the (os_opendir sys (drop 1 (req_path req))))"

section \<open>Lemmas\<close>

lemma dir_header_lines: "dir_header t m n = crlf_lines (dir_lines t m n) @ CRLF"
  by (simp add: dir_header_def dir_lines_def)

lemma dir_page_length:
  "length (dir_page p es) =
     (if 0 < length (dir_items p es) then length (dir_items p es) + HTML_STRING_LEN
      else HTML_STRING_LEN + length EMPTY_DIR_HTML)"
  by (simp add: dir_page_def HTML_STRING_LEN_def)

text \<open>Exactly the entries that do not start with a dot are listed, in the order of the directory.\<close>

lemma dir_items_filter:
  "dir_items p es = concat (map (dir_item p) (filter (\<lambda>e. d_name e = [] \<or> hd (d_name e) \<noteq> CHR ''.'') es))"
  by (induction es) (auto simp: dir_item_def)

lemma build_response_dir_ok:
  fixes req :: Request
  assumes "path_type rp = IS_DIR" "os_opendir sys (drop 1 (req_path req)) = Some es"
    and "os_gmtime sys (last_mod rp) = Some t"
    and "os_alloc sys (w_next w)" "os_alloc sys (Suc (w_next w))"
    and ok: "world_ok w"
  defines "page \<equiv> dir_page (drop 1 (req_path req)) es"
  defines "hdr \<equiv> dir_header (time_received req) t (length page)"
  defines "d \<equiv> hdr @ (if req_method req = HTTP_HEAD then [] else page)"
  shows "build_response_dir sys c rp req w =
    (0, c\<lparr>out_buf := Some (Suc (w_next w)), output_length := length d, header_len := length hdr,
          body_len := (if req_method req = HTTP_HEAD then body_len c else length page)\<rparr>,
     w\<lparr>w_next := Suc (Suc (w_next w)),
       w_blocks := (w_blocks w)(Suc (w_next w) \<mapsto> \<lparr>b_size = Suc (length d), b_data = d\<rparr>)\<rparr>)"
proof -
  have n: "w_blocks w (w_next w) = None" using ok by (simp add: world_ok_fresh)
  then have u: "(w_blocks w)(w_next w := None, Suc (w_next w) \<mapsto> b) = (w_blocks w)(Suc (w_next w) \<mapsto> b)" for b
    by (simp add: fun_upd_idem)
  have s: "f(Suc i := x, i := None) = f(i := None, Suc i := x)" for f :: "nat \<Rightarrow> block option" and i x
    by (simp add: fun_upd_twist)
  show ?thesis
    using assms(1-5) unfolding d_def hdr_def page_def
    by (simp add: build_response_dir_def check_resolve_args_def c_open_memstream_eq c_mwrite_def
        dir_page_length block_data_def c_free_def Let_def s u)
       (simp add: dir_page_def HTML_STRING_LEN_def ac_simps)
qed

lemma build_response_dir_rc:
  assumes "build_response_dir sys c rp req w = (0, c', w')"
  shows "os_alloc sys (w_next w)" and "os_alloc sys (Suc (w_next w))"
  using assms
  by (auto simp: build_response_dir_def check_resolve_args_def c_open_memstream_eq c_mwrite_def Let_def
      split: option.splits if_splits)

lemma build_response_dir_frame:
  "build_response_dir sys c rp req w = (rc, c', w') \<Longrightarrow> conn_part c' = conn_part c"
  by (auto simp: build_response_dir_def conn_part_def Let_def split: option.splits if_splits prod.splits)

lemma dir_readyE:
  assumes "dir_ready sys (rp, req)"
  obtains es t where "path_type rp = IS_DIR" "os_opendir sys (drop 1 (req_path req)) = Some es"
    "os_gmtime sys (last_mod rp) = Some t" "CR \<notin> set t" "CR \<notin> set (time_received req)"
  using assms by (auto simp: dir_ready_def)

abbreviation the_dir_lines :: "os \<Rightarrow> ResolvedPath \<Rightarrow> Request \<Rightarrow> bytes list" where
  "the_dir_lines sys rp req \<equiv>
     dir_lines (time_received req) (the (os_gmtime sys (last_mod rp))) (length (the_page sys req))"

lemma build_response_dir_stages:
  assumes "dir_ready sys (rp, req)" "world_ok w" "build_response_dir sys c rp req w = (0, c', w')"
  shows "staged w' c' (crlf_lines (the_dir_lines sys rp req) @ CRLF @
           (if req_method req = HTTP_HEAD then [] else the_page sys req))"
    and "header_len c' = length (crlf_lines (the_dir_lines sys rp req)) + 2"
proof -
  from assms(1) obtain es t where r: "path_type rp = IS_DIR"
      "os_opendir sys (drop 1 (req_path req)) = Some es" "os_gmtime sys (last_mod rp) = Some t"
    by (rule dir_readyE)
  have pg: "dir_page (drop 1 (req_path req)) es = the_page sys req"
    unfolding the_page_def r(2) by simp
  note e = build_response_dir_ok [OF r build_response_dir_rc [OF assms(3)] assms(2), where c = c,
      unfolded pg]
  define d where "d = dir_header (time_received req) t (length (the_page sys req)) @
      (if req_method req = HTTP_HEAD then [] else the_page sys req)"
  have "staged w' c' d"
    using assms(3) unfolding e [folded d_def] by (intro stagedI [of _ "Suc (w_next w)"]) auto
  moreover have "header_len c' = length (dir_header (time_received req) t (length (the_page sys req)))"
    using assms(3) unfolding e by auto
  ultimately show "staged w' c' (crlf_lines (the_dir_lines sys rp req) @ CRLF @
           (if req_method req = HTTP_HEAD then [] else the_page sys req))"
    and "header_len c' = length (crlf_lines (the_dir_lines sys rp req)) + 2"
    by (simp_all add: d_def r(3) dir_header_lines split: if_splits)
qed

lemma dir_lines_plain:
  "CR \<notin> set t \<Longrightarrow> CR \<notin> set m \<Longrightarrow> l \<in> set (dir_lines t m n) \<Longrightarrow> plain_line l"
  by (auto simp: dir_lines_def plain_line_def SERVER_VERSION_def)

lemma dir_lines_length: "header_value ''Content-Length: '' (dir_lines t m n) = Some (show_nat n)"
  by (simp add: dir_lines_def)

interpretation dirb: response_builder
  "\<lambda>sys c x w. build_response_dir sys c (fst x) (snd x) w"
  "\<lambda>sys c x w. dir_ready sys x \<and> world_ok w"
  "\<lambda>sys c x w. the_dir_lines sys (fst x) (snd x)"
  "\<lambda>sys c x w. the_page sys (snd x)"
  "\<lambda>sys c x w. if req_method (snd x) = HTTP_HEAD then [] else the_page sys (snd x)"
proof (unfold_locales, goal_cases)
  case (1 sys c x w c' w')
  then show ?case using build_response_dir_stages(1) by (metis prod.collapse)
next
  case (2 sys c x w c' w')
  then show ?case using build_response_dir_stages(2) by (metis prod.collapse)
next
  case (3 sys c x w l)
  then have "dir_ready sys (fst x, snd x)" by simp
  then obtain t where "os_gmtime sys (last_mod (fst x)) = Some t" "CR \<notin> set t"
      "CR \<notin> set (time_received (snd x))" by (rule dir_readyE)
  with 3(2) show ?case using dir_lines_plain [of "time_received (snd x)" t] by simp
next
  case (4 sys c x w)
  show ?case by (rule dir_lines_length)
next
  case (5 sys c x w rc c' w')
  then show ?case by (rule build_response_dir_frame)
qed

section \<open>Properties\<close>

text \<open>
  C25: a \<^verbatim>\<open>GET\<close> for a directory listing: the staged bytes are a head and a page, the announced
  length is the length of the page, and the items of the page are those of the entries of the
  directory whose name does not start with a dot, each once and in the order \<^verbatim>\<open>readdir\<close> gave
  them.
\<close>

theorem dir_response_framed:
  assumes "path_type rp = IS_DIR" "os_opendir sys (drop 1 (req_path req)) = Some es"
    and "os_gmtime sys (last_mod rp) = Some t" "CR \<notin> set t" "CR \<notin> set (time_received req)" "world_ok w"
    and "build_response_dir sys c rp req w = (0, c', w')" "req_method req \<noteq> HTTP_HEAD" "staged w' c' d"
  shows "\<exists>ls items. read_head d = Some (ls, START_HTML_STRING @ items @ END_HTML_STRING) \<and>
     map_option read_nat (header_value ''Content-Length: '' ls) =
       Some (length (START_HTML_STRING @ items @ END_HTML_STRING)) \<and>
     (let shown = filter (\<lambda>e. d_name e = [] \<or> hd (d_name e) \<noteq> CHR ''.'') es
      in items = (if shown = [] then EMPTY_DIR_HTML else concat (map (dir_item (drop 1 (req_path req))) shown)))"
proof -
  let ?p = "drop 1 (req_path req)"
  define shown where "shown = filter (\<lambda>e. d_name e = [] \<or> hd (d_name e) \<noteq> CHR ''.'') es"
  define items where "items = (if shown = [] then EMPTY_DIR_HTML else concat (map (dir_item ?p) shown))"
  have p: "dir_ready sys (rp, req) \<and> world_ok w"
    "build_response_dir sys c (fst (rp, req)) (snd (rp, req)) w = (0, c', w')"
    using assms(1-7) by (auto simp: dir_ready_def)
  have "dir_item ?p e \<noteq> []" if "e \<in> set shown" for e using that by (auto simp: shown_def dir_item_def)
  then have "(dir_items ?p es = []) = (shown = [])"
    unfolding dir_items_filter shown_def [symmetric] by (cases shown) auto
  then have pg: "the_page sys req = START_HTML_STRING @ items @ END_HTML_STRING"
    using assms(2) dir_items_filter [of ?p es] by (simp add: the_page_def dir_page_def items_def shown_def)
  have "read_head d = Some (the_dir_lines sys rp req, the_page sys req)"
    using dirb.received [OF p assms(9)] assms(8) by simp
  moreover have "map_option read_nat (header_value ''Content-Length: '' (the_dir_lines sys rp req)) =
      Some (length (the_page sys req))"
    using dirb.announced_length [where x = "(rp, req)", OF p(1)] by simp
  ultimately show ?thesis
    unfolding pg by (intro exI [of _ "the_dir_lines sys rp req"] exI [of _ items])
      (simp add: Let_def pg flip: shown_def items_def)
qed

definition sample_dir_rp :: ResolvedPath where
  "sample_dir_rp = zero_ResolvedPath\<lparr>path_type := IS_DIR\<rparr>"

theorem dir_response_framed_witness:
  "\<exists>c' w' d ls items. build_response_dir sample_os sample_Client sample_dir_rp (sample_request ''/e'') empty_world =
      (0, c', w') \<and> staged w' c' d \<and> read_head d = Some (ls, START_HTML_STRING @ items @ END_HTML_STRING) \<and>
      items = dir_item ''e'' \<lparr>d_name = ''f'', d_is_dir = False\<rparr>"
proof -
  let ?req = "sample_request ''/e''"
  have r: "path_type sample_dir_rp = IS_DIR" "os_opendir sample_os (drop 1 (req_path ?req)) = Some [\<lparr>d_name = ''f'', d_is_dir = False\<rparr>]"
    "os_gmtime sample_os (last_mod sample_dir_rp) = Some sample_time" "CR \<notin> set sample_time"
    "CR \<notin> set (time_received ?req)"
    by (simp_all add: sample_dir_rp_def sample_os_def)
  obtain c' w' where b: "build_response_dir sample_os sample_Client sample_dir_rp ?req empty_world = (0, c', w')"
    using build_response_dir_ok [OF r(1-3), of empty_world sample_Client] by simp
  have "dir_ready sample_os (sample_dir_rp, ?req)" using r by (auto simp: dir_ready_def)
  then obtain d where d: "staged w' c' d" using build_response_dir_stages(1) [OF _ world_ok_empty b] by blast
  have "req_method ?req \<noteq> HTTP_HEAD" by simp
  from dir_response_framed [OF r world_ok_empty b this d] b d show ?thesis
    by (auto simp: Let_def)
qed

end
