(* ===== verification/Cgi_Response.thy ===== *)
theory Cgi_Response
  imports Dir_Response
begin

text \<open>
  The CGI branch of \<^verbatim>\<open>response/build_okay_response.c\<close>: the server forks, the child runs the script
  with its output in a pipe, and the parent reads the pipe to its end into a buffer that doubles
  when it is full.  The child itself is a parameter (\<open>os_cgi\<close>): a function of the program name
  and of the environment the server sets up.  The read loop is shown to end and to collect
  exactly the bytes of the pipe; the builder is shown to meet the contract \<open>response_builder\<close>,
  to close both ends of the pipe and to keep inside its header buffer.
\<close>

section \<open>Definitions\<close>

definition MAX_HEADER_BUF :: nat where "MAX_HEADER_BUF = 750"

fun method_to_string :: "http_method \<Rightarrow> bytes" where
  "method_to_string HTTP_GET = ''GET''"
| "method_to_string HTTP_POST = ''POST''"
| "method_to_string HTTP_HEAD = ''HEAD''"
| "method_to_string _ = ''UNKNOWN''"

fun version_to_string :: "http_version \<Rightarrow> bytes" where
  "version_to_string HTTP_1_0 = ''HTTP/1.0''"
| "version_to_string HTTP_1_1 = ''HTTP/1.1''"
| "version_to_string HTTP_VERSION_UNSUPPORTED = ''HTTP_UNSUPPORTED''"
| "version_to_string _ = ''HTTP_UNKNOWN''"

text \<open>What the child prepares before \<^verbatim>\<open>execvp\<close>: the program name and the environment.\<close>

definition cgi_script :: "Request \<Rightarrow> bytes" where
  "cgi_script req = CHR ''.'' # takeWhile (\<lambda>ch. ch \<noteq> CHR ''?'') (req_path req)"

definition cgi_env :: "Client \<Rightarrow> ResolvedPath \<Rightarrow> Request \<Rightarrow> (bytes \<times> bytes) list" where
  "cgi_env c rp req =
     [(''QUERY_STRING'', query_string rp),
      (''REQUEST_METHOD'', method_to_string (req_method req)),
      (''SCRIPT_NAME'', cgi_script req),
      (''SERVER_PROTOCOL'', version_to_string (req_version req)),
      (''GATEWAY_INTERFACE'', ''CGI/1.1''),
      (''REMOTE_ADDR'', client_addr c),
      (''SERVER_SOFTWARE'', SERVER_VERSION)]"

text \<open>The buffer doubles when it is full.\<close>

definition cgi_grow :: "os \<Rightarrow> nat \<Rightarrow> nat \<Rightarrow> nat \<Rightarrow> world \<Rightarrow> ptr \<times> nat \<times> world" where
  "cgi_grow sys cgi_response cgi_resp_len capacity w =
     (if cgi_resp_len = capacity
      then (case c_realloc sys (Some cgi_response) (capacity * 2) w of
              (tmp, w1) \<Rightarrow> (tmp, capacity * 2, w1))
      else (Some cgi_response, capacity, w))"

text \<open>
  The read loop: the buffer with its length and capacity, or \<open>None\<close> after a failure, with the
  buffer released.
\<close>

function cgi_read ::
    "os \<Rightarrow> nat \<Rightarrow> nat \<Rightarrow> nat \<Rightarrow> io_event list \<Rightarrow> world \<Rightarrow> (nat \<times> nat) option \<times> world"
where
  "cgi_read sys cgi_response cgi_resp_len capacity es w =
     (case cgi_grow sys cgi_response cgi_resp_len capacity w of
        (None, cap, w1) \<Rightarrow> (None, c_free (Some cgi_response) w1)
      | (Some buf, cap, w1) \<Rightarrow>
          (case io_read (Got []) (cap - cgi_resp_len) es of
             (Got d, es1) \<Rightarrow>
               if d \<noteq> []
               then cgi_read sys buf (cgi_resp_len + length d) cap es1 (c_memcpy buf cgi_resp_len d w1)
               else (Some (buf, cgi_resp_len), w1)
           | (Failed e, es1) \<Rightarrow>
               if e = EINTR then cgi_read sys buf cgi_resp_len cap es1 w1
               else (None, c_free (Some buf) w1)))"
  by pat_completeness auto
termination
proof (relation "measure (\<lambda>(sys, p, n, cap, es, w). io_weight es)", goal_cases)
  case 1
  show ?case by simp
next
  case 2
  then show ?case using io_read_weight [OF sym [OF 2(4)]] by simp
next
  case 3
  then show ?case using io_read_weight [OF sym [OF 3(4)]] by simp
qed

declare cgi_read.simps [simp del]

definition cgi_header :: "bytes \<Rightarrow> nat \<Rightarrow> bytes" where
  "cgi_header time cgi_resp_len =
     ''HTTP/1.0 200 OK'' @ CRLF @
     ''Date: '' @ time @ CRLF @
     ''Server: '' @ SERVER_VERSION @ CRLF @
     ''Content-Type: text/html'' @ CRLF @
     ''Content-Length: '' @ show_nat cgi_resp_len @ CRLF @
     ''Connection: close'' @ CRLF @
     CRLF"

text \<open>
  After \<^verbatim>\<open>waitpid\<close>: the head is formatted in an array, then head and output are copied to a new
  buffer.  \<^verbatim>\<open>header_len\<close> is the full length \<^verbatim>\<open>snprintf\<close> reports; reading that many bytes from the
  array is an overrun when it exceeds the array.
\<close>

definition cgi_assemble ::
    "os \<Rightarrow> Client \<Rightarrow> Request \<Rightarrow> nat \<Rightarrow> nat \<Rightarrow> world \<Rightarrow> int \<times> Client \<times> world"
where
  "cgi_assemble sys c req cgi_response cgi_resp_len w =
     (case snprintf MAX_HEADER_BUF (cgi_header (time_received req) cgi_resp_len) of
        (stored, hlen) \<Rightarrow>
          (case c_malloc sys (hlen + cgi_resp_len) w of
             (None, w1) \<Rightarrow>
               (-1, c\<lparr>out_buf := None, resp_val := RESP_500\<rparr>, c_free (Some cgi_response) w1)
           | (Some p, w1) \<Rightarrow>
               let w2 = fault_if (MAX_HEADER_BUF < hlen) StackOverrun w1;
                   w3 = c_memcpy p 0 (take hlen (stored @ [NUL])) w2;
                   w4 = c_memcpy p hlen (take cgi_resp_len (block_data w3 (Some cgi_response))) w3
               in (0, c\<lparr>out_buf := Some p, output_length := hlen + cgi_resp_len,
                        body_len := cgi_resp_len, header_len := hlen\<rparr>, w4)))"

text \<open>The parent from \<^verbatim>\<open>close(stdout_pipe[1])\<close> on.\<close>

definition cgi_collect ::
    "os \<Rightarrow> Client \<Rightarrow> Request \<Rightarrow> int \<Rightarrow> cgi_run \<Rightarrow> world \<Rightarrow> int \<times> Client \<times> world"
where
  "cgi_collect sys c req rfd run w =
     (case c_malloc sys 8192 w of
        (None, w1) \<Rightarrow> (-1, c\<lparr>resp_val := RESP_500\<rparr>, c_close rfd w1)
      | (Some buf, w1) \<Rightarrow>
          (case cgi_read sys buf 0 8192 (cgi_output run) w1 of
             (None, w2) \<Rightarrow> (-1, c\<lparr>resp_val := RESP_500\<rparr>, c_close rfd w2)
           | (Some (cgi_response, cgi_resp_len), w2) \<Rightarrow>
               let w3 = c_close rfd w2
               in if cgi_wait run = Exited 0
                  then cgi_assemble sys c req cgi_response cgi_resp_len w3
                  else (-1, c\<lparr>resp_val := RESP_500\<rparr>, c_free (Some cgi_response) w3)))"

definition c_pipe :: "int \<times> int \<Rightarrow> world \<Rightarrow> world" where
  "c_pipe fds w = w\<lparr>w_fds := (w_fds w)(fst fds := True, snd fds := True)\<rparr>"

definition build_response_cgi ::
    "os \<Rightarrow> flags \<Rightarrow> Client \<Rightarrow> ResolvedPath \<Rightarrow> Request \<Rightarrow> world \<Rightarrow> int \<times> Client \<times> world"
where
  "build_response_cgi sys app_flags c rp req w =
     (if check_resolve_args (Some c) (Some rp) (Some req) \<noteq> 0 then (-1, c\<lparr>resp_val := RESP_500\<rparr>, w)
      else if \<not> flag_set app_flags C_FLAG then (-1, c\<lparr>resp_val := RESP_501\<rparr>, w)
      else
        case os_pipe sys of
          None \<Rightarrow> (-1, c\<lparr>resp_val := RESP_500\<rparr>, w)
        | Some (rfd, wfd) \<Rightarrow>
            let w1 = c_pipe (rfd, wfd) w
            in if PATH_MAX < length (query_string rp) then (-1, c\<lparr>resp_val := RESP_414\<rparr>, w1)
               else
                 let run = os_cgi sys (cgi_script req) (cgi_env c rp req)
                 in if \<not> cgi_fork_ok run
                    then (-1, c\<lparr>resp_val := RESP_500\<rparr>, c_close wfd (c_close rfd w1))
                    else cgi_collect sys c req rfd run
                           (c_close wfd (fault_if (PATH_MAX < length (cgi_script req)) StackOverrun w1)))"

text \<open>
  What the pipe delivers: data up to end of file, interrupted calls repeated; \<open>None\<close> for a
  read that fails.  And the lines of the head.
\<close>

fun cgi_stream :: "io_event list \<Rightarrow> bytes option" where
  "cgi_stream [] = Some []"
| "cgi_stream (Data d # es) = map_option ((@) d) (cgi_stream es)"
| "cgi_stream (Eof # es) = Some []"
| "cgi_stream (Fail e # es) = (if e = EINTR then cgi_stream es else None)"

definition cgi_lines :: "bytes \<Rightarrow> nat \<Rightarrow> bytes list" where
  "cgi_lines time n =
     [''HTTP/1.0 200 OK'', ''Date: '' @ time, ''Server: '' @ SERVER_VERSION, ''Content-Type: text/html'',
      ''Content-Length: '' @ show_nat n, ''Connection: close'']"

section \<open>The read loop\<close>

lemma map_append_Nil [simp]: "map_option ((@) []) x = x"
  by (cases x) simp_all

lemma map_append_append: "map_option ((@) a) (map_option ((@) b) x) = map_option ((@) (a @ b)) x"
  by (cases x) simp_all

lemma io_read_stream:
  "io_read (Got []) n es = (r, es') \<Longrightarrow> 0 < n \<Longrightarrow>
     cgi_stream es = (case r of
        Got d \<Rightarrow> if d = [] then Some [] else map_option ((@) d) (cgi_stream es')
      | Failed e \<Rightarrow> if e = EINTR then cgi_stream es' else None)"
  by (induction "Got []" n es arbitrary: r es' rule: io_read.induct)
     (auto split: if_splits simp: map_append_append)

text \<open>A block that holds \<open>d\<close> and has room for \<open>cap\<close> bytes, all else being unchanged.\<close>

definition holds :: "nat \<Rightarrow> nat \<Rightarrow> bytes \<Rightarrow> world \<Rightarrow> bool" where
  "holds p cap d w \<longleftrightarrow> w_blocks w p = Some \<lparr>b_size = cap, b_data = d\<rparr> \<and> length d \<le> cap"

definition swapped :: "nat \<Rightarrow> nat \<Rightarrow> world \<Rightarrow> world \<Rightarrow> bool" where
  "swapped p q w w' \<longleftrightarrow>
     (\<forall>i. i \<noteq> p \<longrightarrow> i < w_next w \<longrightarrow> w_blocks w' i = w_blocks w i) \<and> w_next w \<le> w_next w' \<and>
     (q = p \<or> w_next w \<le> q \<and> w_blocks w' p = None) \<and>
     w_streams w' = w_streams w \<and> w_fds w' = w_fds w \<and> w_wire w' = w_wire w \<and>
     w_shut w' = w_shut w \<and> w_log w' = w_log w \<and> w_faults w' = w_faults w"

lemma swapped_refl [simp]: "swapped p p w w"
  by (simp add: swapped_def)

lemma swapped_trans:
  "swapped p q a b \<Longrightarrow> swapped q r b c \<Longrightarrow> p < w_next a \<Longrightarrow> swapped p r a c"
  unfolding swapped_def by (auto; metis less_le_trans not_le)

lemma c_memcpy_holds:
  assumes "holds p cap e w" "length e + length d \<le> cap"
  shows "holds p cap (e @ d) (c_memcpy p (length e) d w)" "swapped p p w (c_memcpy p (length e) d w)"
  using assms by (auto simp: holds_def swapped_def c_memcpy_def)

lemma c_realloc_holds:
  assumes "holds p cap e w" "cap \<le> n" "world_ok w" "c_realloc sys (Some p) n w = (Some q, w')"
  shows "holds q n e w'" "swapped p q w w'" "world_ok w'"
proof -
  have "p < w_next w" using assms(1,3) by (auto simp: holds_def dest: world_ok_live(2))
  then show "holds q n e w'" "swapped p q w w'" "world_ok w'"
    using assms by (auto simp: c_realloc_def holds_def swapped_def world_ok_def Let_def split: if_splits)
qed

lemma c_free_swapped:
  assumes "holds q cap e w" "swapped p q a w" "p < w_next a" "world_ok w"
  shows "swapped p q a (c_free (Some q) w) \<and> w_blocks (c_free (Some q) w) q = None \<and>
     world_ok (c_free (Some q) w)"
  using assms by (auto simp: holds_def swapped_def c_free_def world_ok_def)

lemma cgi_grow_ok:
  assumes "holds p cap e w" "0 < cap" "world_ok w" "cgi_grow sys p (length e) cap w = (Some q, cap1, w1)"
  shows "holds q cap1 e w1" "length e < cap1" "swapped p q w w1" "world_ok w1"
proof -
  have "holds q cap1 e w1 \<and> length e < cap1 \<and> swapped p q w w1 \<and> world_ok w1"
  proof (cases "length e = cap")
    case True
    with assms(4) have r: "c_realloc sys (Some p) (cap * 2) w = (Some q, w1)" "cap1 = cap * 2"
      by (auto simp: cgi_grow_def split: prod.splits)
    with c_realloc_holds [OF assms(1) _ assms(3) r(1)] True assms(2) show ?thesis by simp
  next
    case False
    with assms show ?thesis by (auto simp: cgi_grow_def holds_def)
  qed
  then show "holds q cap1 e w1" "length e < cap1" "swapped p q w w1" "world_ok w1" by auto
qed

lemma cgi_grow_fails:
  assumes "cgi_grow sys p n cap w = (None, cap1, w1)"
  shows "w1 = w\<lparr>w_next := Suc (w_next w)\<rparr> \<and> \<not> os_alloc sys (w_next w)"
  using assms by (auto simp: cgi_grow_def c_realloc_def Let_def split: if_splits prod.splits option.splits)

text \<open>
  The state after the loop: on success the buffer holds what it held before and then all the
  bytes of the pipe, on failure it is released; nothing else changed.
\<close>

definition cgi_after ::
    "nat \<Rightarrow> bytes \<Rightarrow> io_event list \<Rightarrow> world \<Rightarrow> (nat \<times> nat) option \<times> world \<Rightarrow> bool"
where
  "cgi_after p e es w r \<longleftrightarrow>
     world_ok (snd r) \<and>
     (\<exists>q. swapped p q w (snd r) \<and>
        (case fst r of
           None \<Rightarrow> w_blocks (snd r) q = None
         | Some (q', n) \<Rightarrow> q' = q \<and>
             (\<exists>d cap. cgi_stream es = Some d \<and> n = length e + length d \<and> holds q cap (e @ d) (snd r))))"

lemma cgi_after_step:
  assumes "cgi_after q (e @ d) es' w1 r" "swapped p q w w1" "p < w_next w"
    and "cgi_stream es = map_option ((@) d) (cgi_stream es')"
  shows "cgi_after p e es w r"
proof -
  from assms(1) obtain s where s: "swapped q s w1 (snd r)" and ok: "world_ok (snd r)"
      and f: "case fst r of
           None \<Rightarrow> w_blocks (snd r) s = None
         | Some (q', n) \<Rightarrow> q' = s \<and> (\<exists>d' cap. cgi_stream es' = Some d' \<and>
             n = length (e @ d) + length d' \<and> holds s cap ((e @ d) @ d') (snd r))"
    by (auto simp: cgi_after_def)
  have "swapped p s w (snd r)" using assms(2) s assms(3) by (rule swapped_trans)
  moreover have "case fst r of
           None \<Rightarrow> w_blocks (snd r) s = None
         | Some (q', n) \<Rightarrow> q' = s \<and> (\<exists>d' cap. cgi_stream es = Some d' \<and>
             n = length e + length d' \<and> holds s cap (e @ d') (snd r))"
    using f assms(4) by (auto split: option.splits)
  ultimately show ?thesis using ok unfolding cgi_after_def by blast
qed

lemma world_ok_memcpy: "world_ok w \<Longrightarrow> holds p cap e w \<Longrightarrow> world_ok (c_memcpy p off d w)"
  by (auto simp: world_ok_def holds_def c_memcpy_def raise_fault_def)

text \<open>One turn of the loop on the pipe.\<close>

lemma cgi_read_turn:
  obtains (nomem) cap1 w1 where "cgi_grow sys p n cap w = (None, cap1, w1)"
      "cgi_read sys p n cap es w = (None, c_free (Some p) w1)"
  | (finish) q cap1 w1 where "cgi_grow sys p n cap w = (Some q, cap1, w1)" "n < cap1 \<Longrightarrow> cgi_stream es = Some []"
      "cgi_read sys p n cap es w = (Some (q, n), w1)"
  | (broken) q cap1 w1 where "cgi_grow sys p n cap w = (Some q, cap1, w1)" "n < cap1 \<Longrightarrow> cgi_stream es = None"
      "cgi_read sys p n cap es w = (None, c_free (Some q) w1)"
  | (interrupted) q cap1 w1 es1 where "cgi_grow sys p n cap w = (Some q, cap1, w1)"
      "n < cap1 \<Longrightarrow> cgi_stream es = cgi_stream es1" "io_weight es1 < io_weight es"
      "cgi_read sys p n cap es w = cgi_read sys q n cap1 es1 w1"
  | (arrived) q cap1 w1 d es1 where "cgi_grow sys p n cap w = (Some q, cap1, w1)" "d \<noteq> []" "length d \<le> cap1 - n"
      "n < cap1 \<Longrightarrow> cgi_stream es = map_option ((@) d) (cgi_stream es1)" "io_weight es1 < io_weight es"
      "cgi_read sys p n cap es w = cgi_read sys q (n + length d) cap1 es1 (c_memcpy q n d w1)"
proof -
  obtain tmp cap1 w1 where g: "cgi_grow sys p n cap w = (tmp, cap1, w1)" by (cases "cgi_grow sys p n cap w")
  show thesis
  proof (cases tmp)
    case None
    have "cgi_read sys p n cap es w = (None, c_free (Some p) w1)" using g None by (subst cgi_read.simps) simp
    with nomem [OF g [unfolded None]] show thesis .
  next
    case (Some q)
    obtain r es1 where io: "io_read (Got []) (cap1 - n) es = (r, es1)" by (cases "io_read (Got []) (cap1 - n) es")
    note st = io_read_stream [OF io] and less = io_read_weight [OF io]
    have l: "cgi_read sys p n cap es w = (case r of
        Got d \<Rightarrow> if d \<noteq> [] then cgi_read sys q (n + length d) cap1 es1 (c_memcpy q n d w1) else (Some (q, n), w1)
      | Failed e \<Rightarrow> if e = EINTR then cgi_read sys q n cap1 es1 w1 else (None, c_free (Some q) w1))"
      using g Some io by (subst cgi_read.simps) simp
    show thesis
    proof (cases r)
      case (Got d)
      show thesis
      proof (cases "d = []")
        case True
        show thesis by (rule finish [OF g [unfolded Some]]) (use l st Got True in auto)
      next
        case False
        show thesis
          by (rule arrived [OF g [unfolded Some] False])
            (use l st less Got False io_read_length [OF io [unfolded Got]] in auto)
      qed
    next
      case (Failed x)
      show thesis
      proof (cases "x = EINTR")
        case True
        show thesis by (rule interrupted [OF g [unfolded Some]]) (use l st less Failed True in auto)
      next
        case False
        show thesis by (rule broken [OF g [unfolded Some]]) (use l st Failed False in auto)
      qed
    qed
  qed
qed

lemma cgi_read_after:
  assumes "holds p cap e w" "0 < cap" "world_ok w"
  shows "cgi_after p e es w (cgi_read sys p (length e) cap es w)"
  using assms
proof (induction "io_weight es" arbitrary: p e cap es w rule: less_induct)
  case less
  have pn: "p < w_next w" using less.prems(1,3) by (auto simp: holds_def dest: world_ok_live(2))
  show ?case
  proof (cases rule: cgi_read_turn [of sys p "length e" cap w es])
    case (nomem cap1 w1)
    then have w1: "w1 = w\<lparr>w_next := Suc (w_next w)\<rparr>" using cgi_grow_fails by blast
    have h: "holds p cap e w1" "swapped p p w w1" "world_ok w1"
      using less.prems by (auto simp: w1 holds_def swapped_def world_ok_def)
    from c_free_swapped [OF h(1,2) pn h(3)] nomem(2) show ?thesis by (auto simp: cgi_after_def)
  next
    case (finish q cap1 w1)
    with cgi_grow_ok [OF less.prems finish(1)] show ?thesis by (auto simp: cgi_after_def)
  next
    case (broken q cap1 w1)
    note h = cgi_grow_ok [OF less.prems broken(1)]
    from c_free_swapped [OF h(1,3) pn h(4)] broken(3) show ?thesis by (auto simp: cgi_after_def)
  next
    case (interrupted q cap1 w1 es1)
    note h = cgi_grow_ok [OF less.prems interrupted(1)]
    have "cgi_after q (e @ []) es1 w1 (cgi_read sys q (length e) cap1 es1 w1)"
      using less.hyps [OF interrupted(3) h(1) _ h(4)] h(2) by simp
    then show ?thesis
      unfolding interrupted(4) using h(3) pn by (rule cgi_after_step) (use interrupted(2) h(2) in \<open>simp add: option.map_ident\<close>)
  next
    case (arrived q cap1 w1 d es1)
    note h = cgi_grow_ok [OF less.prems arrived(1)]
    have len: "length e + length d \<le> cap1" using arrived(3) h(2) by simp
    note m = c_memcpy_holds [OF h(1) len] and ok = world_ok_memcpy [OF h(4,1)]
    have "cgi_after q (e @ d) es1 (c_memcpy q (length e) d w1)
        (cgi_read sys q (length (e @ d)) cap1 es1 (c_memcpy q (length e) d w1))"
      using less.hyps [OF arrived(5) m(1) _ ok] h(2) by simp
    moreover have "swapped p q w (c_memcpy q (length e) d w1)" using h(3) m(2) pn by (rule swapped_trans)
    ultimately show ?thesis
      unfolding arrived(6) length_append [symmetric] using pn by (rule cgi_after_step) (use arrived(4) h(2) in simp)
  qed
qed

text \<open>When memory is there and no read fails, the loop returns the buffer.\<close>

lemma cgi_grow_alloc:
  assumes "\<forall>i. os_alloc sys i" "n \<le> cap" "0 < cap"
  shows "\<exists>q cap1 w1. cgi_grow sys p n cap w = (Some q, cap1, w1) \<and> n < cap1 \<and> 0 < cap1"
  using assms by (auto simp: cgi_grow_def c_realloc_def Let_def split: option.splits)

lemma cgi_read_succeeds:
  assumes "\<forall>i. os_alloc sys i" "n \<le> cap" "0 < cap" "cgi_stream es \<noteq> None"
  shows "fst (cgi_read sys p n cap es w) \<noteq> None"
  using assms(2-4)
proof (induction "io_weight es" arbitrary: p n cap es w rule: less_induct)
  case less
  obtain q cap1 w1 where g: "cgi_grow sys p n cap w = (Some q, cap1, w1)" "n < cap1" "0 < cap1"
    using cgi_grow_alloc [OF assms(1) less.prems(1,2)] by metis
  show ?case
  proof (cases rule: cgi_read_turn [of sys p n cap w es])
    case (interrupted q' cap' w' es1)
    with g less.prems(3) less.hyps [OF interrupted(3)] show ?thesis by simp
  next
    case (arrived q' cap' w' d es1)
    with g less.prems(3) less.hyps [OF arrived(5)] show ?thesis by simp
  qed (use g less.prems(3) in simp_all)
qed

section \<open>The builder\<close>

lemma cgi_header_lines: "cgi_header t n = crlf_lines (cgi_lines t n) @ CRLF"
  by (simp add: cgi_header_def cgi_lines_def)

text \<open>With a time stamp that fits its field, the head always fits its array.\<close>

lemma cgi_header_fits:
  assumes "length time < TIME_RECEIVED_LENGTH" "n < 2 ^ 64"
  shows "length (cgi_header time n) < MAX_HEADER_BUF"
proof -
  have "n < 10 ^ 20" using assms(2) by simp
  then have "length (show_nat n) \<le> 20" by (rule show_nat_length) simp
  with assms(1) show ?thesis
    by (simp add: cgi_header_def TIME_RECEIVED_LENGTH_def MAX_HEADER_BUF_def SERVER_VERSION_def)
qed

lemma cgi_assemble_ok:
  fixes req :: Request
  assumes "holds buf cap d w" "world_ok w" "length (cgi_header (time_received req) (length d)) < MAX_HEADER_BUF"
    and "os_alloc sys (w_next w)"
  defines "hdr \<equiv> cgi_header (time_received req) (length d)"
  shows "cgi_assemble sys c req buf (length d) w =
    (0, c\<lparr>out_buf := Some (w_next w), output_length := length hdr + length d, body_len := length d,
          header_len := length hdr\<rparr>,
     w\<lparr>w_next := Suc (w_next w),
       w_blocks := (w_blocks w)(w_next w \<mapsto> \<lparr>b_size = length hdr + length d, b_data = hdr @ d\<rparr>)\<rparr>)"
proof -
  have b: "buf < w_next w" using assms(1,2) by (auto simp: holds_def dest: world_ok_live(2))
  have h: "length hdr < MAX_HEADER_BUF" using assms(3) by (simp add: hdr_def)
  show ?thesis
    unfolding cgi_assemble_def snprintf_def c_malloc_def using assms(1,4) b h
    by (simp add: Let_def c_memcpy_def block_data_def holds_def flip: hdr_def)
qed

lemma cgi_assemble_fields:
  assumes "cgi_assemble sys c req buf n w = (rc, c', w')"
  shows "w_fds w' = w_fds w" and "conn_part c' = conn_part c" and "rc = 0 \<longrightarrow> os_alloc sys (w_next w)"
  using assms
  by (auto simp: cgi_assemble_def snprintf_def c_malloc_def conn_part_def Let_def world_simps
      split: if_splits)

lemma c_malloc_holds:
  assumes "world_ok w" "c_malloc sys n w = (Some p, w1)"
  shows "holds p n [] w1" "world_ok w1" "w_fds w1 = w_fds w" "w_faults w1 = w_faults w"
  using assms by (auto simp: c_malloc_def holds_def world_ok_def Let_def split: if_splits)

lemma swapped_fields: "swapped p q w w' \<Longrightarrow> w_fds w' = w_fds w \<and> w_faults w' = w_faults w"
  by (simp add: swapped_def)

text \<open>The parent's side, in one rule: on success the pipe was read to its end.\<close>

lemma cgi_collect_stages:
  assumes "world_ok w"
  obtains (nomem) w1 where "c_malloc sys 8192 w = (None, w1)"
  | (nodata) buf w1 w2 q where "c_malloc sys 8192 w = (Some buf, w1)"
      "cgi_read sys buf 0 8192 (cgi_output run) w1 = (None, w2)" "swapped buf q w1 w2" "world_ok w2"
  | (data) buf w1 w2 q d cap where "c_malloc sys 8192 w = (Some buf, w1)"
      "cgi_read sys buf 0 8192 (cgi_output run) w1 = (Some (q, length d), w2)" "swapped buf q w1 w2" "world_ok w2"
      "cgi_stream (cgi_output run) = Some d" "holds q cap d w2"
proof (cases "c_malloc sys 8192 w")
  case (Pair p w1)
  show thesis
  proof (cases p)
    case None
    with Pair nomem show thesis by blast
  next
    case (Some buf)
    note m = c_malloc_holds [OF assms Pair [unfolded Some]]
    obtain r w2 where r: "cgi_read sys buf 0 8192 (cgi_output run) w1 = (r, w2)"
      by (cases "cgi_read sys buf 0 8192 (cgi_output run) w1")
    from cgi_read_after [OF m(1) _ m(2), of "cgi_output run" sys] r
    have "cgi_after buf [] (cgi_output run) w1 (r, w2)" by simp
    with Pair Some r show thesis by (cases r) (auto simp: cgi_after_def intro: nodata data)
  qed
qed

lemma cgi_collect_cases:
  assumes "cgi_collect sys c req rfd run w = (rc, c', w')" "world_ok w"
  obtains (fails) "rc = -1" "w_fds w' = (w_fds w)(rfd := False)" "conn_part c' = conn_part c"
  | (assembles) d buf cap w3 where "cgi_stream (cgi_output run) = Some d" "cgi_wait run = Exited 0"
      "holds buf cap d w3" "world_ok w3" "w_fds w3 = (w_fds w)(rfd := False)" "w_faults w3 = w_faults w"
      "cgi_assemble sys c req buf (length d) w3 = (rc, c', w')" "w_next w \<le> buf"
  using assms(2)
proof (cases rule: cgi_collect_stages [where sys = sys and run = run])
  case (nomem w1)
  with assms(1) show thesis
    by (intro fails) (auto simp: cgi_collect_def c_malloc_def conn_part_def Let_def world_simps split: if_splits)
next
  case (nodata buf w1 w2 q)
  note m = c_malloc_holds [OF assms(2) nodata(1)] and f = swapped_fields [OF nodata(3)]
  from nodata m f assms(1) show thesis by (intro fails) (auto simp: cgi_collect_def conn_part_def world_simps)
next
  case (data buf w1 w2 q d cap)
  note m = c_malloc_holds [OF assms(2) data(1)] and f = swapped_fields [OF data(3)]
  have new: "w_next w \<le> q" using data(1,3) by (auto simp: c_malloc_def Let_def swapped_def split: if_splits)
  have h: "holds q cap d (c_close rfd w2)" "world_ok (c_close rfd w2)"
    using data(4,6) by (simp_all add: holds_def world_ok_def world_simps)
  show thesis
  proof (cases "cgi_wait run = Exited 0")
    case True
    with data(1,2) f m assms(1) show thesis
      by (intro assembles [OF data(5) True h _ _ _ new]) (auto simp: cgi_collect_def world_simps)
  next
    case False
    with data(1,2) f m assms(1) show thesis by (intro fails) (auto simp: cgi_collect_def conn_part_def world_simps)
  qed
qed

text \<open>What the builder relies on, and the script's output.\<close>

definition cgi_run_of :: "os \<Rightarrow> Client \<Rightarrow> ResolvedPath \<Rightarrow> Request \<Rightarrow> cgi_run" where
  "cgi_run_of sys c rp req = os_cgi sys (cgi_script req) (cgi_env c rp req)"

definition cgi_body :: "os \<Rightarrow> Client \<Rightarrow> ResolvedPath \<Rightarrow> Request \<Rightarrow> bytes" where
  "cgi_body sys c rp req = (case cgi_stream (cgi_output (cgi_run_of sys c rp req)) of Some d \<Rightarrow> d | None \<Rightarrow> [])"

definition cgi_ready :: "os \<Rightarrow> Client \<Rightarrow> ResolvedPath \<Rightarrow> Request \<Rightarrow> world \<Rightarrow> bool" where
  "cgi_ready sys c rp req w \<longleftrightarrow>
     world_ok w \<and> CR \<notin> set (time_received req) \<and> length (time_received req) < TIME_RECEIVED_LENGTH \<and>
     length (cgi_body sys c rp req) < 2 ^ 64 \<and> length (req_path req) < PATH_MAX"

lemma world_ok_pipe: "world_ok (c_close a (fault_if b f (c_pipe x w))) = world_ok w"
  by (simp add: world_ok_def c_close_def fault_if_def raise_fault_def c_pipe_def)

lemma cgi_script_fits: "length (req_path req) < PATH_MAX \<Longrightarrow> length (cgi_script req) \<le> PATH_MAX"
  using length_takeWhile_le [of "\<lambda>ch. ch \<noteq> CHR ''?''" "req_path req"] by (simp add: cgi_script_def)

lemma build_response_cgi_collects:
  assumes "build_response_cgi sys fl c rp req w = (0, c', w')"
  obtains rfd wfd where "flag_set fl C_FLAG" "os_pipe sys = Some (rfd, wfd)"
    "length (query_string rp) \<le> PATH_MAX"
    "cgi_collect sys c req rfd (cgi_run_of sys c rp req)
       (c_close wfd (fault_if (PATH_MAX < length (cgi_script req)) StackOverrun (c_pipe (rfd, wfd) w))) = (0, c', w')"
  using assms
  by (auto simp: build_response_cgi_def check_resolve_args_def cgi_run_of_def Let_def split: if_splits option.splits prod.splits)

lemma build_response_cgi_ok:
  fixes req :: Request
  assumes "build_response_cgi sys fl c rp req w = (0, c', w')" "cgi_ready sys c rp req w"
  defines "d \<equiv> cgi_body sys c rp req"
  defines "hdr \<equiv> cgi_header (time_received req) (length d)"
  shows "cgi_stream (cgi_output (cgi_run_of sys c rp req)) = Some d"
    and "cgi_wait (cgi_run_of sys c rp req) = Exited 0"
    and "staged w' c' (hdr @ d)" and "header_len c' = length hdr" and "w_faults w' = w_faults w"
proof -
  from assms(1) obtain rfd wfd where pipe: "flag_set fl C_FLAG" "os_pipe sys = Some (rfd, wfd)"
      "length (query_string rp) \<le> PATH_MAX"
    and co: "cgi_collect sys c req rfd (cgi_run_of sys c rp req)
       (c_close wfd (fault_if (PATH_MAX < length (cgi_script req)) StackOverrun (c_pipe (rfd, wfd) w))) = (0, c', w')"
    by (rule build_response_cgi_collects)
  have sf: "\<not> PATH_MAX < length (cgi_script req)"
    using assms(2) cgi_script_fits [of req] by (simp add: cgi_ready_def)
  have "world_ok (c_close wfd (fault_if (PATH_MAX < length (cgi_script req)) StackOverrun (c_pipe (rfd, wfd) w)))"
    using assms(2) by (simp add: cgi_ready_def world_ok_pipe)
  with co have "cgi_stream (cgi_output (cgi_run_of sys c rp req)) = Some d \<and>
      cgi_wait (cgi_run_of sys c rp req) = Exited 0 \<and> staged w' c' (hdr @ d) \<and>
      header_len c' = length hdr \<and> w_faults w' = w_faults w"
  proof (cases rule: cgi_collect_cases)
    case (assembles d' buf cap w3)
    have d': "d' = d" using assembles(1) by (simp add: d_def cgi_body_def)
    have fits: "length (cgi_header (time_received req) (length d')) < MAX_HEADER_BUF"
      using assms(2) by (intro cgi_header_fits) (simp_all add: cgi_ready_def d' d_def)
    have al: "os_alloc sys (w_next w3)" using cgi_assemble_fields(3) [OF assembles(7)] by simp
    note e = cgi_assemble_ok [OF assembles(3,4) fits al, where c = c]
    show ?thesis
      using assembles(7) unfolding e using assembles sf d'
      by (auto simp: staged_def hdr_def c_pipe_def world_simps)
  qed simp
  then show "cgi_stream (cgi_output (cgi_run_of sys c rp req)) = Some d"
    and "cgi_wait (cgi_run_of sys c rp req) = Exited 0"
    and "staged w' c' (hdr @ d)" and "header_len c' = length hdr" and "w_faults w' = w_faults w"
    by auto
qed

text \<open>No descriptor of the pipe survives, on any path.\<close>

lemma cgi_collect_fds:
  assumes "cgi_collect sys c req rfd run w = (rc, c', w')" "world_ok w"
  shows "w_fds w' = (w_fds w)(rfd := False)"
  using assms by (cases rule: cgi_collect_cases; auto dest: cgi_assemble_fields)

lemma c_pipe_fds [world_simps]: "w_fds (c_pipe (r, s) w) = (w_fds w)(r := True, s := True)"
  by (simp add: c_pipe_def)

lemma build_response_cgi_fds:
  assumes "build_response_cgi sys fl c rp req w = (rc, c', w')" "world_ok w"
    and "length (query_string rp) \<le> PATH_MAX"
    and "\<forall>r s. os_pipe sys = Some (r, s) \<longrightarrow> \<not> w_fds w r \<and> \<not> w_fds w s"
  shows "w_fds w' = w_fds w"
  using assms(1,3,4)
  by (auto simp: build_response_cgi_def check_resolve_args_def Let_def world_simps
      split: if_splits option.splits prod.splits
      dest!: cgi_collect_fds [OF _ world_ok_pipe [THEN iffD2, OF assms(2)]])

lemma build_response_cgi_frame:
  assumes "build_response_cgi sys fl c rp req w = (rc, c', w')"
  shows "conn_part c' = conn_part c"
proof -
  have "conn_part c' = conn_part c" if "cgi_collect sys c req rfd run w = (rc, c', w')" for rfd run w
    using that by (auto simp: cgi_collect_def conn_part_def Let_def split: if_splits option.splits prod.splits
        dest!: cgi_assemble_fields(2))
  with assms show ?thesis
    by (auto simp: build_response_cgi_def Let_def conn_part_def split: if_splits option.splits prod.splits)
qed

lemma cgi_lines_plain: "CR \<notin> set t \<Longrightarrow> l \<in> set (cgi_lines t n) \<Longrightarrow> plain_line l"
  by (auto simp: cgi_lines_def plain_line_def SERVER_VERSION_def)

lemma cgi_lines_length: "header_value ''Content-Length: '' (cgi_lines t n) = Some (show_nat n)"
  by (simp add: cgi_lines_def)

interpretation cgib: response_builder
  "\<lambda>sys c x w. build_response_cgi sys (fst x) c (fst (snd x)) (snd (snd x)) w"
  "\<lambda>sys c x w. cgi_ready sys c (fst (snd x)) (snd (snd x)) w"
  "\<lambda>sys c x w. cgi_lines (time_received (snd (snd x))) (length (cgi_body sys c (fst (snd x)) (snd (snd x))))"
  "\<lambda>sys c x w. cgi_body sys c (fst (snd x)) (snd (snd x))"
  "\<lambda>sys c x w. cgi_body sys c (fst (snd x)) (snd (snd x))"
proof (unfold_locales, goal_cases)
  case (1 sys c x w c' w')
  then show ?case using build_response_cgi_ok(3) [OF 1(2,1)] by (simp add: cgi_header_lines)
next
  case (2 sys c x w c' w')
  then show ?case using build_response_cgi_ok(4) [OF 2(2,1)] by (simp add: cgi_header_lines)
next
  case (3 sys c x w l)
  then show ?case by (auto simp: cgi_ready_def intro: cgi_lines_plain)
next
  case (4 sys c x w)
  show ?case by (rule cgi_lines_length)
next
  case (5 sys c x w rc c' w')
  then show ?case by (rule build_response_cgi_frame)
qed

section \<open>Properties\<close>

text \<open>
  C26: the read loop returns the output of the script whole: however the pipe splits it and
  however often \<^verbatim>\<open>read\<close> is interrupted, when memory is there and no read fails, the loop ends
  with a buffer that holds exactly the bytes written up to end of file; only the buffer
  changed, and it may have moved.
\<close>

theorem cgi_read_collects:
  assumes "holds p cap [] w" "0 < cap" "world_ok w" "\<forall>i. os_alloc sys i" "cgi_stream es = Some d"
  shows "\<exists>q cap' w'. cgi_read sys p 0 cap es w = (Some (q, length d), w') \<and> holds q cap' d w' \<and> swapped p q w w'"
proof -
  obtain r w' where r: "cgi_read sys p 0 cap es w = (r, w')" by (cases "cgi_read sys p 0 cap es w")
  have "r \<noteq> None" using cgi_read_succeeds [OF assms(4), of 0 cap es p w] assms(2,5) r by simp
  with cgi_read_after [OF assms(1-3), of es sys] r assms(5) show ?thesis
    by (auto simp: cgi_after_def)
qed

theorem cgi_read_collects_witness:
  "\<exists>q cap' w'. cgi_read sample_os 0 0 4 [Data ''he'', Fail EINTR, Data ''llo'', Eof]
       (empty_world\<lparr>w_next := 1, w_blocks := [0 \<mapsto> \<lparr>b_size = 4, b_data = []\<rparr>]\<rparr>) = (Some (q, 5), w') \<and>
     holds q cap' ''hello'' w'"
proof -
  let ?w = "empty_world\<lparr>w_next := 1, w_blocks := [0 \<mapsto> \<lparr>b_size = 4, b_data = []\<rparr>]\<rparr>"
  have "holds 0 4 [] ?w" "world_ok ?w" by (simp_all add: holds_def world_ok_def empty_world_def)
  then show ?thesis
    using cgi_read_collects [of 0 4 ?w sample_os "[Data ''he'', Fail EINTR, Data ''llo'', Eof]" "''hello''"] by auto
qed

text \<open>
  C27: when the CGI builder returns 0, the child exited with status 0, the staged bytes are a
  head and the script's whole output, the announced length is that of the output, and no
  array was overrun: the head fits its 750 bytes and the script name its buffer.
\<close>

theorem cgi_response_framed:
  assumes "build_response_cgi sys fl c rp req w = (0, c', w')" "cgi_ready sys c rp req w" "staged w' c' d"
  shows "cgi_wait (cgi_run_of sys c rp req) = Exited 0 \<and> w_faults w' = w_faults w \<and>
     (\<exists>ls out. cgi_stream (cgi_output (cgi_run_of sys c rp req)) = Some out \<and> read_head d = Some (ls, out) \<and>
        map_option read_nat (header_value ''Content-Length: '' ls) = Some (length out))"
proof -
  have p: "cgi_ready sys c (fst (snd (fl, rp, req))) (snd (snd (fl, rp, req))) w"
    "build_response_cgi sys (fst (fl, rp, req)) c (fst (snd (fl, rp, req))) (snd (snd (fl, rp, req))) w = (0, c', w')"
    using assms(1,2) by simp_all
  show ?thesis
    using cgib.received [OF p assms(3)] cgib.announced_length [OF p(1)] build_response_cgi_ok(1,2,5) [OF assms(1,2)]
    by auto
qed

lemma sample_cgi_built:
  "\<exists>c' w'. build_response_cgi sample_os 1 sample_Client zero_ResolvedPath (sample_request ''/cgi-bin/x'') empty_world = (0, c', w')"
proof -
  let ?b = "build_response_cgi sample_os 1 sample_Client zero_ResolvedPath (sample_request ''/cgi-bin/x'') empty_world"
  have "fst ?b = 0"
    by (simp add: build_response_cgi_def check_resolve_args_def flag_set_def C_FLAG_def sample_os_def zero_ResolvedPath_def
        cgi_collect_def c_malloc_def Let_def cgi_read.simps cgi_grow_def cgi_assemble_def snprintf_def c_memcpy_def
        c_close_def c_pipe_def fault_if_def raise_fault_def split: if_splits option.splits prod.splits)
  then show ?thesis by (metis prod.collapse)
qed

theorem cgi_response_framed_witness:
  "\<exists>c' w' d ls. build_response_cgi sample_os 1 sample_Client zero_ResolvedPath (sample_request ''/cgi-bin/x'') empty_world =
      (0, c', w') \<and> staged w' c' d \<and> read_head d = Some (ls, ''ok'')"
proof -
  let ?req = "sample_request ''/cgi-bin/x''"
  let ?b = "build_response_cgi sample_os 1 sample_Client zero_ResolvedPath ?req empty_world"
  have c: "cgi_output (cgi_run_of sample_os sample_Client zero_ResolvedPath ?req) = [Data ''ok'']"
    by (simp add: cgi_run_of_def sample_os_def)
  have rdy: "cgi_ready sample_os sample_Client zero_ResolvedPath ?req empty_world"
    by (simp add: cgi_ready_def cgi_body_def c TIME_RECEIVED_LENGTH_def PATH_MAX_def)
  obtain c' w' where b: "?b = (0, c', w')" using sample_cgi_built by blast
  from build_response_cgi_ok(3) [OF b rdy] obtain d where d: "staged w' c' d" by blast
  from cgi_response_framed [OF b rdy d] b d show ?thesis unfolding c by auto
qed

text \<open>
  The CGI builder leaks no descriptor: on every path, success or failure, the open
  descriptors afterwards are those before, when the pipe's two ends are new and the query
  string fits its field.
\<close>

theorem cgi_no_descriptor_leak:
  assumes "build_response_cgi sys fl c rp req w = (rc, c', w')" "world_ok w"
    and "length (query_string rp) \<le> PATH_MAX"
    and "\<forall>r s. os_pipe sys = Some (r, s) \<longrightarrow> \<not> w_fds w r \<and> \<not> w_fds w s"
  shows "w_fds w' = w_fds w"
  using assms by (rule build_response_cgi_fds)

theorem cgi_no_descriptor_leak_witness:
  "w_fds (snd (snd (build_response_cgi sample_os 1 sample_Client zero_ResolvedPath (sample_request ''/cgi-bin/x'') empty_world))) =
   w_fds empty_world"
proof -
  obtain rc c' w' where b: "build_response_cgi sample_os 1 sample_Client zero_ResolvedPath (sample_request ''/cgi-bin/x'') empty_world = (rc, c', w')"
    using prod_cases3 by blast
  have "length (query_string zero_ResolvedPath) \<le> PATH_MAX" "\<And>d. \<not> w_fds empty_world d"
    by (simp_all add: zero_ResolvedPath_def empty_world_def)
  then have "w_fds w' = w_fds empty_world"
    by (intro cgi_no_descriptor_leak [OF b world_ok_empty]) simp_all
  then show ?thesis by (simp add: b)
qed

end
