(* ===== verification/Error_Response.thy ===== *)
theory Error_Response
  imports Response
begin

text \<open>
  \<^verbatim>\<open>response/build_error_response.c\<close>: the table of error messages and the builder that formats
  one of them.  The builder is shown to meet the contract \<open>response_builder\<close>, and its result
  is described on every branch.
\<close>

section \<open>Definitions\<close>

definition HTML_RESPONSE :: bytes where "HTML_RESPONSE = ''text/html''"
definition TEXT_RESPONSE :: bytes where "TEXT_RESPONSE = ''text/plain''"

record Response =
  status_line :: bytes
  r_mime_type :: bytes
  r_body :: bytes

definition body_404 :: bytes where
  "body_404 =
     ''<html><body><h1>404 Not Found</h1>'' @
     ''<h3>Sorry, the file you are looking for doesn't exist</h3>'' @
     ''<br><br><p>Or does it?!?!</p><br><br><br><br>'' @
     ''<p>No... it doesn't</p></body></html>''"

definition body_501 :: bytes where
  "body_501 =
     ''<html><body><h1>501 CGI Not Enabled on Server</h1>'' @
     ''<h3>CGI application requires the server to be run with the CGI flag</h3>'' @
     ''<p>Please restart the simple_server application with the -c flag '' @
     ''and the location of the cgi-bin directory</p>'' @
     ''<p><b>Eg:<br/></b> ./simple_server -c ./cgi-bin</p></body></html>''"

text \<open>The table has no entry for \<open>RESP_200\<close>: its slot is zero, and the guard keeps it unread.\<close>

fun error_responses :: "client_response \<Rightarrow> Response" where
  "error_responses RESP_400 = \<lparr>status_line = ''400 Bad Request'', r_mime_type = TEXT_RESPONSE, r_body = []\<rparr>"
| "error_responses RESP_403 = \<lparr>status_line = ''403 Forbidden'', r_mime_type = TEXT_RESPONSE, r_body = []\<rparr>"
| "error_responses RESP_404 = \<lparr>status_line = ''404 Not Found'', r_mime_type = HTML_RESPONSE, r_body = body_404\<rparr>"
| "error_responses RESP_414 = \<lparr>status_line = ''414 URI Too Long'', r_mime_type = TEXT_RESPONSE, r_body = []\<rparr>"
| "error_responses RESP_500 = \<lparr>status_line = ''500 Internal Server Error'', r_mime_type = TEXT_RESPONSE, r_body = []\<rparr>"
| "error_responses RESP_501 = \<lparr>status_line = ''501 Not Implemented'', r_mime_type = HTML_RESPONSE, r_body = body_501\<rparr>"
| "error_responses RESP_505 = \<lparr>status_line = ''505 HTTP Version Not Supported'', r_mime_type = TEXT_RESPONSE, r_body = []\<rparr>"
| "error_responses _ = \<lparr>status_line = [], r_mime_type = [], r_body = []\<rparr>"

definition error_header :: "Response \<Rightarrow> bytes \<Rightarrow> bytes" where
  "error_header r time =
     ''HTTP/1.0 '' @ status_line r @ CRLF @
     ''Date: '' @ time @ CRLF @
     ''Server: '' @ SERVER_VERSION @ CRLF @
     ''Content-Type: '' @ r_mime_type r @ CRLF @
     ''Content-Length: '' @ show_nat (length (r_body r)) @ CRLF @
     ''Connection: close'' @ CRLF @
     CRLF"

text \<open>The builder on a client and a request that exist.\<close>

definition write_error_response :: "os \<Rightarrow> Client \<Rightarrow> Request \<Rightarrow> world \<Rightarrow> int \<times> Client \<times> world" where
  "write_error_response sys c req w =
     (if resp_val c < RESP_400 \<or> NUM_CLIENT_RESP \<le> resp_val c then (-1, c, w)
      else
        let error_resp = error_responses (resp_val c);
            hdr = error_header error_resp (time_received req);
            out = (if req_method req = HTTP_HEAD then hdr else hdr @ r_body error_resp)
        in case c_memstream sys out w of
             (None, w1) \<Rightarrow> (-1, c, w1)
           | (Some p, w1) \<Rightarrow>
               let c1 = c\<lparr>out_buf := Some p, output_length := length out, header_len := length hdr\<rparr>
               in if req_method req = HTTP_HEAD
                  then (0, c1\<lparr>body_len := length (r_body error_resp)\<rparr>, w1)
                  else (0, c1\<lparr>body_len := output_length c1 - header_len c1\<rparr>, w1))"

definition build_error_response ::
    "os \<Rightarrow> Client option \<Rightarrow> Request option \<Rightarrow> world \<Rightarrow> int \<times> Client option \<times> world"
where
  "build_error_response sys c_opt req_opt w =
     (case c_opt of
        None \<Rightarrow> (-1, None, w)
      | Some c \<Rightarrow>
          (case req_opt of
             None \<Rightarrow> (-1, Some c, w)
           | Some req \<Rightarrow>
               (case write_error_response sys c req w of (rc, c', w') \<Rightarrow> (rc, Some c', w'))))"

text \<open>The head as the list of its lines, and the body that is sent.\<close>

definition error_lines :: "Response \<Rightarrow> bytes \<Rightarrow> bytes list" where
  "error_lines r time =
     [''HTTP/1.0 '' @ status_line r, ''Date: '' @ time, ''Server: '' @ SERVER_VERSION,
      ''Content-Type: '' @ r_mime_type r,
      ''Content-Length: '' @ show_nat (length (r_body r)), ''Connection: close'']"

definition is_error :: "client_response \<Rightarrow> bool" where
  "is_error r \<longleftrightarrow> RESP_400 \<le> r \<and> r < NUM_CLIENT_RESP"

section \<open>Lemmas\<close>

lemma is_error_iff:
  "is_error r \<longleftrightarrow> r \<in> {RESP_400, RESP_403, RESP_404, RESP_414, RESP_500, RESP_501, RESP_505}"
  by (cases r) (simp_all add: is_error_def resp_order_defs)

lemma error_header_lines: "error_header r time = crlf_lines (error_lines r time) @ CRLF"
  by (simp add: error_header_def error_lines_def)

lemma error_status_plain: "CR \<notin> set (status_line (error_responses r)) \<and> CR \<notin> set (r_mime_type (error_responses r))"
  by (cases r) (simp_all add: TEXT_RESPONSE_def HTML_RESPONSE_def)

lemma error_lines_plain:
  "CR \<notin> set time \<Longrightarrow> l \<in> set (error_lines (error_responses r) time) \<Longrightarrow> plain_line l"
  using error_status_plain [of r] by (auto simp: error_lines_def plain_line_def SERVER_VERSION_def)

lemma error_lines_length:
  "header_value ''Content-Length: '' (error_lines r time) = Some (show_nat (length (r_body r)))"
  by (simp add: error_lines_def)

lemma write_error_response_eq:
  assumes "is_error (resp_val c)"
  shows "write_error_response sys c req w =
    (let r = error_responses (resp_val c);
         sent = (if req_method req = HTTP_HEAD then [] else r_body r);
         d = crlf_lines (error_lines r (time_received req)) @ CRLF @ sent
     in case c_memstream sys d w of
          (None, w1) \<Rightarrow> (-1, c, w1)
        | (Some p, w1) \<Rightarrow>
            (0, c\<lparr>out_buf := Some p, output_length := length d,
                  header_len := length d - length sent, body_len := length (r_body r)\<rparr>, w1))"
  using assms
  by (auto simp: write_error_response_def is_error_def not_less not_le error_header_lines Let_def
      split: prod.split option.split)

lemma write_error_response_frame:
  "write_error_response sys c req w = (rc, c', w') \<Longrightarrow>
     conn_part c' = conn_part c \<and> resp_val c' = resp_val c"
  by (auto simp: write_error_response_def conn_part_def Let_def split: if_splits prod.splits option.splits)

interpretation err: response_builder
  "\<lambda>sys c req w. write_error_response sys c req w"
  "\<lambda>sys c req w. is_error (resp_val c) \<and> CR \<notin> set (time_received req)"
  "\<lambda>sys c req w. error_lines (error_responses (resp_val c)) (time_received req)"
  "\<lambda>sys c req w. r_body (error_responses (resp_val c))"
  "\<lambda>sys c req w. if req_method req = HTTP_HEAD then [] else r_body (error_responses (resp_val c))"
proof (unfold_locales, goal_cases)
  case (1 sys c req w c' w')
  then show ?case
    by (auto simp: write_error_response_eq Let_def simp del: append_assoc split: prod.splits option.splits
        intro!: staged_memstream)
next
  case (2 sys c req w c' w')
  then show ?case
    by (auto simp: write_error_response_eq Let_def split: prod.splits option.splits)
next
  case (3 sys c req w l)
  then show ?case by (blast intro: error_lines_plain)
next
  case (4 sys c req w)
  then show ?case by (simp add: error_lines_length)
next
  case (5 sys c req w rc c' w')
  then show ?case by (simp add: write_error_response_frame)
qed

end
