(* ===== verification/Okay_Response.thy ===== *)
theory Okay_Response
  imports Cgi_Response Error_Response
begin

text \<open>
  The dispatcher of \<^verbatim>\<open>response/build_okay_response.c\<close>.  A builder that fails leaves a response code;
  the dispatcher then clears what was staged and builds the error response for that code.  The
  lemmas show that some complete response is staged on every path where memory is available,
  with the status line that belongs to the recorded code.
\<close>

section \<open>Definitions\<close>

text \<open>The builder for the type of the path; an unknown type builds nothing.\<close>

definition build_by_type ::
    "os \<Rightarrow> flags \<Rightarrow> Client \<Rightarrow> ResolvedPath \<Rightarrow> Request \<Rightarrow> world \<Rightarrow> int \<times> Client \<times> world"
where
  "build_by_type sys app_flags c rp req w =
     (if path_type rp = IS_CGI then build_response_cgi sys app_flags c rp req w
      else if path_type rp = IS_DIR then build_response_dir sys c rp req w
      else if path_type rp = IS_FILE then build_response_file sys c rp req w
      else (0, c, w))"

definition build_okay_response ::
    "os \<Rightarrow> flags \<Rightarrow> Client \<Rightarrow> ResolvedPath \<Rightarrow> Request \<Rightarrow> world \<Rightarrow> int \<times> Client \<times> world"
where
  "build_okay_response sys app_flags c rp req w =
     (case build_by_type sys app_flags (c\<lparr>resp_val := RESP_200\<rparr>) rp req w of
        (status, c1, w1) \<Rightarrow>
          if status < 0 then
            let c2 = c1\<lparr>resp_val := (if resp_val c1 = RESP_200 then RESP_500 else resp_val c1),
                        output_length := 0, header_len := 0, body_len := 0, file_size := 0\<rparr>;
                w2 = c_free (out_buf c2) w1
            in (case build_error_response sys (Some c2) (Some req) w2 of
                  (rc, c3, w3) \<Rightarrow> (rc, case c3 of Some x \<Rightarrow> x | None \<Rightarrow> c2, w3))
          else (status, c1, w1))"

text \<open>The status text a response code stands for, and a complete response for a code.\<close>

definition status_text :: "client_response \<Rightarrow> bytes" where
  "status_text r = (if r = RESP_200 then ''200 OK'' else status_line (error_responses r))"

definition answered :: "world \<Rightarrow> Client \<Rightarrow> bool" where
  "answered w c \<longleftrightarrow> complete_response (status_text (resp_val c)) w c"

text \<open>
  The code the dispatcher should end with, read off the operating system's answers: a listing
  needs \<^verbatim>\<open>opendir\<close>, a script needs the flag, a pipe, a child, readable output and exit status 0.
\<close>

definition script_ok :: "os \<Rightarrow> Client \<Rightarrow> ResolvedPath \<Rightarrow> Request \<Rightarrow> bool" where
  "script_ok sys c rp req \<longleftrightarrow>
     (let run = cgi_run_of sys c rp req
      in os_pipe sys \<noteq> None \<and> cgi_fork_ok run \<and> cgi_stream (cgi_output run) \<noteq> None \<and> cgi_wait run = Exited 0)"

definition okay_status :: "os \<Rightarrow> flags \<Rightarrow> Client \<Rightarrow> ResolvedPath \<Rightarrow> Request \<Rightarrow> client_response" where
  "okay_status sys app_flags c rp req =
     (case path_type rp of
        IS_CGI \<Rightarrow> if \<not> flag_set app_flags C_FLAG then RESP_501
                  else if script_ok sys c rp req then RESP_200 else RESP_500
      | IS_DIR \<Rightarrow> if os_opendir sys (drop 1 (req_path req)) = None then RESP_500 else RESP_200
      | _ \<Rightarrow> RESP_200)"

text \<open>
  The bytes of the response: an error page, or the head and the body of the resource.  To
  \<^verbatim>\<open>HEAD\<close> only the head is sent, except by a script.
\<close>

definition error_bytes :: "client_response \<Rightarrow> bytes \<Rightarrow> bool \<Rightarrow> bytes" where
  "error_bytes r time head_only =
     crlf_lines (error_lines (error_responses r) time) @ CRLF @
     (if head_only then [] else r_body (error_responses r))"

definition okay_bytes :: "os \<Rightarrow> flags \<Rightarrow> Client \<Rightarrow> ResolvedPath \<Rightarrow> Request \<Rightarrow> world \<Rightarrow> bytes" where
  "okay_bytes sys app_flags c rp req w =
     (let head_only = (req_method req = HTTP_HEAD); status = okay_status sys app_flags c rp req
      in if status \<noteq> RESP_200 then error_bytes status (time_received req) head_only
         else case path_type rp of
           IS_CGI \<Rightarrow> crlf_lines (cgi_lines (time_received req) (length (cgi_body sys c rp req))) @ CRLF @
             cgi_body sys c rp req
         | IS_DIR \<Rightarrow> crlf_lines (the_dir_lines sys rp req) @ CRLF @ (if head_only then [] else the_page sys req)
         | _ \<Rightarrow> crlf_lines (file_lines rp (time_received req) (the (os_gmtime sys (last_mod rp)))) @ CRLF @
             (if head_only then [] else stream_data w (rp_file_ptr rp)))"

section \<open>Lemmas\<close>

lemma error_lines_head: "error_lines r t \<noteq> [] \<and> hd (error_lines r t) = ''HTTP/1.0 '' @ status_line r"
  by (simp add: error_lines_def)

lemma ok_lines_head:
  "file_lines rp t m \<noteq> [] \<and> hd (file_lines rp t m) = ''HTTP/1.0 '' @ status_text RESP_200"
  "dir_lines t m n \<noteq> [] \<and> hd (dir_lines t m n) = ''HTTP/1.0 '' @ status_text RESP_200"
  "cgi_lines t n \<noteq> [] \<and> hd (cgi_lines t n) = ''HTTP/1.0 '' @ status_text RESP_200"
  by (simp_all add: file_lines_def dir_lines_def cgi_lines_def status_text_def)

lemma build_error_answers:
  assumes "is_error (resp_val c)" "CR \<notin> set (time_received req)" "os_alloc sys (w_next w)"
  shows "\<exists>c' w'. write_error_response sys c req w = (0, c', w') \<and> answered w' c' \<and>
           staged w' c' (error_bytes (resp_val c) (time_received req) (req_method req = HTTP_HEAD)) \<and>
           resp_val c' = resp_val c \<and> conn_part c' = conn_part c"
proof -
  obtain c' w' where b: "write_error_response sys c req w = (0, c', w')"
    using assms(1,3) by (auto simp: write_error_response_eq c_memstream_eq Let_def)
  have p: "is_error (resp_val c) \<and> CR \<notin> set (time_received req)" using assms(1,2) by simp
  have r: "resp_val c' = resp_val c" "conn_part c' = conn_part c"
    using write_error_response_frame [OF b] by simp_all
  have "answered w' c'"
    unfolding answered_def
    by (rule err.completes [OF p b]) (use assms(1) r in \<open>auto simp: error_lines_head is_error_iff status_text_def\<close>)
  with b r err.stages [OF p b] show ?thesis unfolding error_bytes_def by blast
qed

lemma build_okay_fails:
  fixes c :: Client
  assumes "build_by_type sys fl (c\<lparr>resp_val := RESP_200\<rparr>) rp req w = (-1, c1, w1)" "out_buf c1 = None"
    and "CR \<notin> set (time_received req)" "\<forall>i. os_alloc sys i" "is_error (resp_val c1)"
  shows "\<exists>c' w'. build_okay_response sys fl c rp req w = (0, c', w') \<and> answered w' c' \<and>
           staged w' c' (error_bytes (resp_val c1) (time_received req) (req_method req = HTTP_HEAD)) \<and>
           resp_val c' = resp_val c1 \<and> conn_part c' = conn_part c1"
proof -
  let ?c2 = "c1\<lparr>resp_val := (if resp_val c1 = RESP_200 then RESP_500 else resp_val c1),
                 output_length := 0, header_len := 0, body_len := 0, file_size := 0\<rparr>"
  have r: "resp_val ?c2 = resp_val c1" using assms(5) by (auto simp: is_error_iff)
  have f: "conn_part ?c2 = conn_part c1" by (simp add: conn_part_def)
  have "is_error (resp_val ?c2)" using r assms(5) by simp
  from build_error_answers [OF this assms(3), of sys w1] assms(4)
  obtain c' w' where "write_error_response sys ?c2 req w1 = (0, c', w')" "answered w' c'"
      "staged w' c' (error_bytes (resp_val c1) (time_received req) (req_method req = HTTP_HEAD))"
      "resp_val c' = resp_val c1" "conn_part c' = conn_part c1"
    unfolding r f by blast
  with assms(1,2) show ?thesis by (simp add: build_okay_response_def build_error_response_def Let_def)
qed

lemma build_okay_succeeds:
  fixes c :: Client
  assumes "build_by_type sys fl (c\<lparr>resp_val := RESP_200\<rparr>) rp req w = (0, c1, w1)"
  shows "build_okay_response sys fl c rp req w = (0, c1, w1)"
  using assms by (simp add: build_okay_response_def)

lemma cgi_run_of_resp [simp]: "cgi_run_of sys (c\<lparr>resp_val := r\<rparr>) rp req = cgi_run_of sys c rp req"
  by (simp add: cgi_run_of_def cgi_env_def)

lemma build_response_file_runs:
  assumes "file_ready sys (rp, req) w" "\<forall>i. os_alloc sys i"
  shows "\<exists>c' w'. build_response_file sys c rp req w = (0, c', w') \<and> resp_val c' = resp_val c"
proof -
  from assms(1) obtain h f m t where r: "rp_file_ptr rp = Some h"
      "w_streams w h = Some \<lparr>s_file = f, s_pos = 0\<rparr>" "mime_type rp = Some m"
      "os_gmtime sys (last_mod rp) = Some t" by (rule file_readyE)
  show ?thesis
    using build_response_file_ok [OF r, where c = c and req = req] assms(2) by simp
qed

lemma build_response_dir_runs:
  assumes "dir_ready sys (rp, req)" "\<forall>i. os_alloc sys i" "world_ok w"
  shows "\<exists>c' w'. build_response_dir sys c rp req w = (0, c', w') \<and> resp_val c' = resp_val c"
proof -
  from assms(1) obtain es t where r: "path_type rp = IS_DIR"
      "os_opendir sys (drop 1 (req_path req)) = Some es" "os_gmtime sys (last_mod rp) = Some t"
    by (rule dir_readyE)
  show ?thesis
    using build_response_dir_ok [OF r, where c = c and w = w] assms(2,3) by simp
qed

lemma build_response_dir_unreadable:
  "path_type rp = IS_DIR \<Longrightarrow> os_opendir sys (drop 1 (req_path req)) = None \<Longrightarrow>
     build_response_dir sys c rp req w = (-1, c\<lparr>resp_val := RESP_500\<rparr>, w)"
  by (simp add: build_response_dir_def check_resolve_args_def)

text \<open>The CGI builder succeeds exactly when the script does, once memory is available.\<close>

lemma cgi_assemble_runs:
  assumes "\<forall>i. os_alloc sys i"
  shows "\<exists>c' w'. cgi_assemble sys c req buf n w = (0, c', w') \<and> resp_val c' = resp_val c"
  using assms by (simp add: cgi_assemble_def c_malloc_def snprintf_def Let_def)

lemma cgi_collect_runs:
  fixes run :: cgi_run
  assumes "\<forall>i. os_alloc sys i" "world_ok w"
  defines "good \<equiv> cgi_stream (cgi_output run) \<noteq> None \<and> cgi_wait run = Exited 0"
  shows "\<exists>c' w'. cgi_collect sys c req rfd run w = (if good then 0 else -1, c', w') \<and>
     resp_val c' = (if good then resp_val c else RESP_500) \<and> (good \<or> out_buf c' = out_buf c)"
proof -
  obtain buf w1 where m: "c_malloc sys 8192 w = (Some buf, w1)"
    using assms(1) by (auto simp: c_malloc_def Let_def)
  note h = c_malloc_holds [OF assms(2) m]
  obtain r w2 where r: "cgi_read sys buf 0 8192 (cgi_output run) w1 = (r, w2)"
    by (cases "cgi_read sys buf 0 8192 (cgi_output run) w1")
  have some: "cgi_stream (cgi_output run) \<noteq> None \<Longrightarrow> r \<noteq> None"
    using cgi_read_succeeds [OF assms(1), of 0 8192 "cgi_output run" buf w1] r by simp
  have none: "r \<noteq> None \<Longrightarrow> cgi_stream (cgi_output run) \<noteq> None"
    using cgi_read_after [OF h(1) _ h(2), of "cgi_output run" sys] r by (auto simp: cgi_after_def)
  show ?thesis
  proof (cases r)
    case None
    with some m r show ?thesis by (auto simp: cgi_collect_def good_def)
  next
    case (Some a)
    with none have "cgi_stream (cgi_output run) \<noteq> None" by simp
    with Some m r show ?thesis
      using cgi_assemble_runs [OF assms(1), of c req "fst a" "snd a" "c_close rfd w2"]
      by (cases a) (auto simp: cgi_collect_def good_def Let_def)
  qed
qed

lemma build_response_cgi_runs:
  assumes "\<forall>i. os_alloc sys i" "world_ok w" "length (query_string rp) \<le> PATH_MAX" "flag_set fl C_FLAG"
  shows "\<exists>c' w'. build_response_cgi sys fl c rp req w = (if script_ok sys c rp req then 0 else -1, c', w') \<and>
     resp_val c' = (if script_ok sys c rp req then resp_val c else RESP_500) \<and>
     (script_ok sys c rp req \<or> out_buf c' = out_buf c)"
proof (cases "os_pipe sys")
  case None
  with assms(4) show ?thesis by (simp add: build_response_cgi_def check_resolve_args_def script_ok_def Let_def)
next
  case (Some p)
  let ?w1 = "c_close (snd p) (fault_if (PATH_MAX < length (cgi_script req)) StackOverrun (c_pipe (fst p, snd p) w))"
  have "world_ok ?w1" using assms(2) by (simp add: world_ok_pipe)
  from cgi_collect_runs [OF assms(1) this, where run = "cgi_run_of sys c rp req" and c = c and req = req and rfd = "fst p"]
    Some assms(3,4)
  show ?thesis
    by (cases p; cases "cgi_fork_ok (cgi_run_of sys c rp req)")
       (auto simp: build_response_cgi_def check_resolve_args_def script_ok_def cgi_run_of_def Let_def)
qed

text \<open>What each kind of path needs so that a whole response can be made.\<close>

definition path_ready :: "os \<Rightarrow> Client \<Rightarrow> ResolvedPath \<Rightarrow> Request \<Rightarrow> world \<Rightarrow> bool" where
  "path_ready sys c rp req w \<longleftrightarrow>
     world_ok w \<and> CR \<notin> set (time_received req) \<and>
     (case path_type rp of
        UNKNOWN \<Rightarrow> False
      | IS_FILE \<Rightarrow> file_ready sys (rp, req) w
      | IS_DIR \<Rightarrow> os_opendir sys (drop 1 (req_path req)) = None \<or> dir_ready sys (rp, req)
      | IS_CGI \<Rightarrow> cgi_ready sys c rp req w \<and> length (query_string rp) \<le> PATH_MAX)"

definition okay_ready :: "os \<Rightarrow> Client \<Rightarrow> ResolvedPath \<Rightarrow> Request \<Rightarrow> world \<Rightarrow> bool" where
  "okay_ready sys c rp req w \<longleftrightarrow> path_ready sys c rp req w \<and> (\<forall>i. os_alloc sys i)"

lemmas ready_defs = okay_ready_def path_ready_def

lemma cgi_ready_resp [simp]: "cgi_ready sys (c\<lparr>resp_val := r\<rparr>) rp req w = cgi_ready sys c rp req w"
  by (simp add: cgi_ready_def cgi_body_def)

lemma cgi_body_resp [simp]: "cgi_body sys (c\<lparr>resp_val := r\<rparr>) rp req = cgi_body sys c rp req"
  by (simp add: cgi_body_def)

lemma script_ok_resp [simp]: "script_ok sys (c\<lparr>resp_val := r\<rparr>) rp req = script_ok sys c rp req"
  by (simp add: script_ok_def)

lemma conn_part_resp [simp]: "conn_part (c\<lparr>resp_val := r\<rparr>) = conn_part c"
  by (simp add: conn_part_def)

lemma build_okay_by:
  fixes c :: Client
  assumes "build_by_type sys fl (c\<lparr>resp_val := RESP_200\<rparr>) rp req w = (0, c1, w1)"
    and "complete_response (status_text RESP_200) w1 c1" "resp_val c1 = RESP_200" "conn_part c1 = conn_part c"
    and "staged w1 c1 (okay_bytes sys fl c rp req w)"
  shows "\<exists>c' w'. build_okay_response sys fl c rp req w = (0, c', w') \<and> answered w' c' \<and>
           staged w' c' (okay_bytes sys fl c rp req w) \<and> resp_val c' = RESP_200 \<and> conn_part c' = conn_part c"
  using build_okay_succeeds [OF assms(1)] assms(2-5) by (simp add: answered_def)

abbreviation okay_outcome :: "os \<Rightarrow> flags \<Rightarrow> Client \<Rightarrow> ResolvedPath \<Rightarrow> Request \<Rightarrow> world \<Rightarrow> bool" where
  "okay_outcome sys fl c rp req w \<equiv>
     \<exists>c' w'. build_okay_response sys fl c rp req w = (0, c', w') \<and> answered w' c' \<and>
       staged w' c' (okay_bytes sys fl c rp req w) \<and>
       resp_val c' = okay_status sys fl c rp req \<and> conn_part c' = conn_part c"

lemma build_okay_file:
  assumes ready: "okay_ready sys c rp req w" and IS_FILE: "path_type rp = IS_FILE"
  shows "okay_outcome sys fl c rp req w"
proof -
  let ?c = "c\<lparr>resp_val := RESP_200\<rparr>"
  from ready IS_FILE have fr: "file_ready sys (rp, req) w" "\<forall>i. os_alloc sys i"
    by (simp_all add: ready_defs)
  from build_response_file_runs [OF fr, of ?c] obtain c1 w1
    where b: "build_response_file sys ?c rp req w = (0, c1, w1)" "resp_val c1 = RESP_200" by auto
  have "complete_response (status_text RESP_200) w1 c1"
    by (rule fileb.completes [of sys "(rp, req)" w ?c]) (use fr b ok_lines_head(1) in simp_all)
  moreover have "staged w1 c1 (okay_bytes sys fl c rp req w)"
    using build_response_file_stages(1) [OF fr(1) b(1)] IS_FILE by (simp add: okay_bytes_def okay_status_def Let_def)
  ultimately show ?thesis
    using build_okay_by [of sys fl c rp req w c1 w1] b IS_FILE build_response_file_frame [OF b(1)]
    by (simp add: build_by_type_def okay_status_def)
qed

lemma build_okay_dir:
  assumes ready: "okay_ready sys c rp req w" and out: "out_buf c = None" and IS_DIR: "path_type rp = IS_DIR"
  shows "okay_outcome sys fl c rp req w"
proof -
  let ?c = "c\<lparr>resp_val := RESP_200\<rparr>"
  have al: "\<forall>i. os_alloc sys i" and ok: "world_ok w" and cr: "CR \<notin> set (time_received req)"
    using ready by (simp_all add: ready_defs)
  show ?thesis
  proof (cases "os_opendir sys (drop 1 (req_path req))")
    case None
    with IS_DIR have "build_by_type sys fl ?c rp req w = (-1, ?c\<lparr>resp_val := RESP_500\<rparr>, w)"
      by (simp add: build_by_type_def build_response_dir_unreadable)
    from build_okay_fails [OF this _ cr al] out None IS_DIR show ?thesis
      by (simp add: is_error_iff okay_status_def okay_bytes_def)
  next
    case (Some es)
    with ready IS_DIR have dr: "dir_ready sys (rp, req)" by (simp add: ready_defs)
    from build_response_dir_runs [OF this al ok, of ?c] obtain c1 w1
      where b: "build_response_dir sys ?c rp req w = (0, c1, w1)" "resp_val c1 = RESP_200" by auto
    have "complete_response (status_text RESP_200) w1 c1"
      by (rule dirb.completes [of sys "(rp, req)" w ?c]) (use dr ok b ok_lines_head(2) in simp_all)
    moreover have "staged w1 c1 (okay_bytes sys fl c rp req w)"
      using build_response_dir_stages(1) [OF dr ok b(1)] IS_DIR Some by (simp add: okay_bytes_def okay_status_def Let_def)
    ultimately show ?thesis
      using build_okay_by [of sys fl c rp req w c1 w1] b IS_DIR Some build_response_dir_frame [OF b(1)]
      by (simp add: build_by_type_def okay_status_def)
  qed
qed

lemma build_okay_cgi:
  assumes ready: "okay_ready sys c rp req w" and out: "out_buf c = None" and IS_CGI: "path_type rp = IS_CGI"
  shows "okay_outcome sys fl c rp req w"
proof (cases "flag_set fl C_FLAG")
  case False
  let ?c = "c\<lparr>resp_val := RESP_200\<rparr>"
  from False IS_CGI have "build_by_type sys fl ?c rp req w = (-1, ?c\<lparr>resp_val := RESP_501\<rparr>, w)"
    by (simp add: build_by_type_def build_response_cgi_def check_resolve_args_def)
  from build_okay_fails [OF this] ready out False IS_CGI show ?thesis
    by (auto simp: is_error_iff okay_status_def ready_defs okay_bytes_def)
next
  case True
  let ?c = "c\<lparr>resp_val := RESP_200\<rparr>" and ?s = "script_ok sys c rp req"
  have al: "\<forall>i. os_alloc sys i" and ok: "world_ok w" and cr: "CR \<notin> set (time_received req)"
    and cg: "cgi_ready sys c rp req w" "length (query_string rp) \<le> PATH_MAX"
    using ready IS_CGI by (simp_all add: ready_defs)
  from build_response_cgi_runs [OF al ok cg(2) True, of ?c req] obtain c1 w1
    where b: "build_response_cgi sys fl ?c rp req w = (if ?s then 0 else -1, c1, w1)"
      "resp_val c1 = (if ?s then RESP_200 else RESP_500)" "?s \<or> out_buf c1 = None" using out by auto
  have fr: "conn_part c1 = conn_part c" using build_response_cgi_frame [OF b(1)] by simp
  show ?thesis
  proof (cases ?s)
    case s: True
    have "complete_response (status_text RESP_200) w1 c1"
      by (rule cgib.completes [of sys ?c "(fl, rp, req)" w]) (use cg b s ok_lines_head(3) in simp_all)
    moreover have "staged w1 c1 (okay_bytes sys fl c rp req w)"
      using cgib.stages [of sys ?c "(fl, rp, req)" w c1 w1] cg b s IS_CGI True
      by (simp add: okay_bytes_def okay_status_def Let_def)
    ultimately show ?thesis
      using build_okay_by [of sys fl c rp req w c1 w1] b IS_CGI True s fr
      by (simp add: build_by_type_def okay_status_def)
  next
    case s: False
    have "build_by_type sys fl ?c rp req w = (-1, c1, w1)"
      using b s IS_CGI by (simp add: build_by_type_def)
    from build_okay_fails [OF this _ cr al] b s fr IS_CGI True show ?thesis
      by (simp add: is_error_iff okay_status_def okay_bytes_def)
  qed
qed

text \<open>A response is staged on every path, and its code is the one of the specification.\<close>

lemma build_okay_response_answers:
  assumes "okay_ready sys c rp req w" "out_buf c = None"
  shows "okay_outcome sys fl c rp req w"
proof (cases "path_type rp")
  case UNKNOWN
  with assms(1) show ?thesis by (simp add: ready_defs)
qed (rule build_okay_file build_okay_dir build_okay_cgi; use assms in simp)+

section \<open>Properties\<close>

text \<open>
  C19: \<^verbatim>\<open>build_okay_response\<close> always leaves a response.  For a file, a directory or a script that
  is ready, it returns 0, the staged bytes are those of the specification, the response code
  is the one the specification derives from the system's answers (200, 500 when the directory
  cannot be read or the script fails, 501 when CGI is off), and the rest of the connection is
  untouched.
\<close>

theorem build_okay_stages:
  assumes "okay_ready sys c rp req w" "out_buf c = None"
  shows "\<exists>c' w'. build_okay_response sys fl c rp req w = (0, c', w') \<and>
     staged w' c' (okay_bytes sys fl c rp req w) \<and> resp_val c' = okay_status sys fl c rp req \<and>
     conn_part c' = conn_part c"
  using build_okay_response_answers [OF assms, of fl] by blast

theorem build_okay_stages_witness:
  "\<exists>c' w'. build_okay_response sample_os 0 sample_Client sample_dir_rp (sample_request ''/nodir'') empty_world = (0, c', w') \<and>
     resp_val c' = RESP_500"
proof -
  have r: "okay_ready sample_os sample_Client sample_dir_rp (sample_request ''/nodir'') empty_world"
    by (simp add: ready_defs sample_dir_rp_def sample_os_def)
  have "okay_status sample_os 0 sample_Client sample_dir_rp (sample_request ''/nodir'') = RESP_500"
    by (simp add: okay_status_def sample_dir_rp_def sample_os_def)
  with build_okay_stages [OF r, of 0] show ?thesis by (auto simp: sample_Client_def)
qed

text \<open>
  C28: \<^verbatim>\<open>build_error_response\<close> on every branch: without a client or a request, or for a code
  that is no error, it returns -1 and does nothing; else it stages the error page for the
  code, without the body for \<^verbatim>\<open>HEAD\<close>, or returns -1 when memory is short.
\<close>

theorem build_error_response_branches:
  "build_error_response sys None req_opt w = (-1, None, w) \<and>
   build_error_response sys (Some c) None w = (-1, Some c, w) \<and>
   (\<not> is_error (resp_val c) \<longrightarrow> build_error_response sys (Some c) (Some req) w = (-1, Some c, w)) \<and>
   (is_error (resp_val c) \<longrightarrow> CR \<notin> set (time_received req) \<longrightarrow>
      (\<exists>rc c' w'. build_error_response sys (Some c) (Some req) w = (rc, Some c', w') \<and>
         (if os_alloc sys (w_next w)
          then rc = 0 \<and> staged w' c' (error_bytes (resp_val c) (time_received req) (req_method req = HTTP_HEAD))
          else rc = -1 \<and> c' = c)))"
proof -
  have "\<exists>rc c' w'. build_error_response sys (Some c) (Some req) w = (rc, Some c', w') \<and>
         (if os_alloc sys (w_next w)
          then rc = 0 \<and> staged w' c' (error_bytes (resp_val c) (time_received req) (req_method req = HTTP_HEAD))
          else rc = -1 \<and> c' = c)"
    if "is_error (resp_val c)" "CR \<notin> set (time_received req)"
  proof (cases "os_alloc sys (w_next w)")
    case True
    from build_error_answers [OF that True] True show ?thesis by (auto simp: build_error_response_def)
  next
    case False
    with that show ?thesis
      by (simp add: build_error_response_def write_error_response_eq c_memstream_eq Let_def)
  qed
  then show ?thesis
    by (auto simp: build_error_response_def write_error_response_def is_error_def not_le)
qed

theorem build_error_response_branches_witness:
  "fst (build_error_response sample_os (Some (sample_Client\<lparr>resp_val := RESP_404\<rparr>)) (Some (sample_request ''/x'')) empty_world) = 0"
  using build_error_response_branches [where sys = sample_os and c = "sample_Client\<lparr>resp_val := RESP_404\<rparr>"
      and req = "sample_request ''/x''" and w = empty_world and req_opt = None]
  by (auto simp: is_error_iff)

end
