(* ===== verification/Connections.thy ===== *)
theory Connections
  imports Okay_Response "HOL-Library.Multiset"
begin

text \<open>
  \<^verbatim>\<open>client_conn/connections.c\<close>: the two parallel arrays \<^verbatim>\<open>pfds\<close> and \<^verbatim>\<open>clients\<close> with their fill
  count and capacity.  Each array is a heap block, known by its identifier; what its entries hold
  is kept in a list beside it, so the block's own bytes are not used.  An entry that was never
  assigned is \<open>None\<close>.  The first entries belong to
  the listening sockets, which have a \<^verbatim>\<open>pollfd\<close> but no \<^verbatim>\<open>Client\<close>.  The theory shows that both
  operations keep the arrays in step, and that seen from outside the table is a multiset of
  connections: adding inserts one, closing removes exactly the one at the index, although the
  last entry is moved into its place.  The locale \<open>conn_table\<close> states that view as an interface.
\<close>

section \<open>Definitions\<close>

definition POLLIN :: "16 word" where "POLLIN = 1"
definition POLLOUT :: "16 word" where "POLLOUT = 4"
definition POLLERR :: "16 word" where "POLLERR = 8"
definition POLLHUP :: "16 word" where "POLLHUP = 16"
definition POLLNVAL :: "16 word" where "POLLNVAL = 32"

record pollfd =
  pfd_fd :: int
  pfd_events :: "16 word"
  pfd_revents :: "16 word"

record table =
  t_pfds_at :: nat
  t_clients_at :: nat
  t_pfds :: "pollfd option list"
  t_clients :: "Client option list"
  t_count :: nat
  t_size :: nat

text \<open>A run of the process: it goes on with a value, or has left by \<^verbatim>\<open>exit(EXIT_FAILURE)\<close>.\<close>

type_synonym 'a run = "world + 'a"

text \<open>Memory that was never written; only the fields the code assigns are ever read.\<close>

definition blank_Client :: Client where
  "blank_Client =
     \<lparr>in_buf = None, out_buf = None, file_ptr = None, file_size = 0, body_sent = 0,
      input_length = 0, input_capacity = 0, output_length = 0, output_capacity = 0,
      output_sent = 0, header_len = 0, body_len = 0, fd = 0, state = READING,
      resp_val = NUM_CLIENT_RESP, timestamp = [], client_addr = []\<rparr>"

text \<open>The assignments to a new slot; \<^verbatim>\<open>timestamp\<close> and \<^verbatim>\<open>client_addr\<close> keep what was there.\<close>

definition init_client :: "int \<Rightarrow> Client \<Rightarrow> Client" where
  "init_client newfd old =
     old\<lparr>fd := newfd, state := READING, in_buf := None, input_capacity := 0, input_length := 0,
         out_buf := None, output_capacity := 0, output_length := 0, output_sent := 0,
         header_len := 0, body_len := 0, body_sent := 0, file_size := 0, file_ptr := None,
         resp_val := NUM_CLIENT_RESP\<rparr>"

definition old_client :: "table \<Rightarrow> nat \<Rightarrow> Client" where
  "old_client t i = (case t_clients t ! i of Some c \<Rightarrow> c | None \<Rightarrow> blank_Client)"

text \<open>
  \<^verbatim>\<open>sizeof(struct pollfd)\<close> and \<^verbatim>\<open>sizeof(Client)\<close> on a system with 64-bit pointers: three pointers,
  nine 64-bit numbers, three 32-bit ones, 32 and 46 characters, rounded up to a multiple of 8.
\<close>

definition SIZEOF_POLLFD :: nat where "SIZEOF_POLLFD = 8"

definition SIZEOF_CLIENT :: nat where "SIZEOF_CLIENT = 192"

text \<open>The arrays double when they are full; the process leaves when memory is short.\<close>

definition grow_lists :: "os \<Rightarrow> table \<Rightarrow> world \<Rightarrow> (table \<times> world) run" where
  "grow_lists sys t w =
     (if t_count t = t_size t then
        let n = t_size t * 2;
            w0 = fault_if (INT_MAX < n) SignedOverflow w
        in case c_realloc sys (Some (t_pfds_at t)) (SIZEOF_POLLFD * n) w0 of
             (None, w1) \<Rightarrow> Inl w1
           | (Some pfd_tmp, w1) \<Rightarrow>
               (case c_realloc sys (Some (t_clients_at t)) (SIZEOF_CLIENT * n) w1 of
                  (None, w2) \<Rightarrow> Inl w2
                | (Some clients_tmp, w2) \<Rightarrow>
                    Inr (t\<lparr>t_pfds_at := pfd_tmp, t_clients_at := clients_tmp,
                           t_pfds := t_pfds t @ replicate (n - t_size t) None,
                           t_clients := t_clients t @ replicate (n - t_size t) None,
                           t_size := n\<rparr>, w2))
      else Inr (t, w))"

definition add_to_lists :: "os \<Rightarrow> int \<Rightarrow> table \<Rightarrow> world \<Rightarrow> (nat \<times> table \<times> world) run" where
  "add_to_lists sys newfd t w =
     (case grow_lists sys t w of
        Inl w1 \<Rightarrow> Inl w1
      | Inr (t1, w1) \<Rightarrow>
          let index = t_count t1
          in Inr (index,
               t1\<lparr>t_pfds := (t_pfds t1)[index := Some \<lparr>pfd_fd = newfd, pfd_events = POLLIN, pfd_revents = 0\<rparr>],
                  t_clients := (t_clients t1)[index := Some (init_client newfd (old_client t1 index))],
                  t_count := Suc index\<rparr>, w1))"

text \<open>What \<^verbatim>\<open>close_conn\<close> releases: the socket, the stream and the two buffers.\<close>

definition release_client :: "Client \<Rightarrow> world \<Rightarrow> world" where
  "release_client c w =
     (let w1 = c_close (fd c) w;
          w2 = (case file_ptr c of Some h \<Rightarrow> c_fclose h w1 | None \<Rightarrow> w1)
      in c_free (out_buf c) (c_free (in_buf c) w2))"

definition close_conn :: "nat \<Rightarrow> table \<Rightarrow> world \<Rightarrow> table \<times> world" where
  "close_conn i t w =
     (if i = 0 then (t, w)
      else if length (t_clients t) \<le> i \<or> t_clients t ! i = None \<or> t_count t \<le> i
      then (t, raise_fault (SlotOutOfRange i) w)
      else
        let w1 = release_client (the (t_clients t ! i)) w;
            last = t_count t - 1;
            t1 = (if i \<noteq> last
                  then t\<lparr>t_pfds := (t_pfds t)[i := t_pfds t ! last],
                         t_clients := (t_clients t)[i := t_clients t ! last]\<rparr>
                  else t)
        in (t1\<lparr>t_count := last\<rparr>, w1))"

text \<open>
  The connections of a table with \<open>nl\<close> listener slots, in the order of their indices, and its
  invariant: the arrays have the capacity's length, every listener slot has a \<^verbatim>\<open>pollfd\<close>, and every
  further slot up to the count has a \<^verbatim>\<open>pollfd\<close> and a \<^verbatim>\<open>Client\<close> for the same descriptor.
\<close>

definition conns :: "nat \<Rightarrow> table \<Rightarrow> (pollfd \<times> Client) list" where
  "conns nl t =
     map (\<lambda>i. (the (t_pfds t ! i), the (t_clients t ! i))) [nl..<t_count t]"

definition slot_ok :: "table \<Rightarrow> nat \<Rightarrow> bool" where
  "slot_ok t i \<longleftrightarrow>
     (case (t_pfds t ! i, t_clients t ! i) of
        (Some p, Some c) \<Rightarrow> pfd_fd p = fd c
      | _ \<Rightarrow> False)"

definition table_ok :: "nat \<Rightarrow> table \<Rightarrow> bool" where
  "table_ok nl t \<longleftrightarrow>
     0 < nl \<and> nl \<le> t_count t \<and> t_count t \<le> t_size t \<and>
     length (t_pfds t) = t_size t \<and> length (t_clients t) = t_size t \<and>
     (\<forall>i<nl. t_pfds t ! i \<noteq> None) \<and> (\<forall>i\<in>{nl..<t_count t}. slot_ok t i)"

section \<open>The invariant\<close>

lemma slot_okE:
  assumes "slot_ok t i"
  obtains p c where "t_pfds t ! i = Some p" "t_clients t ! i = Some c" "pfd_fd p = fd c"
  using assms by (auto simp: slot_ok_def split: option.splits)

lemma slot_ok_cong:
  "t_pfds t' ! i = t_pfds t ! j \<Longrightarrow> t_clients t' ! i = t_clients t ! j \<Longrightarrow> slot_ok t' i = slot_ok t j"
  by (simp add: slot_ok_def)

lemma grow_lists_ok:
  assumes "grow_lists sys t w = Inr (t', w')" "table_ok nl t"
  shows "table_ok nl t'" "t_count t' = t_count t" "t_count t' < t_size t'"
    "i < t_size t \<Longrightarrow> t_pfds t' ! i = t_pfds t ! i \<and> t_clients t' ! i = t_clients t ! i"
proof -
  have pos: "0 < t_size t" and le: "nl \<le> t_count t" "t_count t \<le> t_size t"
    using assms(2) by (auto simp: table_ok_def)
  show same: "i < t_size t \<Longrightarrow> t_pfds t' ! i = t_pfds t ! i \<and> t_clients t' ! i = t_clients t ! i" for i
    using assms by (auto simp: grow_lists_def Let_def table_ok_def nth_append
        split: if_splits option.splits prod.splits)
  have shape: "length (t_pfds t') = t_size t' \<and> length (t_clients t') = t_size t' \<and> t_size t \<le> t_size t' \<and>
      t_count t' = t_count t \<and> t_count t' < t_size t'"
    using assms pos le by (auto simp: grow_lists_def Let_def table_ok_def
        split: if_splits option.splits prod.splits)
  show "t_count t' = t_count t" "t_count t' < t_size t'" using shape by auto
  have "slot_ok t' j" if "j \<in> {nl..<t_count t}" for j
    using that assms(2) same [of j] le by (auto simp: table_ok_def slot_ok_def)
  then show "table_ok nl t'"
    using shape assms(2) same le by (auto simp: table_ok_def)
qed

lemma add_to_lists_ok:
  assumes "add_to_lists sys newfd t w = Inr (index, t', w')" "table_ok nl t"
  shows "table_ok nl t'" "index = t_count t" "t_count t' = Suc (t_count t)"
    "\<exists>old. conns nl t' = conns nl t @ [(\<lparr>pfd_fd = newfd, pfd_events = POLLIN, pfd_revents = 0\<rparr>, init_client newfd old)]"
proof -
  obtain t1 w1 where g: "grow_lists sys t w = Inr (t1, w1)"
    and t': "t' = t1\<lparr>t_pfds := (t_pfds t1)[t_count t1 := Some \<lparr>pfd_fd = newfd, pfd_events = POLLIN, pfd_revents = 0\<rparr>],
                  t_clients := (t_clients t1)[t_count t1 := Some (init_client newfd (old_client t1 (t_count t1)))],
                  t_count := Suc (t_count t1)\<rparr>" and ix: "index = t_count t1"
    using assms(1) by (auto simp: add_to_lists_def Let_def split: sum.splits)
  note gl = grow_lists_ok [OF g assms(2)]
  have le: "nl \<le> t_count t" "t_count t \<le> t_size t" using assms(2) by (auto simp: table_ok_def)
  show "index = t_count t" "t_count t' = Suc (t_count t)" by (simp_all add: ix t' gl(2))
  have new: "t_pfds t' ! t_count t1 = Some \<lparr>pfd_fd = newfd, pfd_events = POLLIN, pfd_revents = 0\<rparr>"
      "t_clients t' ! t_count t1 = Some (init_client newfd (old_client t1 (t_count t1)))"
    using gl(1,3) by (simp_all add: t' table_ok_def)
  have "slot_ok t' (t_count t1)" unfolding slot_ok_def new by (simp add: init_client_def)
  moreover have "slot_ok t' i = slot_ok t1 i" if "i < t_count t1" for i
    using that by (intro slot_ok_cong) (simp_all add: t')
  moreover have "t_pfds t' ! i = t_pfds t1 ! i" if "i < nl" for i
    using that le gl(2) by (simp add: t')
  moreover have "t_count t' = Suc (t_count t1)" "t_size t' = t_size t1"
    "length (t_pfds t') = length (t_pfds t1)" "length (t_clients t') = length (t_clients t1)"
    by (simp_all add: t')
  ultimately show "table_ok nl t'"
    using gl(1,3) by (auto simp: table_ok_def less_Suc_eq)
  have "conns nl t' = conns nl t @ [(\<lparr>pfd_fd = newfd, pfd_events = POLLIN, pfd_revents = 0\<rparr>,
      init_client newfd (old_client t1 (t_count t1)))]"
    using le gl new by (auto simp: conns_def t')
  then show "\<exists>old. conns nl t' = conns nl t @ [(\<lparr>pfd_fd = newfd, pfd_events = POLLIN, pfd_revents = 0\<rparr>, init_client newfd old)]"
    by blast
qed

text \<open>Closing removes exactly the connection at the index.\<close>

lemma close_conn_eq:
  assumes "table_ok nl t" "nl \<le> i" "i < t_count t"
  obtains p c where "t_pfds t ! i = Some p" "t_clients t ! i = Some c" "pfd_fd p = fd c"
    "close_conn i t w =
       ((if i \<noteq> t_count t - 1
         then t\<lparr>t_pfds := (t_pfds t)[i := t_pfds t ! (t_count t - 1)],
                t_clients := (t_clients t)[i := t_clients t ! (t_count t - 1)], t_count := t_count t - 1\<rparr>
         else t\<lparr>t_count := t_count t - 1\<rparr>), release_client c w)"
proof -
  have "slot_ok t i" using assms by (simp add: table_ok_def)
  then obtain p c where "t_pfds t ! i = Some p" "t_clients t ! i = Some c" "pfd_fd p = fd c"
    by (rule slot_okE)
  with assms show thesis
    by (intro that [of p c]) (auto simp: close_conn_def table_ok_def Let_def)
qed

lemma close_conn_table:
  assumes "table_ok nl t" "nl \<le> i" "i < t_count t" "close_conn i t w = (t', w')"
  shows "table_ok nl t'" "t_count t' = t_count t - 1" "t_size t' = t_size t"
    "\<And>j. j < t_count t - 1 \<Longrightarrow> t_pfds t' ! j = t_pfds t ! (if j = i then t_count t - 1 else j) \<and>
       t_clients t' ! j = t_clients t ! (if j = i then t_count t - 1 else j)"
proof -
  have len: "length (t_pfds t) = t_size t" "length (t_clients t) = t_size t" "t_count t \<le> t_size t"
    using assms(1) by (auto simp: table_ok_def)
  from assms(1-3) obtain p c where e: "close_conn i t w =
       ((if i \<noteq> t_count t - 1
         then t\<lparr>t_pfds := (t_pfds t)[i := t_pfds t ! (t_count t - 1)],
                t_clients := (t_clients t)[i := t_clients t ! (t_count t - 1)], t_count := t_count t - 1\<rparr>
         else t\<lparr>t_count := t_count t - 1\<rparr>), release_client c w)"
    by (rule close_conn_eq [where w = w]) blast
  have t': "t' = (if i \<noteq> t_count t - 1
         then t\<lparr>t_pfds := (t_pfds t)[i := t_pfds t ! (t_count t - 1)],
                t_clients := (t_clients t)[i := t_clients t ! (t_count t - 1)], t_count := t_count t - 1\<rparr>
         else t\<lparr>t_count := t_count t - 1\<rparr>)"
    using assms(4) unfolding e by simp
  show nth: "t_pfds t' ! j = t_pfds t ! (if j = i then t_count t - 1 else j) \<and>
       t_clients t' ! j = t_clients t ! (if j = i then t_count t - 1 else j)" if "j < t_count t - 1" for j
    using that len assms(3) by (auto simp: t' nth_list_update)
  have shape: "t_count t' = t_count t - 1" "t_size t' = t_size t"
    "length (t_pfds t') = length (t_pfds t)" "length (t_clients t') = length (t_clients t)"
    by (simp_all add: t')
  then show "t_count t' = t_count t - 1" "t_size t' = t_size t" by simp_all
  have "slot_ok t' j = slot_ok t (if j = i then t_count t - 1 else j)" if "j < t_count t - 1" for j
    using nth [OF that] by (intro slot_ok_cong) auto
  then have "\<forall>j\<in>{nl..<t_count t'}. slot_ok t' j"
    using assms(1-3) by (auto simp: shape table_ok_def)
  moreover have "\<forall>j<nl. t_pfds t' ! j \<noteq> None"
    using assms(1-3) nth by (auto simp: table_ok_def split: if_splits)
  ultimately show "table_ok nl t'" using assms(1-3) shape by (auto simp: table_ok_def)
qed

text \<open>A list whose last element replaces the one at an index, without its end, loses that one.\<close>

lemma mset_swap_remove:
  assumes "i < length xs"
  shows "add_mset (xs ! i) (mset (butlast (xs[i := last xs]))) = mset xs"
proof -
  have ne: "xs \<noteq> []" using assms by auto
  have "last (xs[i := last xs]) = last xs"
    using assms ne by (auto simp: last_conv_nth nth_list_update)
  then have "xs[i := last xs] = butlast (xs[i := last xs]) @ [last xs]"
    using ne by (metis append_butlast_last_id list_update_nonempty)
  then have "mset (xs[i := last xs]) = add_mset (last xs) (mset (butlast (xs[i := last xs])))"
    by (metis add_mset_add_single mset_append mset_single_iff_right)
  moreover have "mset (xs[i := last xs]) = add_mset (last xs) (mset xs - {#xs ! i#})"
    using assms by (simp add: mset_update)
  ultimately have "mset (butlast (xs[i := last xs])) = mset xs - {#xs ! i#}" by simp
  then show ?thesis using assms by simp
qed

lemma conns_close:
  assumes "table_ok nl t" "nl \<le> i" "i < t_count t" "close_conn i t w = (t', w')"
  shows "conns nl t' = butlast ((conns nl t)[i - nl := last (conns nl t)])"
proof (rule nth_equalityI)
  note cl = close_conn_table [OF assms]
  show "length (conns nl t') = length (butlast ((conns nl t)[i - nl := last (conns nl t)]))"
    using assms(2,3) by (simp add: conns_def cl(2))
  fix k assume "k < length (conns nl t')"
  then have k: "nl + k < t_count t - 1" by (simp add: conns_def cl(2))
  then have "nl < t_count t" by simp
  then have "last (conns nl t) = (the (t_pfds t ! (t_count t - 1)), the (t_clients t ! (t_count t - 1)))"
    by (simp add: conns_def last_map)
  then show "conns nl t' ! k = butlast ((conns nl t)[i - nl := last (conns nl t)]) ! k"
    using k cl(4) [OF k] assms(2) by (auto simp: conns_def nth_butlast nth_list_update cl(2))
qed

section \<open>The table as an interface\<close>

text \<open>
  The view of a client of the table: a state with an invariant, a number of slots of which the
  first \<open>first\<close> are fixed, a multiset of members, and the removal of the member at an index,
  which also releases it.
\<close>

locale conn_table =
  fixes inv :: "'t \<Rightarrow> bool" and count :: "'t \<Rightarrow> nat" and first :: nat
    and members :: "'t \<Rightarrow> 'c multiset" and entry :: "'t \<Rightarrow> nat \<Rightarrow> 'c"
    and remove :: "nat \<Rightarrow> 't \<Rightarrow> 't" and released :: "'t \<Rightarrow> 'c \<Rightarrow> bool"
  assumes size_members: "inv t \<Longrightarrow> size (members t) + first = count t"
    and remove_inv: "inv t \<Longrightarrow> first \<le> i \<Longrightarrow> i < count t \<Longrightarrow> inv (remove i t)"
    and remove_members: "inv t \<Longrightarrow> first \<le> i \<Longrightarrow> i < count t \<Longrightarrow>
      add_mset (entry t i) (members (remove i t)) = members t"
    and remove_releases: "inv t \<Longrightarrow> first \<le> i \<Longrightarrow> i < count t \<Longrightarrow> released (remove i t) (entry t i)"
    and remove_keeps: "inv t \<Longrightarrow> first \<le> i \<Longrightarrow> i < count t \<Longrightarrow> released t c \<Longrightarrow> released (remove i t) c"
begin

lemma remove_count: "inv t \<Longrightarrow> first \<le> i \<Longrightarrow> i < count t \<Longrightarrow> Suc (count (remove i t)) = count t"
  using size_members [of t] size_members [of "remove i t"] remove_inv [of t i] remove_members [of t i]
  by (metis add_Suc size_add_mset)

text \<open>Removing at the first free index until none is left releases every member.\<close>

lemma drain:
  assumes "inv t" "count t = first + n"
  shows "inv ((remove first ^^ n) t) \<and> members ((remove first ^^ n) t) = {#} \<and>
     (\<forall>c. c \<in># members t \<or> released t c \<longrightarrow> released ((remove first ^^ n) t) c)"
  using assms
proof (induction n arbitrary: t)
  case 0
  then have "size (members t) = 0" using size_members [of t] by simp
  with 0 show ?case by simp
next
  case (Suc n)
  let ?t = "remove first t"
  have i: "first < count t" using Suc.prems by simp
  have inv: "inv ?t" and c: "count ?t = first + n"
    using Suc.prems i remove_inv [of t first] remove_count [of t first] by auto
  have "released ?t d \<or> d \<in># members ?t" if "d \<in># members t \<or> released t d" for d
    using that remove_releases [OF Suc.prems(1) order_refl i] remove_keeps [OF Suc.prems(1) order_refl i]
    by (auto simp: remove_members [OF Suc.prems(1) order_refl i, symmetric])
  then show ?case
    using Suc.IH [OF inv c] by (simp add: funpow_swap1) (metis funpow_swap1)
qed

end

lemma release_client_fds: "w_fds (release_client c w) = (w_fds w)(fd c := False)"
  by (simp add: release_client_def Let_def world_simps split: option.split)

lemma mset_conns_close:
  assumes "table_ok nl t" "nl \<le> i" "i < t_count t"
  shows "add_mset (conns nl t ! (i - nl)) (mset (conns nl (fst (close_conn i t w)))) = mset (conns nl t)"
proof -
  obtain t' w' where c: "close_conn i t w = (t', w')" by (cases "close_conn i t w")
  have "i - nl < length (conns nl t)" using assms(2,3) by (simp add: conns_def)
  from mset_swap_remove [OF this] conns_close [OF assms c] c show ?thesis by simp
qed

lemma close_conn_world:
  assumes "table_ok nl t" "nl \<le> i" "i < t_count t"
  shows "snd (close_conn i t w) = release_client (snd (conns nl t ! (i - nl))) w"
  using assms by (rule close_conn_eq [where w = w]) (use assms in \<open>auto simp: conns_def\<close>)

interpretation ct: conn_table
  "\<lambda>x. table_ok nl (fst x)" "\<lambda>x. t_count (fst x)" nl "\<lambda>x. mset (conns nl (fst x))"
  "\<lambda>x i. conns nl (fst x) ! (i - nl)" "\<lambda>i x. close_conn i (fst x) (snd x)"
  "\<lambda>x c. \<not> w_fds (snd x) (fd (snd c))" for nl :: nat
proof (unfold_locales, goal_cases)
  case (1 x)
  then show ?case by (simp add: table_ok_def conns_def)
next
  case (2 x i)
  then show ?case using close_conn_table(1) by (metis prod.collapse)
next
  case (3 x i)
  then show ?case by (rule mset_conns_close)
next
  case (4 x i)
  then show ?case by (simp add: close_conn_world release_client_fds)
next
  case (5 x i c)
  then show ?case by (simp add: close_conn_world release_client_fds)
qed

section \<open>Properties\<close>

text \<open>
  C20: \<^verbatim>\<open>close_conn\<close> refines the removal of one element from the multiset of connections.  On a
  well-formed table and the index of a connection, the table stays well-formed, exactly that
  connection leaves, every other one keeps its \<^verbatim>\<open>pollfd\<close> and its \<^verbatim>\<open>Client\<close>, and its descriptor is
  closed while no other descriptor changes.
\<close>

theorem close_conn_removes:
  assumes "table_ok nl t" "nl \<le> i" "i < t_count t"
  shows "let (t', w') = close_conn i t w; gone = conns nl t ! (i - nl)
     in table_ok nl t' \<and> mset (conns nl t) = add_mset gone (mset (conns nl t')) \<and>
        w_fds w' = (w_fds w)(fd (snd gone) := False)"
proof -
  obtain t' w' where c: "close_conn i t w = (t', w')" by (cases "close_conn i t w")
  show ?thesis
    using close_conn_table(1) [OF assms c] mset_conns_close [OF assms, of w] close_conn_world [OF assms, of w]
    by (simp add: c release_client_fds)
qed

text \<open>A table with one listener and two connections, for examples.\<close>

definition sample_table :: table where
  "sample_table =
     \<lparr>t_pfds_at = 0, t_clients_at = 1,
      t_pfds = map (\<lambda>d. Some \<lparr>pfd_fd = d, pfd_events = POLLIN, pfd_revents = 0\<rparr>) [3, 5, 6] @ [None],
      t_clients = [None, Some sample_Client, Some (sample_Client\<lparr>fd := 6\<rparr>), None], t_count = 3, t_size = 4\<rparr>"

lemma all_less_Suc: "(\<forall>i<Suc n. P i) = (P n \<and> (\<forall>i<n. P i))"
  using less_Suc_eq by auto

lemma sample_table_ok: "table_ok 1 sample_table"
proof -
  have "{1..<3} = {1, 2 :: nat}" by auto
  then show ?thesis
    by (simp add: table_ok_def sample_table_def slot_ok_def all_less_Suc sample_Client_def)
qed

theorem close_conn_removes_witness:
  "let (t', w') = close_conn 1 sample_table empty_world in table_ok 1 t' \<and> t_count t' = 2 \<and> \<not> w_fds w' 5"
proof -
  have i: "(1 :: nat) < t_count sample_table" by (simp add: sample_table_def)
  have u: "[1..<3] = [1, 2 :: nat]" by (simp add: upt_rec)
  then have "fd (snd (conns 1 sample_table ! 0)) = 5"
    by (simp add: conns_def sample_table_def sample_Client_def)
  with close_conn_removes [OF sample_table_ok order_refl i, of empty_world]
    close_conn_table(2) [OF sample_table_ok order_refl i, of empty_world]
  show ?thesis by (auto simp: Let_def sample_table_def split: prod.splits)
qed

text \<open>
  \<^verbatim>\<open>add_to_lists\<close> appends one connection: the table stays well-formed, also when it grows,
  the earlier connections stay as they are and at their indices, and the new one, at the
  returned index, waits for input with a new \<^verbatim>\<open>Client\<close>.
\<close>

theorem add_to_lists_appends:
  assumes "add_to_lists sys newfd t w = Inr (index, t', w')" "table_ok nl t"
  shows "table_ok nl t' \<and> index = t_count t \<and> t_count t' = Suc (t_count t) \<and>
     (\<exists>old. conns nl t' = conns nl t @
        [(\<lparr>pfd_fd = newfd, pfd_events = POLLIN, pfd_revents = 0\<rparr>, init_client newfd old)])"
  using add_to_lists_ok [OF assms] by blast

theorem add_to_lists_appends_witness:
  "\<exists>index t' w'. add_to_lists sample_os 7 (sample_table\<lparr>t_count := 3\<rparr>) empty_world = Inr (index, t', w') \<and>
     index = 3 \<and> table_ok 1 t'"
proof -
  have t: "sample_table\<lparr>t_count := 3\<rparr> = sample_table" by (simp add: sample_table_def)
  obtain index t' w' where a: "add_to_lists sample_os 7 sample_table empty_world = Inr (index, t', w')"
    by (auto simp: add_to_lists_def grow_lists_def sample_table_def Let_def)
  from add_to_lists_appends [OF a sample_table_ok] have "index = 3 \<and> table_ok 1 t'" by (simp add: sample_table_def)
  with a show ?thesis unfolding t by blast
qed

end
