(* ===== verification/Accept.thy ===== *)
theory Accept
  imports Connections
begin

text \<open>
  \<^verbatim>\<open>client_conn/accept_new_conn.c\<close>: draining the queue of a listening socket.  What waits on the
  socket is a list of events; an empty list is the \<^verbatim>\<open>EAGAIN\<close> that ends the loop.  The lemmas say
  which connections enter the table, in which order and in which state, and that every
  descriptor that was accepted is either in the table or closed again.
\<close>

section \<open>Definitions\<close>

text \<open>
  A connection comes with its new descriptor, the outcome of the two \<^verbatim>\<open>fcntl\<close> calls and the text
  form of the peer's address, which \<^verbatim>\<open>inet_ntop\<close> may refuse to give.
\<close>

datatype accept_event =
    Conn int bool "bytes option"
  | Accept_fail errno

text \<open>\<^verbatim>\<open>inet_ntop\<close> fails when the text and its NUL do not fit the buffer.\<close>

definition c_inet_ntop :: "bytes option \<Rightarrow> nat \<Rightarrow> bytes option" where
  "c_inet_ntop peer n = (case peer of None \<Rightarrow> None | Some a \<Rightarrow> if length a < n then Some a else None)"

definition peer_name :: "bytes option \<Rightarrow> bytes" where
  "peer_name peer =
     (case c_inet_ntop peer INET6_ADDRSTRLEN of
        Some a \<Rightarrow> a
      | None \<Rightarrow> fst (strlcpy ''Unknown IP'' INET6_ADDRSTRLEN))"

definition update_client :: "nat \<Rightarrow> (Client \<Rightarrow> Client) \<Rightarrow> table \<Rightarrow> table" where
  "update_client i f t = t\<lparr>t_clients := (t_clients t)[i := map_option f (t_clients t ! i)]\<rparr>"

definition c_accept :: "int \<Rightarrow> world \<Rightarrow> world" where
  "c_accept newfd w = w\<lparr>w_fds := (w_fds w)(newfd := True)\<rparr>"

fun accept_new_conn ::
    "os \<Rightarrow> accept_event list \<Rightarrow> table \<Rightarrow> world \<Rightarrow> (accept_event list \<times> table \<times> world) run"
where
  "accept_new_conn sys [] t w = Inr ([], t, w)"
| "accept_new_conn sys (Accept_fail e # es) t w =
     (if e = EAGAIN \<or> e = EWOULDBLOCK then Inr (es, t, w)
      else if e = EINTR then accept_new_conn sys es t w
      else Inr (es, t, w))"
| "accept_new_conn sys (Conn newfd nonblock_ok peer # es) t w =
     (let w1 = c_accept newfd w
      in if \<not> nonblock_ok then accept_new_conn sys es t (c_close newfd w1)
         else
           case add_to_lists sys newfd t w1 of
             Inl w2 \<Rightarrow> Inl w2
           | Inr (idx, t1, w2) \<Rightarrow>
               accept_new_conn sys es (update_client idx (\<lambda>c. c\<lparr>client_addr := peer_name peer\<rparr>) t1) w2)"

text \<open>What should enter the table, and what a new entry looks like.\<close>

fun accepted :: "accept_event list \<Rightarrow> (int \<times> bytes) list" where
  "accepted [] = []"
| "accepted (Accept_fail e # es) = (if e = EINTR then accepted es else [])"
| "accepted (Conn newfd nonblock_ok peer # es) =
     (if nonblock_ok then (newfd, peer_name peer) # accepted es else accepted es)"

definition fresh_client :: "Client \<Rightarrow> bool" where
  "fresh_client c \<longleftrightarrow>
     state c = READING \<and> in_buf c = None \<and> input_length c = 0 \<and> input_capacity c = 0 \<and>
     out_buf c = None \<and> output_length c = 0 \<and> output_sent c = 0 \<and> file_ptr c = None \<and>
     resp_val c = NUM_CLIENT_RESP \<and> length (client_addr c) < INET6_ADDRSTRLEN"

section \<open>Lemmas\<close>

lemma peer_name_length: "length (peer_name peer) < INET6_ADDRSTRLEN"
  by (auto simp: peer_name_def c_inet_ntop_def strlcpy_def INET6_ADDRSTRLEN_def split: option.splits)

lemma update_client_fields [simp]:
  "t_pfds (update_client i f t) = t_pfds t" "t_count (update_client i f t) = t_count t"
  "t_size (update_client i f t) = t_size t"
  "t_pfds_at (update_client i f t) = t_pfds_at t" "t_clients_at (update_client i f t) = t_clients_at t"
  "length (t_clients (update_client i f t)) = length (t_clients t)"
  by (simp_all add: update_client_def)

lemma update_client_nth:
  "j < length (t_clients t) \<Longrightarrow>
     t_clients (update_client i f t) ! j = (if j = i then map_option f (t_clients t ! i) else t_clients t ! j)"
  by (simp add: update_client_def nth_list_update)

lemma update_client_ok:
  assumes "table_ok nl t" "\<And>c. fd (f c) = fd c"
  shows "table_ok nl (update_client i f t)"
proof -
  have "slot_ok (update_client i f t) j" if s: "slot_ok t j" and j: "j < length (t_clients t)" for j
  proof -
    from s obtain p c where "t_pfds t ! j = Some p" "t_clients t ! j = Some c" "pfd_fd p = fd c"
      by (rule slot_okE)
    with j assms(2) show ?thesis by (cases "j = i") (auto simp: slot_ok_def update_client_nth)
  qed
  then show ?thesis using assms(1) by (auto simp: table_ok_def)
qed

text \<open>An update of one client, seen in the list of connections.\<close>

lemma conns_update:
  assumes "table_ok nl t" "nl \<le> i" "i < t_count t"
  shows "conns nl (update_client i f t) =
     (conns nl t)[i - nl := (fst (conns nl t ! (i - nl)), f (snd (conns nl t ! (i - nl))))]"
proof (rule nth_equalityI)
  fix k assume "k < length (conns nl (update_client i f t))"
  then have k: "nl + k < t_count t" by (simp add: conns_def)
  have s: "slot_ok t i" and l: "nl + k < length (t_clients t)" using assms k by (auto simp: table_ok_def)
  from s obtain p c where "t_pfds t ! i = Some p" "t_clients t ! i = Some c" by (rule slot_okE)
  with k l assms(2) show "conns nl (update_client i f t) ! k =
     (conns nl t)[i - nl := (fst (conns nl t ! (i - nl)), f (snd (conns nl t ! (i - nl))))] ! k"
    by (cases "k = i - nl") (auto simp: conns_def update_client_nth)
qed (simp add: conns_def)

lemma conns_update_last:
  assumes "table_ok nl t" "conns nl t = cs @ [(p, c)]"
  shows "conns nl (update_client (t_count t - 1) f t) = cs @ [(p, f c)]"
proof -
  have "length (conns nl t) = Suc (length cs)" using assms(2) by simp
  then have n: "t_count t - 1 - nl = length cs" "nl \<le> t_count t - 1" "t_count t - 1 < t_count t"
    by (auto simp: conns_def)
  show ?thesis unfolding conns_update [OF assms(1) n(2,3)] n(1) assms(2) by simp
qed

text \<open>One accepted connection: the table grows by it.\<close>

lemma accept_one:
  fixes peer :: "bytes option"
  assumes "add_to_lists sys newfd t w = Inr (idx, t1, w1)" "table_ok nl t"
  defines "t2 \<equiv> update_client idx (\<lambda>c. c\<lparr>client_addr := peer_name peer\<rparr>) t1"
  shows "table_ok nl t2"
    and "\<exists>c. conns nl t2 = conns nl t @ [(\<lparr>pfd_fd = newfd, pfd_events = POLLIN, pfd_revents = 0\<rparr>, c)] \<and>
       fresh_client c \<and> fd c = newfd \<and> client_addr c = peer_name peer"
proof -
  note a = add_to_lists_ok [OF assms(1,2)]
  show "table_ok nl t2" unfolding t2_def using a(1) by (rule update_client_ok) simp
  from a(4) obtain old where
    "conns nl t1 = conns nl t @ [(\<lparr>pfd_fd = newfd, pfd_events = POLLIN, pfd_revents = 0\<rparr>, init_client newfd old)]"
    by blast
  from conns_update_last [OF a(1) this, of "\<lambda>c. c\<lparr>client_addr := peer_name peer\<rparr>"] a(2,3)
  show "\<exists>c. conns nl t2 = conns nl t @ [(\<lparr>pfd_fd = newfd, pfd_events = POLLIN, pfd_revents = 0\<rparr>, c)] \<and>
       fresh_client c \<and> fd c = newfd \<and> client_addr c = peer_name peer"
    by (auto simp: t2_def fresh_client_def init_client_def peer_name_length)
qed

lemma accept_new_conn_adds:
  assumes "accept_new_conn sys es t w = Inr (es', t', w')" "table_ok nl t"
  shows "table_ok nl t' \<and>
     (\<exists>new. conns nl t' = conns nl t @ new \<and> map (\<lambda>(p, c). (fd c, client_addr c)) new = accepted es \<and>
        (\<forall>(p, c) \<in> set new. fresh_client c \<and> p = \<lparr>pfd_fd = fd c, pfd_events = POLLIN, pfd_revents = 0\<rparr>))"
  using assms
proof (induction sys es t w rule: accept_new_conn.induct)
  case (3 sys newfd ok peer es t w)
  show ?case
  proof (cases ok)
    case False
    with 3 show ?thesis by (simp add: Let_def)
  next
    case True
    with "3.prems"(1) obtain idx t1 w2 where a: "add_to_lists sys newfd t (c_accept newfd w) = Inr (idx, t1, w2)"
      by (auto simp: Let_def split: sum.splits)
    let ?t2 = "update_client idx (\<lambda>c. c\<lparr>client_addr := peer_name peer\<rparr>) t1"
    note o = accept_one [OF a "3.prems"(2), where peer = peer]
    from o(2) obtain c where c: "conns nl ?t2 = conns nl t @ [(\<lparr>pfd_fd = newfd, pfd_events = POLLIN, pfd_revents = 0\<rparr>, c)]"
      "fresh_client c" "fd c = newfd" "client_addr c = peer_name peer" by blast
    have "accept_new_conn sys es ?t2 w2 = Inr (es', t', w')"
      using "3.prems"(1) True a by (simp add: Let_def)
    from "3.IH"(2) [OF refl _ a refl refl this o(1)] True obtain new where n: "table_ok nl t'"
      "conns nl t' = conns nl ?t2 @ new" "map (\<lambda>(p, c). (fd c, client_addr c)) new = accepted es"
      "\<forall>(p, c) \<in> set new. fresh_client c \<and> p = \<lparr>pfd_fd = fd c, pfd_events = POLLIN, pfd_revents = 0\<rparr>"
      by auto
    let ?e = "(\<lparr>pfd_fd = newfd, pfd_events = POLLIN, pfd_revents = 0\<rparr>, c)"
    have "conns nl t' = conns nl t @ (?e # new)" using n(2) c(1) by simp
    moreover have "map (\<lambda>(p, c). (fd c, client_addr c)) (?e # new) = accepted (Conn newfd ok peer # es)"
      using n(3) c(3,4) True by simp
    moreover have "\<forall>(p, c) \<in> set (?e # new). fresh_client c \<and> p = \<lparr>pfd_fd = fd c, pfd_events = POLLIN, pfd_revents = 0\<rparr>"
      using n(4) c(2,3) by simp
    ultimately show ?thesis using n(1) by blast
  qed
qed (auto split: if_splits)

text \<open>Descriptors: what was open stays open, and only accepted connections are added.\<close>

fun event_fds :: "accept_event list \<Rightarrow> int list" where
  "event_fds [] = []"
| "event_fds (Accept_fail e # es) = event_fds es"
| "event_fds (Conn newfd nonblock_ok peer # es) = newfd # event_fds es"

lemma c_realloc_fds: "c_realloc sys p n w = (q, w') \<Longrightarrow> w_fds w' = w_fds w"
  using c_realloc_fields(3) [of sys p n w] by simp

lemma add_to_lists_fds: "add_to_lists sys newfd t w = Inr (idx, t', w') \<Longrightarrow> w_fds w' = w_fds w"
  by (auto simp: add_to_lists_def grow_lists_def Let_def world_simps dest!: c_realloc_fds
      split: sum.splits if_splits prod.splits option.splits)

lemma accept_new_conn_fds:
  assumes "accept_new_conn sys es t w = Inr (es', t', w')"
    and "\<forall>d \<in> set (event_fds es). \<not> w_fds w d" and "distinct (event_fds es)"
  shows "Collect (w_fds w') = Collect (w_fds w) \<union> fst ` set (accepted es)"
  using assms
proof (induction sys es t w rule: accept_new_conn.induct)
  case (3 sys newfd ok peer es t w)
  show ?case
  proof (cases ok)
    case False
    have "w_fds (c_close newfd (c_accept newfd w)) = w_fds w"
      using "3.prems"(2) by (intro ext) (simp add: world_simps c_accept_def)
    with "3.IH"(1) [OF refl] "3.prems" False show ?thesis by (simp add: Let_def)
  next
    case True
    with "3.prems"(1) obtain idx t1 w2 where a: "add_to_lists sys newfd t (c_accept newfd w) = Inr (idx, t1, w2)"
      by (auto simp: Let_def split: sum.splits)
    have f: "w_fds w2 = (w_fds w)(newfd := True)" using add_to_lists_fds [OF a] by (simp add: c_accept_def)
    have r: "accept_new_conn sys es (update_client idx (\<lambda>c. c\<lparr>client_addr := peer_name peer\<rparr>) t1) w2 = Inr (es', t', w')"
      using "3.prems"(1) True a by (simp add: Let_def)
    have "\<forall>d \<in> set (event_fds es). \<not> w_fds w2 d" "distinct (event_fds es)"
      using "3.prems"(2,3) by (auto simp: f)
    from "3.IH"(2) [OF refl _ a refl refl r this] True f show ?thesis by auto
  qed
qed (auto split: if_splits)

section \<open>Properties\<close>


definition sample_accepts :: "accept_event list" where
  "sample_accepts = [Conn 7 True (Some ''10.0.0.1''), Accept_fail EINTR, Conn 8 False None, Conn 9 True None, Accept_fail EAGAIN]"

lemma sample_accept_runs:
  "\<exists>es' t' w'. accept_new_conn sample_os sample_accepts sample_table empty_world = Inr (es', t', w')"
  by (simp add: sample_accepts_def add_to_lists_def grow_lists_def c_realloc_def sample_table_def empty_world_def
      update_client_def fault_if_def raise_fault_def c_accept_def c_close_def Let_def
      split: if_splits)


text \<open>
  Descriptors after accepting: when the kernel's new descriptors are distinct and were not
  open, exactly those of the connections that entered the table are open in addition; one
  whose \<^verbatim>\<open>fcntl\<close> failed is closed again.
\<close>

theorem accept_descriptors:
  assumes "accept_new_conn sys es t w = Inr (es', t', w')"
    and "\<forall>d \<in> set (event_fds es). \<not> w_fds w d" and "distinct (event_fds es)"
  shows "Collect (w_fds w') = Collect (w_fds w) \<union> fst ` set (accepted es)"
  using assms by (rule accept_new_conn_fds)

theorem accept_descriptors_witness:
  "\<exists>es' t' w'. accept_new_conn sample_os sample_accepts sample_table empty_world = Inr (es', t', w') \<and>
     Collect (w_fds w') = {7, 9}"
proof -
  obtain es' t' w' where a: "accept_new_conn sample_os sample_accepts sample_table empty_world = Inr (es', t', w')"
    using sample_accept_runs by blast
  have "\<forall>d \<in> set (event_fds sample_accepts). \<not> w_fds empty_world d" "distinct (event_fds sample_accepts)"
    "fst ` set (accepted sample_accepts) = {7, 9}" "Collect (w_fds empty_world) = {}"
    by (simp_all add: sample_accepts_def empty_world_def)
  with accept_descriptors [OF a] a show ?thesis by auto
qed

end
