(* ===== verification/Do_Read.thy ===== *)
theory Do_Read
  imports Accept
begin

text \<open>
  \<^verbatim>\<open>client_conn/do_read.c\<close>: receiving, and handling a request once its head is complete.  The
  receive loop appends what the socket delivers to a buffer that doubles; the lemmas show that
  the buffer holds exactly the received bytes however they were cut into pieces, that it never
  exceeds its limit, and what happens at the limit.  The handling is the pipeline parse,
  resolve, build, log; it is shown to stage one complete response with the code of a
  specification that only looks at the request and the file system.
\<close>

section \<open>Receiving\<close>

text \<open>\<^verbatim>\<open>while (new_cap < need) new_cap *= 2;\<close> The capacity is never 0 where it is called.\<close>

function grow_cap :: "nat \<Rightarrow> nat \<Rightarrow> nat" where
  "grow_cap new_cap need = (if 0 < new_cap \<and> new_cap < need then grow_cap (new_cap * 2) need else new_cap)"
  by pat_completeness auto
termination
  by (relation "measure (\<lambda>(cap, need). need - cap)") auto

declare grow_cap.simps [simp del]

definition copy_in :: "Client \<Rightarrow> bytes \<Rightarrow> world \<Rightarrow> Client \<times> world" where
  "copy_in c data w =
     (case in_buf c of
        None \<Rightarrow> (c\<lparr>input_length := input_length c + length data\<rparr>, fault_if (data \<noteq> []) NullStream w)
      | Some p \<Rightarrow>
          (c\<lparr>input_length := input_length c + length data\<rparr>, c_memcpy p (input_length c) data w))"

definition append_data :: "os \<Rightarrow> Client \<Rightarrow> bytes \<Rightarrow> world \<Rightarrow> Client \<times> world" where
  "append_data sys c data w =
     (if MAX_REQUEST_SIZE < input_length c + length data
      then (c\<lparr>resp_val := RESP_414, state := PROCESSING\<rparr>, w)
      else if input_capacity c < input_length c + length data then
        let new_cap = grow_cap (if input_capacity c \<noteq> 0 then input_capacity c * 2 else 1024)
                        (input_length c + length data)
        in case c_realloc sys (in_buf c) new_cap w of
             (None, w1) \<Rightarrow> (c\<lparr>state := CLOSING\<rparr>, w1)
           | (Some p, w1) \<Rightarrow> copy_in (c\<lparr>in_buf := Some p, input_capacity := new_cap\<rparr>) data w1
      else copy_in c data w)"

text \<open>
  The receive loop.  The flag tells whether the handler goes on after the loop (\<^verbatim>\<open>break\<close>) or
  returns.
\<close>

function recv_loop ::
    "os \<Rightarrow> Client \<Rightarrow> io_event list \<Rightarrow> world \<Rightarrow> bool \<times> Client \<times> io_event list \<times> world"
where
  "recv_loop sys c es w =
     (case io_read (Failed EAGAIN) TEMP_BUFFER es of
        (Got d, es1) \<Rightarrow>
          if d \<noteq> [] then
            (case append_data sys c d w of
               (c1, w1) \<Rightarrow>
                 if state c1 \<noteq> READING then (False, c1, es1, w1) else recv_loop sys c1 es1 w1)
          else (False, c\<lparr>state := CLOSING\<rparr>, es1, w)
      | (Failed e, es1) \<Rightarrow>
          if e = EAGAIN \<or> e = EWOULDBLOCK then (True, c, es1, w)
          else if e = EINTR then recv_loop sys c es1 w
          else (True, c\<lparr>state := CLOSING\<rparr>, es1, w))"
  by pat_completeness auto
termination
proof (relation "measure (\<lambda>(sys, c, es, w). io_weight es)", goal_cases)
  case 1
  show ?case by simp
next
  case 2
  then show ?case using io_read_weight [OF sym [OF 2(1)]] by simp
next
  case 3
  then show ?case using io_read_weight [OF sym [OF 3(1)]] by simp
qed

declare recv_loop.simps [simp del]

section \<open>Handling a complete request\<close>

definition error_reply :: "os \<Rightarrow> Client \<Rightarrow> Request \<Rightarrow> world \<Rightarrow> Client \<times> world" where
  "error_reply sys c req w =
     (case build_error_response sys (Some c) (Some req) w of
        (rc, c1, w1) \<Rightarrow> (case c1 of Some x \<Rightarrow> x | None \<Rightarrow> c, w1))"

text \<open>Parse, resolve, build: the condition and both branches of the handler.\<close>

definition serve_request ::
    "os \<Rightarrow> flags \<Rightarrow> Client \<Rightarrow> LogEntry \<Rightarrow> world \<Rightarrow> Client \<times> ResolvedPath \<times> LogEntry \<times> world"
where
  "serve_request sys app_flags c le w =
     (case parse_request sys app_flags (Some (block_data w (in_buf c))) (header_len c)
             zero_Request (resp_val c) le w of
        (rc, req, resp, le1, w1) \<Rightarrow>
          let c1 = c\<lparr>resp_val := resp\<rparr>
          in if rc = 0 then
               (case resolve_path sys app_flags c1 req zero_ResolvedPath w1 of
                  (rc2, c2, rp, w2) \<Rightarrow>
                    if rc2 = 0 then
                      (case build_okay_response sys app_flags c2 rp req w2 of
                         (rc3, c3, w3) \<Rightarrow> (c3, rp, le1, w3))
                    else (case error_reply sys c2 req w2 of (c3, w3) \<Rightarrow> (c3, rp, le1, w3)))
             else (case error_reply sys c1 req w1 of (c3, w3) \<Rightarrow> (c3, zero_ResolvedPath, le1, w3)))"

text \<open>\<^verbatim>\<open>%d\<close> of a \<^verbatim>\<open>size_t\<close>: the low 32 bits, read as signed.\<close>

definition print_int :: "nat \<Rightarrow> bytes" where
  "print_int n = show_int (sint (of_nat n :: 32 word))"

definition log_reply :: "flags \<Rightarrow> ptr \<Rightarrow> Client \<Rightarrow> LogEntry \<Rightarrow> world \<Rightarrow> world" where
  "log_reply app_flags log_ptr c le w =
     (if logging_on app_flags then
        (case log_append le
                (resp_val_to_status_string (resp_val c) @ '' '' @ print_int (body_len c) @ [LF]) w of
           (le1, w1) \<Rightarrow> do_logging log_ptr le1 w1)
      else w)"

definition start_log :: "flags \<Rightarrow> Client \<Rightarrow> world \<Rightarrow> LogEntry \<times> world" where
  "start_log app_flags c w =
     (if logging_on app_flags then log_append zero_LogEntry (client_addr c @ '' '') w
      else (zero_LogEntry, w))"

text \<open>The handler after the receive loop.\<close>

definition handle_request ::
    "os \<Rightarrow> flags \<Rightarrow> ptr \<Rightarrow> Client \<Rightarrow> pollfd \<Rightarrow> world \<Rightarrow> Client \<times> pollfd \<times> world"
where
  "handle_request sys app_flags log_ptr c p w =
     (if in_buf c = None \<or> input_length c = 0 then (c, p, w)
      else
        case strnstr (block_data w (in_buf c)) (CRLF @ CRLF) (input_length c) of
          None \<Rightarrow> (c, p, w)
        | Some k \<Rightarrow>
            let c1 = c\<lparr>header_len := k + 4\<rparr>
            in case start_log app_flags c1 w of
                 (le, w1) \<Rightarrow>
                   (case serve_request sys app_flags c1 le w1 of
                      (c2, rp, le1, w2) \<Rightarrow>
                        let w3 = log_reply app_flags log_ptr c2 le1 w2
                        in (case close_resolve_path_ptr rp w3 of
                              (rp1, w4) \<Rightarrow>
                                (c2\<lparr>state := SENDING_HEADER\<rparr>, p\<lparr>pfd_events := POLLOUT\<rparr>, w4))))"

text \<open>The whole handler on one connection, and on a slot of the table.\<close>

definition read_conn ::
    "os \<Rightarrow> flags \<Rightarrow> ptr \<Rightarrow> Client \<Rightarrow> pollfd \<Rightarrow> io_event list \<Rightarrow> world \<Rightarrow>
       Client \<times> pollfd \<times> io_event list \<times> world"
where
  "read_conn sys app_flags log_ptr c p es w =
     (case recv_loop sys c es w of
        (goes_on, c1, es1, w1) \<Rightarrow>
          if goes_on
          then (case handle_request sys app_flags log_ptr c1 p w1 of (c2, p2, w2) \<Rightarrow> (c2, p2, es1, w2))
          else (c1, p, es1, w1))"

definition do_read ::
    "os \<Rightarrow> flags \<Rightarrow> ptr \<Rightarrow> nat \<Rightarrow> table \<Rightarrow> io_event list \<Rightarrow> world \<Rightarrow> table \<times> io_event list \<times> world"
where
  "do_read sys app_flags log_ptr i t es w =
     (case (t_clients t ! i, t_pfds t ! i) of
        (Some c, Some p) \<Rightarrow>
          (case read_conn sys app_flags log_ptr c p es w of
             (c1, p1, es1, w1) \<Rightarrow>
               (t\<lparr>t_clients := (t_clients t)[i := Some c1], t_pfds := (t_pfds t)[i := Some p1]\<rparr>, es1, w1))
      | _ \<Rightarrow> (t, es, raise_fault (SlotOutOfRange i) w))"

section \<open>The input buffer\<close>

text \<open>
  The buffer of a client that is reading holds \<open>d\<close>: no buffer while nothing has arrived, else a
  block of the recorded capacity, a power of two times 1024 within the limit.
\<close>

definition input_ok :: "Client \<Rightarrow> bytes \<Rightarrow> world \<Rightarrow> bool" where
  "input_ok c d w \<longleftrightarrow>
     input_length c = length d \<and> length d \<le> MAX_REQUEST_SIZE \<and>
     (case in_buf c of
        None \<Rightarrow> d = [] \<and> input_capacity c = 0
      | Some p \<Rightarrow> holds p (input_capacity c) d w \<and> (\<exists>k\<le>3. input_capacity c = 1024 * 2 ^ k))"

lemma input_ok_cong:
  "in_buf c' = in_buf c \<Longrightarrow> input_length c' = input_length c \<Longrightarrow> input_capacity c' = input_capacity c \<Longrightarrow>
     input_ok c' e w = input_ok c e w"
  unfolding input_ok_def by metis

lemma grow_cap_bounds:
  assumes "cap = 1024 * 2 ^ k" "k \<le> 3" "need \<le> MAX_REQUEST_SIZE"
  shows "need \<le> grow_cap cap need \<and> (\<exists>k'\<le>3. grow_cap cap need = 1024 * 2 ^ k')"
  using assms
proof (induction cap need arbitrary: k rule: grow_cap.induct)
  case (1 cap need)
  show ?case
  proof (cases "cap < need")
    case True
    then have "(1024 :: nat) * 2 ^ k < 1024 * 2 ^ 3" using "1.prems" by (simp add: MAX_REQUEST_SIZE_def)
    then have "(2 :: nat) ^ k < 2 ^ 3" by simp
    then have "Suc k \<le> 3" by (simp only: Suc_le_eq power_strict_increasing_iff)
    moreover have "cap * 2 = 1024 * 2 ^ Suc k" "0 < cap" using "1.prems"(1) by simp_all
    moreover have "grow_cap cap need = grow_cap (cap * 2) need"
      using True \<open>0 < cap\<close> by (subst grow_cap.simps) simp
    ultimately show ?thesis using "1.IH" [of "Suc k"] True "1.prems"(3) by simp
  next
    case False
    with "1.prems" show ?thesis by (subst (1 2) grow_cap.simps) auto
  qed
qed

text \<open>
  One buffer has taken the place of another, or stayed; nothing else changed.
\<close>

definition same_rest :: "world \<Rightarrow> world \<Rightarrow> bool" where
  "same_rest w w' \<longleftrightarrow>
     w_next w \<le> w_next w' \<and> w_streams w' = w_streams w \<and> w_fds w' = w_fds w \<and> w_wire w' = w_wire w \<and>
     w_shut w' = w_shut w \<and> w_log w' = w_log w \<and> w_faults w' = w_faults w"

definition moved :: "ptr \<Rightarrow> ptr \<Rightarrow> world \<Rightarrow> world \<Rightarrow> bool" where
  "moved p q w w' \<longleftrightarrow>
     same_rest w w' \<and> world_ok w' \<and>
     (\<forall>i. Some i \<noteq> p \<longrightarrow> Some i \<noteq> q \<longrightarrow> w_blocks w' i = w_blocks w i) \<and>
     (q = p \<or> (\<exists>j. q = Some j \<and> w_next w \<le> j \<and> (\<forall>i. p = Some i \<longrightarrow> w_blocks w' i = None)))"

lemma same_rest_refl [simp]: "same_rest w w"
  by (simp add: same_rest_def)

lemma moved_refl: "world_ok w \<Longrightarrow> moved p p w w"
  by (simp add: moved_def)

lemma moved_trans:
  assumes "moved p q a b" "moved q r b c" "world_ok a" "\<forall>i. p = Some i \<longrightarrow> i < w_next a"
  shows "moved p r a c"
proof -
  have rest: "same_rest a c" "world_ok c" using assms(1,2) by (auto simp: moved_def same_rest_def)
  show ?thesis
  proof (cases "q = p")
    case True
    with assms rest show ?thesis by (auto simp: moved_def same_rest_def)
  next
    case qp: False
    then obtain j where j: "q = Some j" "w_next a \<le> j" "\<forall>i. p = Some i \<longrightarrow> w_blocks b i = None"
      using assms(1) by (auto simp: moved_def)
    have aj: "w_blocks a j = None" using assms(3) j(2) by (rule world_ok_fresh(2))
    show ?thesis
    proof (cases "r = q")
      case True
      with assms rest j show ?thesis by (auto simp: moved_def same_rest_def)
    next
      case False
      then obtain l where l: "r = Some l" "w_next b \<le> l" "w_blocks c j = None"
        using assms(2) j(1) by (auto simp: moved_def)
      have ab: "w_next a \<le> w_next b" using assms(1) by (simp add: moved_def same_rest_def)
      have "w_blocks c i = w_blocks a i" if "Some i \<noteq> p" "Some i \<noteq> r" for i
        using that assms(1,2) j(1) aj l(3) by (cases "i = j") (auto simp: moved_def)
      moreover have "w_blocks c i = None" if "p = Some i" for i
      proof -
        from that assms(4) ab l(2) qp j(1) have "Some i \<noteq> q" "Some i \<noteq> r" using l(1) by auto
        then have "w_blocks c i = w_blocks b i" using assms(2) by (simp add: moved_def)
        with j(3) that show ?thesis by simp
      qed
      ultimately show ?thesis using rest l ab unfolding moved_def by (metis le_trans)
    qed
  qed
qed

lemma c_realloc_moved:
  assumes "world_ok w" "c_realloc sys p n w = (Some q, w')"
    and "\<forall>i. p = Some i \<longrightarrow> w_blocks w i \<noteq> None"
  shows "moved p (Some q) w w'" "q = w_next w"
    "w_blocks w' q = Some \<lparr>b_size = n, b_data = (case p of None \<Rightarrow> [] | Some i \<Rightarrow> take n (b_data (the (w_blocks w i))))\<rparr>"
proof -
  have lt: "\<forall>i. p = Some i \<longrightarrow> i < w_next w"
    using assms(1,3) world_ok_live(2) by blast
  show "q = w_next w"
    using assms by (auto simp: c_realloc_def c_malloc_def Let_def split: option.splits if_splits)
  show "w_blocks w' q = Some \<lparr>b_size = n, b_data = (case p of None \<Rightarrow> [] | Some i \<Rightarrow> take n (b_data (the (w_blocks w i))))\<rparr>"
    using assms lt by (auto simp: c_realloc_def c_malloc_def Let_def split: option.splits if_splits)
  show "moved p (Some q) w w'"
    using assms lt by (cases p) (auto simp: c_realloc_def c_malloc_def Let_def moved_def same_rest_def world_ok_def
        split: option.splits if_splits)
qed

lemma c_memcpy_moved:
  assumes "holds p cap e w" "length e + length d \<le> cap" "world_ok w"
  shows "moved (Some p) (Some p) w (c_memcpy p (length e) d w)"
  using assms by (auto simp: moved_def same_rest_def holds_def c_memcpy_def world_ok_def)

lemma input_okD:
  assumes "input_ok c e w"
  shows "input_length c = length e" "length e \<le> MAX_REQUEST_SIZE"
    "in_buf c = None \<Longrightarrow> e = [] \<and> input_capacity c = 0"
    "in_buf c = Some p \<Longrightarrow> holds p (input_capacity c) e w \<and> (\<exists>k\<le>3. input_capacity c = 1024 * 2 ^ k)"
  using assms by (auto simp: input_ok_def split: option.splits)

lemma input_ok_new_cap:
  assumes "input_ok c e w" "input_capacity c < need" "need \<le> MAX_REQUEST_SIZE"
  defines "cap \<equiv> grow_cap (if input_capacity c \<noteq> 0 then input_capacity c * 2 else 1024) need"
  shows "need \<le> cap \<and> (\<exists>k\<le>3. cap = 1024 * 2 ^ k)"
proof (cases "in_buf c")
  case None
  then have "cap = grow_cap 1024 need" using input_okD(3) [OF assms(1)] by (simp add: cap_def)
  then show ?thesis using grow_cap_bounds [of 1024 0 need] assms(3) by simp
next
  case (Some p)
  then obtain k where k: "k \<le> 3" "input_capacity c = 1024 * 2 ^ k" using input_okD(4) [OF assms(1)] by blast
  have "(1024 :: nat) * 2 ^ k < 1024 * 2 ^ 3" using assms(2,3) k(2) by (simp add: MAX_REQUEST_SIZE_def)
  then have "(2 :: nat) ^ k < 2 ^ 3" by simp
  then have "Suc k \<le> 3" by (simp only: Suc_le_eq power_strict_increasing_iff)
  with k show ?thesis using grow_cap_bounds [of "input_capacity c * 2" "Suc k" need] assms(3) by (simp add: cap_def)
qed

lemma copy_in_ok:
  assumes "in_buf c = Some p" "holds p (input_capacity c) e w" "world_ok w" "input_length c = length e"
    and "length e + length d \<le> input_capacity c" "length e + length d \<le> MAX_REQUEST_SIZE"
    and "\<exists>k\<le>3. input_capacity c = 1024 * 2 ^ k"
  shows "\<exists>w'. copy_in c d w = (c\<lparr>input_length := length e + length d\<rparr>, w') \<and>
     input_ok (c\<lparr>input_length := length e + length d\<rparr>) (e @ d) w' \<and> moved (Some p) (Some p) w w'"
  using assms c_memcpy_holds(1) [OF assms(2,5)] c_memcpy_moved [OF assms(2,5,3)]
  by (auto simp: copy_in_def input_ok_def)

text \<open>The three outcomes of appending.\<close>

text \<open>The two ways to store: the buffer is reallocated, which may fail, or the bytes fit.\<close>

lemma append_data_grows:
  assumes "input_ok c e w" "world_ok w" "length e + length d \<le> MAX_REQUEST_SIZE" "input_capacity c < length e + length d"
  obtains (nomem) "\<not> os_alloc sys (w_next w)"
      "append_data sys c d w = (c\<lparr>state := CLOSING\<rparr>, w\<lparr>w_next := Suc (w_next w)\<rparr>)"
  | (stored) p cap w' where
      "append_data sys c d w =
         (c\<lparr>in_buf := Some p, input_capacity := cap, input_length := length e + length d\<rparr>, w')"
      "input_ok (c\<lparr>in_buf := Some p, input_capacity := cap, input_length := length e + length d\<rparr>) (e @ d) w'"
      "moved (in_buf c) (Some p) w w'"
proof -
  define cap where "cap = grow_cap (if input_capacity c \<noteq> 0 then input_capacity c * 2 else 1024) (length e + length d)"
  have cap: "length e + length d \<le> cap" "\<exists>k\<le>3. cap = 1024 * 2 ^ k"
    using input_ok_new_cap [OF assms(1,4)] assms(3) by (auto simp: cap_def)
  have live: "\<forall>i. in_buf c = Some i \<longrightarrow> w_blocks w i \<noteq> None"
    using input_okD(4) [OF assms(1)] by (auto simp: holds_def)
  obtain r w1 where r: "c_realloc sys (in_buf c) cap w = (r, w1)" by (cases "c_realloc sys (in_buf c) cap w")
  have a: "append_data sys c d w = (case r of None \<Rightarrow> (c\<lparr>state := CLOSING\<rparr>, w1)
      | Some p \<Rightarrow> copy_in (c\<lparr>in_buf := Some p, input_capacity := cap\<rparr>) d w1)"
    unfolding append_data_def input_okD(1) [OF assms(1)] cap_def [symmetric] Let_def
    using assms(3,4) r by simp
  show thesis
  proof (cases r)
    case None
    with r have "\<not> os_alloc sys (w_next w) \<and> w1 = w\<lparr>w_next := Suc (w_next w)\<rparr>"
      by (auto simp: c_realloc_def c_malloc_def Let_def split: option.splits if_splits)
    with nomem a None show thesis by simp
  next
    case (Some p)
    note m = c_realloc_moved [OF assms(2) r [unfolded Some] live]
    let ?c = "c\<lparr>in_buf := Some p, input_capacity := cap\<rparr>"
    have "(case in_buf c of None \<Rightarrow> [] | Some i \<Rightarrow> take cap (b_data (the (w_blocks w i)))) = e"
      using input_okD(3,4) [OF assms(1)] cap(1) by (auto simp: holds_def split: option.splits)
    with m(3) cap(1) have h: "holds p cap e w1" by (simp add: holds_def)
    have "world_ok w1" using m(1) by (simp add: moved_def)
    with h cap assms(3) input_okD(1) [OF assms(1)] copy_in_ok [of ?c p e w1 d] obtain w' where
      w': "copy_in ?c d w1 = (?c\<lparr>input_length := length e + length d\<rparr>, w')"
        "input_ok (?c\<lparr>input_length := length e + length d\<rparr>) (e @ d) w'" "moved (Some p) (Some p) w1 w'"
      by auto
    have "moved (in_buf c) (Some p) w w'"
      using m(1) w'(3) assms(2) live world_ok_live(2) [OF assms(2)] by (blast intro: moved_trans)
    with stored [where p = p and cap = cap and w' = w'] a Some w' show thesis by simp
  qed
qed

lemma append_data_fits:
  assumes "input_ok c e w" "world_ok w" "d \<noteq> []" "length e + length d \<le> MAX_REQUEST_SIZE"
    and "\<not> input_capacity c < length e + length d"
  obtains p w' where
    "append_data sys c d w =
       (c\<lparr>in_buf := Some p, input_capacity := input_capacity c, input_length := length e + length d\<rparr>, w')"
    "input_ok (c\<lparr>in_buf := Some p, input_capacity := input_capacity c, input_length := length e + length d\<rparr>) (e @ d) w'"
    "moved (in_buf c) (Some p) w w'"
proof -
  obtain p where p: "in_buf c = Some p" using input_okD(3) [OF assms(1)] assms(3,5) by (cases "in_buf c") auto
  have same: "input_ok (c\<lparr>in_buf := Some p, input_length := n\<rparr>) x y = input_ok (c\<lparr>input_length := n\<rparr>) x y" for n x y
    by (rule input_ok_cong) (simp_all add: p)
  from p assms(4,5) input_okD [OF assms(1)] copy_in_ok [OF p _ assms(2), of e d] obtain w' where
    "copy_in c d w = (c\<lparr>input_length := length e + length d\<rparr>, w')"
    "input_ok (c\<lparr>input_length := length e + length d\<rparr>) (e @ d) w'" "moved (Some p) (Some p) w w'"
    by auto
  with that [of p w'] assms(4,5) p show thesis by (simp add: append_data_def input_okD(1) [OF assms(1)] same)
qed

lemma append_data_cases:
  assumes "input_ok c e w" "world_ok w" "d \<noteq> []"
  obtains (over) "MAX_REQUEST_SIZE < length e + length d"
      "append_data sys c d w = (c\<lparr>resp_val := RESP_414, state := PROCESSING\<rparr>, w)"
  | (nomem) "\<not> os_alloc sys (w_next w)" "length e + length d \<le> MAX_REQUEST_SIZE"
      "append_data sys c d w = (c\<lparr>state := CLOSING\<rparr>, w\<lparr>w_next := Suc (w_next w)\<rparr>)"
  | (stored) p cap w' where "length e + length d \<le> MAX_REQUEST_SIZE"
      "append_data sys c d w =
         (c\<lparr>in_buf := Some p, input_capacity := cap, input_length := length e + length d\<rparr>, w')"
      "input_ok (c\<lparr>in_buf := Some p, input_capacity := cap, input_length := length e + length d\<rparr>) (e @ d) w'"
      "moved (in_buf c) (Some p) w w'"
proof -
  consider (long) "MAX_REQUEST_SIZE < length e + length d"
    | (grow) "length e + length d \<le> MAX_REQUEST_SIZE" "input_capacity c < length e + length d"
    | (fit) "length e + length d \<le> MAX_REQUEST_SIZE" "\<not> input_capacity c < length e + length d" by linarith
  then show thesis
  proof cases
    case long
    with over show thesis by (simp add: append_data_def input_okD(1) [OF assms(1)])
  next
    case grow
    from append_data_grows [OF assms(1,2) grow, of sys] nomem stored grow(1) show thesis by metis
  next
    case fit
    from append_data_fits [OF assms fit, of sys] stored fit(1) show thesis by metis
  qed
qed

section \<open>The receive loop\<close>

text \<open>What waits on a socket before the first event that ends the loop, and what that event is.\<close>

fun recv_bytes :: "io_event list \<Rightarrow> bytes" where
  "recv_bytes [] = []"
| "recv_bytes (Data d # es) = d @ recv_bytes es"
| "recv_bytes (Eof # es) = []"
| "recv_bytes (Fail e # es) = (if e = EINTR then recv_bytes es else [])"

datatype recv_end = Idle | Hangup | Broken

fun recv_ending :: "io_event list \<Rightarrow> recv_end" where
  "recv_ending [] = Idle"
| "recv_ending (Data d # es) = recv_ending es"
| "recv_ending (Eof # es) = Hangup"
| "recv_ending (Fail e # es) =
     (if e = EAGAIN \<or> e = EWOULDBLOCK then Idle else if e = EINTR then recv_ending es else Broken)"

lemma io_read_recv:
  "io_read (Failed EAGAIN) n es = (r, es') \<Longrightarrow> 0 < n \<Longrightarrow>
     recv_bytes es = (case r of
        Got d \<Rightarrow> if d = [] then [] else d @ recv_bytes es'
      | Failed e \<Rightarrow> if e = EINTR then recv_bytes es' else []) \<and>
     recv_ending es = (case r of
        Got d \<Rightarrow> if d = [] then Hangup else recv_ending es'
      | Failed e \<Rightarrow> if e = EAGAIN \<or> e = EWOULDBLOCK then Idle
                    else if e = EINTR then recv_ending es' else Broken)"
  by (induction "Failed EAGAIN" n es arbitrary: r es' rule: io_read.induct) (auto split: if_splits)

text \<open>One turn of the loop, by what the socket delivers; whatever is left to read gets less.\<close>

lemma recv_loop_turn:
  obtains (idle) es1 where "recv_loop sys c es w = (True, c, es1, w)" "recv_ending es = Idle" "recv_bytes es = []"
  | (broken) es1 where "recv_loop sys c es w = (True, c\<lparr>state := CLOSING\<rparr>, es1, w)" "recv_ending es = Broken" "recv_bytes es = []"
  | (hangup) es1 where "recv_loop sys c es w = (False, c\<lparr>state := CLOSING\<rparr>, es1, w)" "recv_ending es = Hangup" "recv_bytes es = []"
  | (interrupted) es1 where "recv_loop sys c es w = recv_loop sys c es1 w" "recv_ending es = recv_ending es1"
      "recv_bytes es = recv_bytes es1" "io_weight es1 < io_weight es"
  | (arrived) d es1 c1 w1 where "d \<noteq> []" "append_data sys c d w = (c1, w1)" "recv_ending es = recv_ending es1"
      "recv_bytes es = d @ recv_bytes es1" "io_weight es1 < io_weight es"
      "recv_loop sys c es w = (if state c1 \<noteq> READING then (False, c1, es1, w1) else recv_loop sys c1 es1 w1)"
proof -
  obtain r es1 where io: "io_read (Failed EAGAIN) TEMP_BUFFER es = (r, es1)"
    by (cases "io_read (Failed EAGAIN) TEMP_BUFFER es")
  note sp = io_read_recv [OF io] and less = io_read_weight [OF io]
  have T: "0 < TEMP_BUFFER" by (simp add: TEMP_BUFFER_def)
  show thesis
  proof (cases r)
    case (Failed x)
    have l: "recv_loop sys c es w = (if x = EAGAIN \<or> x = EWOULDBLOCK then (True, c, es1, w)
        else if x = EINTR then recv_loop sys c es1 w else (True, c\<lparr>state := CLOSING\<rparr>, es1, w))"
      using io Failed by (subst recv_loop.simps) simp
    consider "x = EAGAIN \<or> x = EWOULDBLOCK" | "x = EINTR" | "x \<noteq> EAGAIN" "x \<noteq> EWOULDBLOCK" "x \<noteq> EINTR" by blast
    then show thesis
    proof cases
      case 1
      show thesis by (rule idle) (use 1 l sp [OF T] Failed in auto)
    next
      case 2
      show thesis by (rule interrupted) (use 2 l sp [OF T] less Failed in auto)
    next
      case 3
      show thesis by (rule broken) (use 3 l sp [OF T] Failed in auto)
    qed
  next
    case (Got d)
    obtain c1 w1 where a: "append_data sys c d w = (c1, w1)" by (cases "append_data sys c d w")
    show thesis
    proof (cases "d = []")
      case True
      have "recv_loop sys c es w = (False, c\<lparr>state := CLOSING\<rparr>, es1, w)"
        using io Got True by (subst recv_loop.simps) simp
      then show thesis by (rule hangup) (use sp [OF T] Got True in auto)
    next
      case False
      have "recv_loop sys c es w = (if state c1 \<noteq> READING then (False, c1, es1, w1) else recv_loop sys c1 es1 w1)"
        using io Got False a by (subst recv_loop.simps) simp
      then show thesis by (rule arrived [OF False a, rotated 3]) (use sp [OF T] less Got False in auto)
    qed
  qed
qed

text \<open>
  The outcome of the loop for a client whose buffer held \<open>e\<close>: the buffer now holds a part of
  what was there and what arrived, all of it when the handler goes on; the states and codes of
  the early returns.
\<close>

definition rest_part ::
    "Client \<Rightarrow> int \<times> ptr \<times> ptr \<times> int \<times> nat \<times> nat \<times> nat \<times> nat \<times> nat \<times> nat \<times> bytes"
where
  "rest_part c =
     (fd c, out_buf c, file_ptr c, file_size c, body_sent c, output_length c, output_capacity c,
      output_sent c, header_len c, body_len c, client_addr c)"

definition recv_post ::
    "os \<Rightarrow> Client \<Rightarrow> bytes \<Rightarrow> recv_end \<Rightarrow> world \<Rightarrow> bool \<times> Client \<times> io_event list \<times> world \<Rightarrow> bool"
where
  "recv_post sys c whole fin w r \<longleftrightarrow>
     (case r of (goes_on, c', es', w') \<Rightarrow>
        rest_part c' = rest_part c \<and> moved (in_buf c) (in_buf c') w w' \<and>
        (\<exists>e'. input_ok c' e' w' \<and> prefix e' whole \<and>
          (if goes_on then e' = whole \<and> fin \<noteq> Hangup \<and> resp_val c' = resp_val c \<and>
                state c' = (if fin = Idle then READING else CLOSING)
           else (state c' = PROCESSING \<and> resp_val c' = RESP_414 \<and> MAX_REQUEST_SIZE < length whole) \<or>
                (state c' = CLOSING \<and> resp_val c' = resp_val c \<and>
                   (fin = Hangup \<and> e' = whole \<or> (\<exists>i. \<not> os_alloc sys i))))))"

lemma rest_part_upd [simp]:
  "rest_part (c\<lparr>state := s\<rparr>) = rest_part c" "rest_part (c\<lparr>resp_val := r\<rparr>) = rest_part c"
  "rest_part (c\<lparr>in_buf := p\<rparr>) = rest_part c" "rest_part (c\<lparr>input_length := n\<rparr>) = rest_part c"
  "rest_part (c\<lparr>input_capacity := n\<rparr>) = rest_part c"
  by (simp_all add: rest_part_def)

lemma recv_post_step:
  assumes "recv_post sys c1 whole fin w1 r" "moved (in_buf c) (in_buf c1) w w1" "world_ok w"
    and "\<forall>i. in_buf c = Some i \<longrightarrow> i < w_next w"
    and "rest_part c1 = rest_part c" "resp_val c1 = resp_val c"
  shows "recv_post sys c whole fin w r"
proof -
  obtain g c' es' w' where r: "r = (g, c', es', w')" by (cases r)
  have "moved (in_buf c1) (in_buf c') w1 w'" using assms(1) by (simp add: recv_post_def r)
  with assms(2) have "moved (in_buf c) (in_buf c') w w'" using assms(3,4) by (rule moved_trans)
  with assms(1) show ?thesis unfolding recv_post_def r assms(5,6) by blast
qed

text \<open>The ways a turn may end the loop.\<close>

lemma recv_post_stop:
  assumes "input_ok c e w" "world_ok w" "state c = READING"
  shows "recv_post sys c e Idle w (True, c, es1, w)"
    "recv_post sys c e Broken w (True, c\<lparr>state := CLOSING\<rparr>, es1, w)"
    "recv_post sys c e Hangup w (False, c\<lparr>state := CLOSING\<rparr>, es1, w)"
    "prefix e whole \<Longrightarrow> MAX_REQUEST_SIZE < length whole \<Longrightarrow>
       recv_post sys c whole fin w (False, c\<lparr>resp_val := RESP_414, state := PROCESSING\<rparr>, es1, w)"
    "prefix e whole \<Longrightarrow> \<not> os_alloc sys (w_next w) \<Longrightarrow>
       recv_post sys c whole fin w (False, c\<lparr>state := CLOSING\<rparr>, es1, w\<lparr>w_next := Suc (w_next w)\<rparr>)"
proof -
  have i: "input_ok (c\<lparr>state := CLOSING\<rparr>) e w" "input_ok (c\<lparr>resp_val := RESP_414, state := PROCESSING\<rparr>) e w"
    using assms(1) by (simp_all add: input_ok_def split: option.splits)
  have n: "input_ok (c\<lparr>state := CLOSING\<rparr>) e (w\<lparr>w_next := Suc (w_next w)\<rparr>)"
    using assms(1) by (simp add: input_ok_def holds_def split: option.splits)
  have m: "moved (in_buf c) (in_buf c) w (w\<lparr>w_next := Suc (w_next w)\<rparr>)"
    using assms(2) by (simp add: moved_def same_rest_def world_ok_def)
  note moved_refl [OF assms(2), of "in_buf c"]
  then show "recv_post sys c e Idle w (True, c, es1, w)"
    "recv_post sys c e Broken w (True, c\<lparr>state := CLOSING\<rparr>, es1, w)"
    "recv_post sys c e Hangup w (False, c\<lparr>state := CLOSING\<rparr>, es1, w)"
    "prefix e whole \<Longrightarrow> MAX_REQUEST_SIZE < length whole \<Longrightarrow>
       recv_post sys c whole fin w (False, c\<lparr>resp_val := RESP_414, state := PROCESSING\<rparr>, es1, w)"
    "prefix e whole \<Longrightarrow> \<not> os_alloc sys (w_next w) \<Longrightarrow>
       recv_post sys c whole fin w (False, c\<lparr>state := CLOSING\<rparr>, es1, w\<lparr>w_next := Suc (w_next w)\<rparr>)"
    using assms(1,3) i n m by (auto simp: recv_post_def)
qed

lemma recv_loop_post:
  assumes "input_ok c e w" "world_ok w" "state c = READING"
  shows "recv_post sys c (e @ recv_bytes es) (recv_ending es) w (recv_loop sys c es w)"
  using assms
proof (induction "io_weight es" arbitrary: c e es w rule: less_induct)
  case less
  note stop = recv_post_stop [OF less.prems]
  show ?case
  proof (cases rule: recv_loop_turn [of sys c es w])
    case (interrupted es1)
    with less.hyps [OF interrupted(4) less.prems] show ?thesis by simp
  next
    case (arrived d es1 c1 w1)
    have whole: "e @ recv_bytes es = (e @ d) @ recv_bytes es1" by (simp add: arrived(4))
    from less.prems(1,2) arrived(1) show ?thesis
    proof (cases rule: append_data_cases [where sys = sys])
      case over
      then have "c1 = c\<lparr>resp_val := RESP_414, state := PROCESSING\<rparr>" "w1 = w" using arrived(2) by simp_all
      with over(1) arrived(4,6) stop(4) [of "e @ recv_bytes es"] show ?thesis by simp
    next
      case nomem
      then have "c1 = c\<lparr>state := CLOSING\<rparr>" "w1 = w\<lparr>w_next := Suc (w_next w)\<rparr>" using arrived(2) by simp_all
      with nomem(1) arrived(6) stop(5) [of "e @ recv_bytes es"] show ?thesis by simp
    next
      case (stored p cap w')
      then have c1: "c1 = c\<lparr>in_buf := Some p, input_capacity := cap, input_length := length e + length d\<rparr>" "w1 = w'"
        using arrived(2) by simp_all
      have lt: "\<forall>i. in_buf c = Some i \<longrightarrow> i < w_next w"
        using input_okD(4) [OF less.prems(1)] world_ok_live(2) [OF less.prems(2)] by (auto simp: holds_def)
      have st: "state c1 = READING" "world_ok w1" "input_ok c1 (e @ d) w1"
        using c1 stored(3,4) less.prems(3) by (simp_all add: moved_def)
      from less.hyps [OF arrived(5) st(3,2,1)]
      have "recv_post sys c1 (e @ recv_bytes es) (recv_ending es) w1 (recv_loop sys c es w)"
        using arrived(3,6) st(1) by (simp add: whole)
      then show ?thesis
        by (rule recv_post_step [OF _ _ less.prems(2) lt]) (use stored(4) c1 in simp_all)
    qed
  qed (use stop(1-3) in simp_all)
qed

section \<open>Properties\<close>

text \<open>
  C15: reassembly.  For a connection whose buffer holds \<open>e\<close>, when memory is there and the input
  stays within \<^verbatim>\<open>MAX_REQUEST_SIZE\<close>, the receive loop leaves in the buffer exactly \<open>e\<close> followed by
  every byte that waited, however \<^verbatim>\<open>recv\<close> cut it into pieces and however often it was
  interrupted.  The connection goes on reading, or closes after end of file or an error.  No
  other block, stream or descriptor changes and nothing is overrun.
\<close>

theorem recv_loop_reassembles:
  assumes "input_ok c e w" "world_ok w" "state c = READING" "\<forall>i. os_alloc sys i"
    and "length e + length (recv_bytes es) \<le> MAX_REQUEST_SIZE"
  shows "case recv_loop sys c es w of (goes_on, c', es', w') \<Rightarrow>
     input_ok c' (e @ recv_bytes es) w' \<and> goes_on = (recv_ending es \<noteq> Hangup) \<and>
     state c' = (if recv_ending es = Idle then READING else CLOSING) \<and>
     rest_part c' = rest_part c \<and> moved (in_buf c) (in_buf c') w w'"
proof -
  obtain g c' es' w' where r: "recv_loop sys c es w = (g, c', es', w')" using prod_cases4 by blast
  from recv_loop_post [OF assms(1-3), of sys es] assms(4,5) show ?thesis
    by (auto simp: recv_post_def r split: if_splits)
qed

theorem recv_loop_reassembles_witness:
  "case recv_loop sample_os sample_Client [Data ''GE'', Fail EINTR, Data ''T'', Fail EAGAIN] empty_world of
     (goes_on, c', es', w') \<Rightarrow> input_ok c' ''GET'' w' \<and> goes_on \<and> state c' = READING"
  using recv_loop_reassembles [where c = sample_Client and e = "[]" and w = empty_world and sys = sample_os
      and es = "[Data ''GE'', Fail EINTR, Data ''T'', Fail EAGAIN]"]
  by (auto simp: input_ok_def sample_Client_def MAX_REQUEST_SIZE_def)

text \<open>
  C16: the input is bounded whatever arrives and whether or not memory is there: after the
  loop the buffer holds a prefix of what arrived, at most \<^verbatim>\<open>MAX_REQUEST_SIZE\<close> bytes in a block of
  at most that size, and nothing was overrun.  Input beyond the limit, with memory, ends in
  \<^verbatim>\<open>PROCESSING\<close> with code 414.
\<close>

theorem recv_loop_bounded:
  assumes "input_ok c e w" "world_ok w" "state c = READING"
  shows "case recv_loop sys c es w of (goes_on, c', es', w') \<Rightarrow>
     (\<exists>e'. input_ok c' e' w' \<and> prefix e' (e @ recv_bytes es)) \<and>
     input_length c' \<le> MAX_REQUEST_SIZE \<and> input_capacity c' \<le> MAX_REQUEST_SIZE \<and>
     w_faults w' = w_faults w \<and>
     ((\<forall>i. os_alloc sys i) \<and> MAX_REQUEST_SIZE < length e + length (recv_bytes es) \<longrightarrow>
        \<not> goes_on \<and> state c' = PROCESSING \<and> resp_val c' = RESP_414)"
proof -
  obtain g c' es' w' where r: "recv_loop sys c es w = (g, c', es', w')" using prod_cases4 by blast
  note p = recv_loop_post [OF assms, of sys es, unfolded r]
  then obtain e' where e: "input_ok c' e' w'" "prefix e' (e @ recv_bytes es)" by (auto simp: recv_post_def)
  have f: "w_faults w' = w_faults w" using p by (simp add: recv_post_def moved_def same_rest_def)
  have "(2 :: nat) ^ k \<le> 2 ^ 3" if "k \<le> 3" for k using that by (rule power_increasing) simp
  then have cap: "input_capacity c' \<le> MAX_REQUEST_SIZE"
    using e(1) by (auto simp: input_ok_def MAX_REQUEST_SIZE_def split: option.splits)
  have len: "input_length c' \<le> MAX_REQUEST_SIZE" using e(1) by (simp add: input_ok_def)
  have "\<not> g \<and> state c' = PROCESSING \<and> resp_val c' = RESP_414"
    if "\<forall>i. os_alloc sys i" "MAX_REQUEST_SIZE < length e + length (recv_bytes es)"
    using p that by (auto simp: recv_post_def input_ok_def split: if_splits)
  with e f cap len show ?thesis by (auto simp: r)
qed

theorem recv_loop_bounded_witness:
  "case recv_loop sample_os sample_Client [Data (replicate 9000 CR)] empty_world of
     (goes_on, c', es', w') \<Rightarrow> \<not> goes_on \<and> state c' = PROCESSING \<and> resp_val c' = RESP_414"
  using recv_loop_bounded [where c = sample_Client and e = "[]" and w = empty_world and sys = sample_os
      and es = "[Data (replicate 9000 CR)]"]
  by (auto simp: input_ok_def sample_Client_def MAX_REQUEST_SIZE_def split: prod.splits)

end
