(* ===== verification/Request_Pipeline.thy ===== *)
theory Request_Pipeline
  imports Do_Read
begin

text \<open>
  The request pipeline of \<^verbatim>\<open>do_read\<close> against a specification.  \<open>reply_status\<close> says which response
  code a request deserves, from the request line and from what the operating system answers
  about the resource; nothing in it mentions buffers, streams or the order of the calls.  The
  main lemma shows that, when memory is available and the operating system behaves as
  documented (\<open>sane_os\<close>), handling a complete request always stages one complete response whose
  status line carries that code.
\<close>

section \<open>Specification\<close>

text \<open>The request behind a buffer that the parser accepts.\<close>

definition parsed_request :: "os \<Rightarrow> bytes \<Rightarrow> nat \<Rightarrow> Request" where
  "parsed_request sys b len =
     (case request_line b len of
        None \<Rightarrow> zero_Request
      | Some line \<Rightarrow>
          (case split_words SP line of
             [m, p, v] \<Rightarrow>
               zero_Request\<lparr>time_received := os_now sys, req_method := method_from_token m (length m),
                            req_version := version_from_token v (length v), req_path := p\<rparr>
           | _ \<Rightarrow> zero_Request))"

definition resource_status :: "os \<Rightarrow> flags \<Rightarrow> Client \<Rightarrow> Request \<Rightarrow> client_response" where
  "resource_status sys app_flags c req =
     (case resource_of sys app_flags (local_path_of (req_path req)) of
        Refused r \<Rightarrow> r
      | Plain_file f m \<Rightarrow> RESP_200
      | Listing f \<Rightarrow> if os_opendir sys (drop 1 (req_path req)) = None then RESP_500 else RESP_200
      | Script f \<Rightarrow>
          if script_ok sys c (with_query (req_path req) zero_ResolvedPath) req then RESP_200 else RESP_500)"

definition reply_status :: "os \<Rightarrow> flags \<Rightarrow> Client \<Rightarrow> bytes \<Rightarrow> nat \<Rightarrow> client_response" where
  "reply_status sys app_flags c b len =
     (case parse_verdict b len of
        Some r \<Rightarrow> r
      | None \<Rightarrow> resource_status sys app_flags c (parsed_request sys b len))"

text \<open>
  The bytes of the reply, as a function of the request bytes and the file system alone.  A
  rejected request was a \<^verbatim>\<open>HEAD\<close> request when its line had three words and the code is not 400.
\<close>

definition resource_bytes :: "os \<Rightarrow> flags \<Rightarrow> Client \<Rightarrow> Request \<Rightarrow> bytes" where
  "resource_bytes sys app_flags c req =
     (let t = time_received req; head_only = (req_method req = HTTP_HEAD);
          status = resource_status sys app_flags c req
      in if status \<noteq> RESP_200 then error_bytes status t head_only
         else case resource_of sys app_flags (local_path_of (req_path req)) of
           Refused r \<Rightarrow> []
         | Plain_file f m \<Rightarrow>
             crlf_lines (file_lines (zero_ResolvedPath\<lparr>mime_type := m, rp_file_size := fi_size f\<rparr>) t
               (the (os_gmtime sys (fi_mtime f)))) @ CRLF @ (if head_only then [] else fi_data f)
         | Listing f \<Rightarrow>
             crlf_lines (dir_lines t (the (os_gmtime sys (fi_mtime f))) (length (the_page sys req))) @ CRLF @
             (if head_only then [] else the_page sys req)
         | Script f \<Rightarrow>
             (let d = cgi_body sys c (with_query (req_path req) zero_ResolvedPath) req
              in crlf_lines (cgi_lines t (length d)) @ CRLF @ d))"

definition head_request :: "bytes \<Rightarrow> nat \<Rightarrow> bool" where
  "head_request b len =
     (case request_line b len of
        None \<Rightarrow> False
      | Some line \<Rightarrow>
          (case split_words SP line of
             [m, p, v] \<Rightarrow> m = ''HEAD'' \<and> line_verdict [m, p, v] \<noteq> Some RESP_400
           | _ \<Rightarrow> False))"

definition reply_bytes :: "os \<Rightarrow> flags \<Rightarrow> Client \<Rightarrow> bytes \<Rightarrow> nat \<Rightarrow> bytes" where
  "reply_bytes sys app_flags c b len =
     (case parse_verdict b len of
        Some r \<Rightarrow> error_bytes r (os_now sys) (head_request b len)
      | None \<Rightarrow> resource_bytes sys app_flags c (parsed_request sys b len))"

text \<open>
  The documented behaviour the result rests on: \<^verbatim>\<open>fstat\<close> works on an open stream and reports the
  size of a regular file, times and MIME types are printable, a script's output fits a
  \<^verbatim>\<open>size_t\<close>, and no directory is called like an index file.
\<close>

definition sane_os :: "os \<Rightarrow> bool" where
  "sane_os sys \<longleftrightarrow>
     stat_works sys \<and> CR \<notin> set (os_now sys) \<and> length (os_now sys) < TIME_RECEIVED_LENGTH \<and>
     (\<forall>t. \<exists>s. os_gmtime sys t = Some s \<and> CR \<notin> set s) \<and>
     (\<forall>f. \<exists>m. os_magic sys f = Some m \<and> CR \<notin> set m) \<and>
     (\<forall>p f. os_fopen sys p = Inr f \<longrightarrow> \<not> fi_is_dir f \<longrightarrow>
        fi_size f = int (length (fi_data f)) \<and> length (fi_data f) < 2 ^ 64) \<and>
     (\<forall>lp f. find_index sys lp = Some f \<longrightarrow> \<not> fi_is_dir f) \<and>
     (\<forall>p e d. cgi_stream (cgi_output (os_cgi sys p e)) = Some d \<longrightarrow> length d < 2 ^ 64)"

section \<open>From the resolved path to the builders\<close>

lemma mime_lookup_in: "mime_lookup tbl ext = Some t \<Longrightarrow> t \<in> snd ` set tbl"
  by (induction tbl ext rule: mime_lookup.induct) (auto split: if_splits)

lemma mime_table_plain: "mime_lookup mime_table ext = Some t \<Longrightarrow> CR \<notin> set t"
  by (drule mime_lookup_in) (auto simp: mime_table_def)

lemma mime_type_plain:
  assumes "sane_os sys"
  shows "\<exists>m. get_mime_type_by_ext sys name f = Some m \<and> CR \<notin> set m"
proof -
  have "\<exists>m. os_magic sys f = Some m \<and> CR \<notin> set m" using assms by (simp add: sane_os_def)
  then show ?thesis
    by (auto simp: get_mime_type_by_ext_def dest: mime_table_plain split: option.splits)
qed

lemma sane_gmtime: "sane_os sys \<Longrightarrow> \<exists>s. os_gmtime sys t = Some s \<and> CR \<notin> set s"
  by (simp add: sane_os_def)

lemma find_index_opens: "find_index sys lp = Some f \<Longrightarrow> \<exists>name. os_fopen sys name = Inr f"
  by (auto simp: find_index_def Let_def split: sum.splits)

lemma plain_file_sane:
  assumes "sane_os sys" "resource_of sys fl lp = Plain_file f m"
  shows "\<exists>t. m = Some t \<and> CR \<notin> set t" "fi_size f = int (length (fi_data f))" "length (fi_data f) < 2 ^ 64"
proof -
  from assms(2) consider (index) "find_index sys lp = Some f" "m = Some ''text/html''"
    | (regular) "os_fopen sys lp = Inr f" "\<not> fi_is_dir f" "m = get_mime_type_by_ext sys lp f"
    by (auto simp: resource_of_def split: sum.splits if_splits option.splits)
  then have "(\<exists>t. m = Some t \<and> CR \<notin> set t) \<and> (\<exists>p. os_fopen sys p = Inr f) \<and> \<not> fi_is_dir f"
  proof cases
    case index
    then show ?thesis using assms(1) find_index_opens [of sys lp f] by (auto simp: sane_os_def)
  next
    case regular
    then show ?thesis using mime_type_plain [OF assms(1), of lp f] by auto
  qed
  with assms(1) show "\<exists>t. m = Some t \<and> CR \<notin> set t" "fi_size f = int (length (fi_data f))"
    "length (fi_data f) < 2 ^ 64" by (auto simp: sane_os_def)
qed

lemma query_string_length: "length (query_string (with_query t zero_ResolvedPath)) \<le> PATH_MAX"
  by (auto simp: with_query_def strlcpy_def zero_ResolvedPath_def split: option.split)

lemma script_ok_cong:
  "query_string rp = query_string rp' \<Longrightarrow> client_addr c = client_addr c' \<Longrightarrow>
     script_ok sys c rp req = script_ok sys c' rp' req"
  by (simp add: script_ok_def cgi_run_of_def cgi_env_def)

lemma cgi_body_cong:
  "query_string rp = query_string rp' \<Longrightarrow> client_addr c = client_addr c' \<Longrightarrow>
     cgi_body sys c rp req = cgi_body sys c' rp' req"
  by (simp add: cgi_body_def cgi_run_of_def cgi_env_def)

lemma file_lines_cong:
  "mime_type rp = mime_type rp' \<Longrightarrow> rp_file_size rp = rp_file_size rp' \<Longrightarrow> file_lines rp t m = file_lines rp' t m"
  by (simp add: file_lines_def)

text \<open>Of the connection only the peer's address matters for the reply.\<close>

lemma resource_cong:
  assumes "client_addr c = client_addr c'"
  shows "resource_status sys fl c req = resource_status sys fl c' req"
    "resource_bytes sys fl c req = resource_bytes sys fl c' req"
proof -
  have e: "script_ok sys c = script_ok sys c'" "cgi_body sys c = cgi_body sys c'"
    by (intro ext script_ok_cong [OF refl assms] cgi_body_cong [OF refl assms])+
  show "resource_status sys fl c req = resource_status sys fl c' req"
    unfolding resource_status_def e ..
  then show "resource_bytes sys fl c req = resource_bytes sys fl c' req"
    unfolding resource_bytes_def e by simp
qed

lemma reply_cong:
  assumes "client_addr c = client_addr c'"
  shows "reply_status sys fl c b n = reply_status sys fl c' b n" "reply_bytes sys fl c b n = reply_bytes sys fl c' b n"
  unfolding reply_status_def reply_bytes_def by (simp_all only: resource_cong [OF assms])

lemma resource_resp [simp]:
  "resource_status sys fl (c\<lparr>resp_val := r\<rparr>) req = resource_status sys fl c req"
  "resource_bytes sys fl (c\<lparr>resp_val := r\<rparr>) req = resource_bytes sys fl c req"
  by (simp_all add: resource_cong [of "c\<lparr>resp_val := r\<rparr>" c])

lemma cgi_body_sane: "sane_os sys \<Longrightarrow> length (cgi_body sys c rp req) < 2 ^ 64"
  by (simp add: cgi_body_def cgi_run_of_def sane_os_def split: option.split)

text \<open>
  A resolution that succeeds leaves everything in place for the builder of its kind, and the
  code the dispatcher ends with is that of the resource.
\<close>

lemma script_ready:
  fixes req :: Request
  assumes sane: "sane_os sys" and ok: "world_ok w'"
    and req: "time_received req = os_now sys" "length (req_path req) < PATH_MAX"
    and rp: "path_type rp = IS_CGI" "query_string rp = query_string (with_query (req_path req) zero_ResolvedPath)"
      "client_addr c' = client_addr c" "flag_set fl C_FLAG"
    and r: "resource_of sys fl (local_path_of (req_path req)) = Script f"
  shows "path_ready sys c' rp req w'" "okay_status sys fl c' rp req = resource_status sys fl c req"
    "okay_bytes sys fl c' rp req w' = resource_bytes sys fl c req"
proof -
  have "CR \<notin> set (time_received req)" "length (time_received req) < TIME_RECEIVED_LENGTH"
    using sane req by (simp_all add: sane_os_def)
  then show "path_ready sys c' rp req w'"
    using ok req rp query_string_length cgi_body_sane [OF sane] by (simp add: path_ready_def cgi_ready_def)
  show s: "okay_status sys fl c' rp req = resource_status sys fl c req"
    using rp r script_ok_cong [OF rp(2,3)] by (simp add: okay_status_def resource_status_def)
  show "okay_bytes sys fl c' rp req w' = resource_bytes sys fl c req"
    using s r rp(1) cgi_body_cong [OF rp(2,3)] by (simp add: okay_bytes_def resource_bytes_def Let_def)
qed

lemma plain_ready:
  fixes req :: Request
  assumes sane: "sane_os sys" and ok: "world_ok w'" and req: "time_received req = os_now sys"
    and rp: "path_type rp = IS_FILE" "rp_file_ptr rp = Some h" "rp_file_size rp = fi_size f" "last_mod rp = fi_mtime f"
    and w': "w_streams w' h = Some \<lparr>s_file = f, s_pos = 0\<rparr>"
    and r: "resource_of sys fl (local_path_of (req_path req)) = Plain_file f (mime_type rp)"
  shows "path_ready sys c' rp req w'" "okay_status sys fl c' rp req = resource_status sys fl c req"
    "okay_bytes sys fl c' rp req w' = resource_bytes sys fl c req"
proof -
  have cr: "CR \<notin> set (time_received req)" using sane req by (simp add: sane_os_def)
  obtain t where t: "os_gmtime sys (last_mod rp) = Some t" "CR \<notin> set t" using sane_gmtime [OF sane] by blast
  have "file_ready sys (rp, req) w'"
    using plain_file_sane [OF sane r] rp w' t cr by (auto simp: file_ready_def)
  with ok cr rp(1) show "path_ready sys c' rp req w'" by (simp add: path_ready_def)
  show "okay_status sys fl c' rp req = resource_status sys fl c req"
    using rp(1) r by (simp add: okay_status_def resource_status_def)
  show "okay_bytes sys fl c' rp req w' = resource_bytes sys fl c req"
    using file_lines_cong [of rp "zero_ResolvedPath\<lparr>mime_type := mime_type rp, rp_file_size := fi_size f\<rparr>"] rp r w'
    by (simp add: okay_bytes_def resource_bytes_def okay_status_def resource_status_def stream_data_def Let_def)
qed

lemma resolve_ready:
  fixes req :: Request
  assumes sane: "sane_os sys" and ok: "world_ok w"
    and res: "resolve_path sys fl c req zero_ResolvedPath w = (0, c', rp, w')"
    and req: "time_received req = os_now sys" "length (req_path req) < PATH_MAX"
  shows "path_ready sys c' rp req w' \<and> okay_status sys fl c' rp req = resource_status sys fl c req \<and>
     okay_bytes sys fl c' rp req w' = resource_bytes sys fl c req \<and> out_buf c' = out_buf c"
proof -
  have st: "stat_works sys" and cr: "CR \<notin> set (time_received req)" using sane req by (simp_all add: sane_os_def)
  from ok st res show ?thesis
  proof (cases rule: resolve_path_cases)
    case (listing f)
    have "world_ok w'" using ok listing by (auto simp: world_ok_def only_streams_def)
    moreover obtain t where "os_gmtime sys (last_mod rp) = Some t" "CR \<notin> set t"
      using sane_gmtime [OF sane] by blast
    ultimately show ?thesis
      using listing cr
      by (auto simp: path_ready_def dir_ready_def okay_status_def resource_status_def okay_bytes_def resource_bytes_def Let_def)
  next
    case (serve h f name)
    have okw: "world_ok w'" using ok serve(8-11) by (auto simp: world_ok_def only_streams_def)
    show ?thesis
    proof (cases "path_type rp = IS_CGI")
      case True
      with script_ready [OF sane okw req True serve(15), of c' c fl f] serve(2,7,14) show ?thesis by simp
    next
      case False
      then have isf: "path_type rp = IS_FILE" using serve(6) by auto
      have r: "w_streams w' h = Some \<lparr>s_file = f, s_pos = 0\<rparr>"
        "resource_of sys fl (local_path_of (req_path req)) = Plain_file f (mime_type rp)"
        using serve(11,14) False by simp_all
      from plain_ready(1) [OF sane okw req(1) isf serve(3-5) r] plain_ready(2,3) [OF sane okw req(1) isf serve(3-5) r, of c' c]
        serve(2) show ?thesis by simp
    qed
  qed simp_all
qed

section \<open>The pipeline\<close>

lemma error_reply_answers:
  assumes "is_error (resp_val c)" "CR \<notin> set (time_received req)" "\<forall>i. os_alloc sys i"
  shows "\<exists>c' w'. error_reply sys c req w = (c', w') \<and> answered w' c' \<and>
     staged w' c' (error_bytes (resp_val c) (time_received req) (req_method req = HTTP_HEAD)) \<and>
     resp_val c' = resp_val c \<and> conn_part c' = conn_part c"
  using build_error_answers [OF assms(1,2), of sys w] assms(3)
  by (auto simp: error_reply_def build_error_response_def)

lemma parse_verdict_error: "parse_verdict b len = Some r \<Longrightarrow> is_error r"
  by (auto simp: parse_verdict_def line_verdict_def is_error_iff split: option.splits list.splits if_splits)

lemma parse_time_plain:
  assumes "CR \<notin> set (os_now sys)"
  shows "CR \<notin> set (time_received (out_of (parse_request sys fl (Some b) len zero_Request resp le w)))"
proof (cases "request_line b len")
  case None
  then show ?thesis by (simp add: parse_request_incomplete out_of_def zero_Request_def determined_400_def)
next
  case (Some line)
  obtain le1 w1 where log: "log_line sys fl line le w = (le1, w1)" by fastforce
  from assms show ?thesis
    unfolding parse_request_eq [OF Some log]
    by (auto simp: out_of_def determined_400_def Let_def split: list.splits option.splits)
qed

lemma parse_request_parsed:
  assumes "parse_request sys fl (Some b) len zero_Request resp le w = (0, req, resp', le', w')"
  shows "req = parsed_request sys b len" "resp' = resp" "parse_verdict b len = None"
    "time_received req = os_now sys" "length (req_path req) < PATH_MAX"
proof -
  have rc: "rc_of (parse_request sys fl (Some b) len zero_Request resp le w) = 0"
    and out: "out_of (parse_request sys fl (Some b) len zero_Request resp le w) = req"
    by (simp_all add: assms result_defs)
  from rc obtain line m p v where "request_line b len = Some line" "split_words SP line = [m, p, v]"
      "req = zero_Request\<lparr>time_received := os_now sys, req_method := method_from_token m (length m),
           req_version := version_from_token v (length v), req_path := p\<rparr>"
    by (rule parse_request_accepted) (simp add: out)
  then show "req = parsed_request sys b len" "time_received req = os_now sys"
    by (simp_all add: parsed_request_def)
  show "parse_verdict b len = None" "resp' = resp"
    using parse_request_spec [of sys fl b len zero_Request resp le w]
    by (auto simp: assms result_defs split: if_splits option.splits)
  show "length (req_path req) < PATH_MAX"
    using parse_request_safe [OF rc] by (simp add: out Let_def)
qed

text \<open>What the handler knows of a request that was rejected.\<close>

lemma method_HEAD: "method_from_token m (length m) = HTTP_HEAD \<longleftrightarrow> m = ''HEAD''"
  unfolding method_from_token_eq by auto

lemma parse_request_rejected:
  assumes "parse_request sys fl (Some b) len zero_Request resp le w = (rc, req, resp', le', w')" "rc \<noteq> 0"
    and line: "request_line b len = Some line"
  shows "time_received req = os_now sys" "(req_method req = HTTP_HEAD) = head_request b len"
proof -
  obtain le1 w1 where log: "log_line sys fl line le w = (le1, w1)" by fastforce
  note e = assms(1) [unfolded parse_request_eq [OF line log]]
  have "time_received req = os_now sys \<and> (req_method req = HTTP_HEAD) = head_request b len"
  proof (cases "\<exists>m p v. split_words SP line = [m, p, v]")
    case True
    then obtain m p v where ws: "split_words SP line = [m, p, v]" by blast
    show ?thesis
    proof (cases "line_verdict [m, p, v]")
      case None
      with e ws assms(2) show ?thesis by (simp add: Let_def)
    next
      case (Some r)
      with e ws line show ?thesis
        using method_HEAD [of m]
        by (cases "r = RESP_400"; cases "m = ''HEAD''")
           (auto simp: Let_def determined_400_def head_request_def simp del: One_nat_def list.size)
    qed
  next
    case False
    with e line show ?thesis by (auto simp: Let_def not_three_words determined_400_def head_request_def)
  qed
  then show "time_received req = os_now sys" "(req_method req = HTTP_HEAD) = head_request b len" by auto
qed

text \<open>Resolution that fails, seen from the specification.\<close>

lemma resolve_refused:
  assumes "stat_works sys" "world_ok w" "resolve_path sys fl c req rp0 w = (rc, c', rp, w')" "rc \<noteq> 0"
  shows "\<exists>r. is_error r \<and> resource_status sys fl c req = r \<and> c' = c\<lparr>resp_val := r\<rparr> \<and>
     rp_file_ptr rp = None"
  using assms(2,1,3)
proof (cases rule: resolve_path_cases)
  case (nofile e)
  then show ?thesis by (auto simp: resource_status_def is_error_iff)
next
  case (cgi_off f)
  then show ?thesis by (auto simp: resource_status_def is_error_iff)
qed (use assms(4) in simp_all)

lemma resolve_keeps:
  assumes "stat_works sys" "world_ok w" "resolve_path sys fl c req rp0 w = (rc, c', rp, w')"
  shows "conn_part c' = conn_part (c\<lparr>file_ptr := file_ptr c'\<rparr>)"
  using assms(2,1,3) by (cases rule: resolve_path_cases) (simp_all add: conn_part_def)

lemma conn_part_file_ptr: "conn_part c = conn_part d \<Longrightarrow> file_ptr c = file_ptr d"
  by (simp add: conn_part_def)

lemma conn_part_via:
  assumes "conn_part d = conn_part b" "conn_part b = conn_part (c\<lparr>resp_val := r, file_ptr := file_ptr b\<rparr>)"
  shows "conn_part d = conn_part (c\<lparr>file_ptr := file_ptr d\<rparr>)"
  using assms by (simp add: conn_part_def)

text \<open>The three ways through the handler's condition.\<close>

lemma serve_request_bad:
  assumes "parse_request sys fl (Some (block_data w (in_buf c))) (header_len c) zero_Request (resp_val c) le w =
      (rc, req, resp, le1, w1)" "rc \<noteq> 0" "error_reply sys (c\<lparr>resp_val := resp\<rparr>) req w1 = (c3, w3)"
  shows "serve_request sys fl c le w = (c3, zero_ResolvedPath, le1, w3)"
  using assms(2,3) unfolding serve_request_def assms(1) by simp

lemma serve_request_refused:
  assumes "parse_request sys fl (Some (block_data w (in_buf c))) (header_len c) zero_Request (resp_val c) le w =
      (0, req, resp, le1, w1)"
    and "resolve_path sys fl (c\<lparr>resp_val := resp\<rparr>) req zero_ResolvedPath w1 = (rc2, c2, rp, w2)" "rc2 \<noteq> 0"
    and "error_reply sys c2 req w2 = (c3, w3)"
  shows "serve_request sys fl c le w = (c3, rp, le1, w3)"
  using assms(2-4) unfolding serve_request_def assms(1) by simp

lemma serve_request_built:
  assumes "parse_request sys fl (Some (block_data w (in_buf c))) (header_len c) zero_Request (resp_val c) le w =
      (0, req, resp, le1, w1)"
    and "resolve_path sys fl (c\<lparr>resp_val := resp\<rparr>) req zero_ResolvedPath w1 = (0, c2, rp, w2)"
    and "build_okay_response sys fl c2 rp req w2 = (rc3, c3, w3)"
  shows "serve_request sys fl c le w = (c3, rp, le1, w3)"
  using assms(2,3) unfolding serve_request_def assms(1) by simp

text \<open>
  What a way through the pipeline has to establish: one complete response is staged, its bytes
  are \<open>d\<close> and its code is \<open>r\<close>, and of the connection only the stream may have changed.
\<close>

definition replied :: "Client \<Rightarrow> client_response \<Rightarrow> bytes \<Rightarrow> Client \<Rightarrow> world \<Rightarrow> bool" where
  "replied c r d c' w' \<longleftrightarrow>
     answered w' c' \<and> staged w' c' d \<and> resp_val c' = r \<and> conn_part c' = conn_part (c\<lparr>file_ptr := file_ptr c'\<rparr>)"

lemma error_reply_replied:
  assumes "is_error (resp_val d)" "CR \<notin> set (time_received req)" "\<forall>i. os_alloc sys i"
    and "conn_part d = conn_part (c\<lparr>resp_val := r, file_ptr := file_ptr d\<rparr>)"
  shows "\<exists>c' w'. error_reply sys d req w = (c', w') \<and> 
     replied c (resp_val d) (error_bytes (resp_val d) (time_received req) (req_method req = HTTP_HEAD)) c' w'"
proof -
  from error_reply_answers [OF assms(1-3), of w] obtain c' w' where
    e: "error_reply sys d req w = (c', w')" "answered w' c'" "resp_val c' = resp_val d" "conn_part c' = conn_part d"
      "staged w' c' (error_bytes (resp_val d) (time_received req) (req_method req = HTTP_HEAD))"
    by blast
  with conn_part_via [OF e(4) assms(4)] show ?thesis by (auto simp: replied_def)
qed

lemma build_okay_replied:
  assumes "okay_ready sys d rp req w" "out_buf d = None"
    and "conn_part d = conn_part (c\<lparr>resp_val := r, file_ptr := file_ptr d\<rparr>)"
  shows "\<exists>c' w'. build_okay_response sys fl d rp req w = (0, c', w') \<and>
     replied c (okay_status sys fl d rp req) (okay_bytes sys fl d rp req w) c' w'"
proof -
  from build_okay_response_answers [OF assms(1,2), of fl] obtain c' w' where
    e: "build_okay_response sys fl d rp req w = (0, c', w')" "answered w' c'"
      "resp_val c' = okay_status sys fl d rp req" "conn_part c' = conn_part d"
      "staged w' c' (okay_bytes sys fl d rp req w)"
    by blast
  with conn_part_via [OF e(4) assms(3)] show ?thesis by (auto simp: replied_def)
qed

lemma serve_request_accepted:
  assumes sane: "sane_os sys" and al: "\<forall>i. os_alloc sys i" and ok: "world_ok w" and out: "out_buf c = None"
    and p: "parse_request sys fl (Some (block_data w (in_buf c))) (header_len c) zero_Request (resp_val c) le w =
      (0, req, resp, le1, w)"
  shows "\<exists>c' rp w'. serve_request sys fl c le w = (c', rp, le1, w') \<and>
     replied c (resource_status sys fl c req) (resource_bytes sys fl c req) c' w'"
proof -
  have st: "stat_works sys" using sane by (simp add: sane_os_def)
  note pr = parse_request_parsed [OF p]
  have t: "CR \<notin> set (time_received req)" using sane pr(4) by (simp add: sane_os_def)
  obtain rc2 c2 rp w2 where r:
    "resolve_path sys fl (c\<lparr>resp_val := resp\<rparr>) req zero_ResolvedPath w = (rc2, c2, rp, w2)"
    using prod_cases4 by blast
  have k: "conn_part c2 = conn_part (c\<lparr>resp_val := resp, file_ptr := file_ptr c2\<rparr>)"
    using resolve_keeps [OF st ok r] by simp
  show ?thesis
  proof (cases "rc2 = 0")
    case True
    note r0 = r [unfolded True]
    have rd: "okay_ready sys c2 rp req w2" "okay_status sys fl c2 rp req = resource_status sys fl c req"
      "okay_bytes sys fl c2 rp req w2 = resource_bytes sys fl c req" "out_buf c2 = None"
      using resolve_ready [OF sane ok r0 pr(4,5)] out al by (simp_all add: okay_ready_def)
    from build_okay_replied [OF rd(1,4) k, of fl] obtain c3 w3 where
      "build_okay_response sys fl c2 rp req w2 = (0, c3, w3)"
      "replied c (resource_status sys fl c req) (resource_bytes sys fl c req) c3 w3"
      unfolding rd(2,3) by blast
    with serve_request_built [OF p r0] show ?thesis by blast
  next
    case False
    from resolve_refused [OF st ok r False] have x: "is_error (resp_val c2)"
        "resp_val c2 = resource_status sys fl c req" by auto
    then have y: "error_bytes (resp_val c2) (time_received req) (req_method req = HTTP_HEAD) =
        resource_bytes sys fl c req"
      by (auto simp: resource_bytes_def is_error_iff)
    from error_reply_replied [OF x(1) t al k, of w2] obtain c3 w3 where
      "error_reply sys c2 req w2 = (c3, w3)"
      "replied c (resource_status sys fl c req) (resource_bytes sys fl c req) c3 w3"
      unfolding y unfolding x(2) by blast
    with serve_request_refused [OF p r False] show ?thesis by blast
  qed
qed

lemma serve_request_replies:
  assumes sane: "sane_os sys" and al: "\<forall>i. os_alloc sys i" and ok: "world_ok w"
    and out: "out_buf c = None"
    and len: "header_len c \<le> MAX_REQUEST_SIZE" and log: "log_ok le"
      "le_offset le + length (os_now sys) + header_len c < LOG_BUF_SIZE"
    and line: "request_line (block_data w (in_buf c)) (header_len c) \<noteq> None"
  shows "\<exists>c' rp le' w'. serve_request sys fl c le w = (c', rp, le', w') \<and>
     replied c (reply_status sys fl c (block_data w (in_buf c)) (header_len c))
       (reply_bytes sys fl c (block_data w (in_buf c)) (header_len c)) c' w' \<and>
     log_ok le' \<and> le_offset le' \<le> le_offset le + length (os_now sys) + header_len c"
proof -
  let ?b = "block_data w (in_buf c)" and ?n = "header_len c"
  have cr: "CR \<notin> set (os_now sys)" using sane by (simp add: sane_os_def)
  obtain rc req resp le1 w1 where p1:
    "parse_request sys fl (Some ?b) ?n zero_Request (resp_val c) le w = (rc, req, resp, le1, w1)"
    using prod_cases5 by blast
  have b: "w1 = w" "log_ok le1" "le_offset le1 \<le> le_offset le + length (os_now sys) + ?n"
    using parse_request_bounds [OF len log, of fl "Some ?b" zero_Request "resp_val c" w]
    by (simp_all add: p1 Let_def result_defs)
  note p = p1 [unfolded b(1)]
  have t: "CR \<notin> set (time_received req)"
    using parse_time_plain [OF cr, of fl ?b ?n "resp_val c" le w] by (simp add: p out_of_def)
  show ?thesis
  proof (cases "rc = 0")
    case True
    note p0 = p [unfolded True]
    have "resource_status sys fl c req = reply_status sys fl c ?b ?n"
      "resource_bytes sys fl c req = reply_bytes sys fl c ?b ?n"
      using parse_request_parsed(1,3) [OF p0] by (simp_all add: reply_status_def reply_bytes_def)
    with serve_request_accepted [OF sane al ok out p0] b(2,3) show ?thesis by auto
  next
    case False
    then obtain r where r: "parse_verdict ?b ?n = Some r" "resp = r"
      using parse_request_spec [of sys fl ?b ?n zero_Request "resp_val c" le w]
      by (auto simp: p result_defs split: if_splits option.splits)
    obtain line where "request_line ?b ?n = Some line" using line by blast
    note h = parse_request_rejected [OF p False this]
    let ?d = "c\<lparr>resp_val := resp\<rparr>"
    have d: "is_error (resp_val ?d)" "conn_part ?d = conn_part (c\<lparr>resp_val := resp, file_ptr := file_ptr ?d\<rparr>)"
      using r parse_verdict_error by simp_all
    from error_reply_replied [OF d(1) t al d(2), of w] obtain c3 w3 where
      e: "error_reply sys ?d req w = (c3, w3)"
        "replied c (reply_status sys fl c ?b ?n) (reply_bytes sys fl c ?b ?n) c3 w3"
      using r h by (auto simp: reply_status_def reply_bytes_def)
    from serve_request_bad [OF p False e(1)] e(2) b(2,3) show ?thesis by blast
  qed
qed

section \<open>The whole handler\<close>

lemma staged_blocks: "w_blocks w' = w_blocks w \<Longrightarrow> staged w' c d = staged w c d"
  by (simp add: staged_def)

lemma answered_blocks:
  assumes "w_blocks w' = w_blocks w"
  shows "answered w' c = answered w c"
  unfolding answered_def complete_response_def staged_blocks [OF assms] ..

lemma staged_state: "staged w (c\<lparr>state := s\<rparr>) d = staged w c d"
  by (simp add: staged_def)

lemma answered_state [simp]: "answered w (c\<lparr>state := s\<rparr>) = answered w c"
  by (simp add: answered_def complete_response_def staged_state)

lemma do_logging_fields [frame_simps]:
  "w_blocks (do_logging p le w) = w_blocks w" "w_streams (do_logging p le w) = w_streams w"
  "w_fds (do_logging p le w) = w_fds w" "w_wire (do_logging p le w) = w_wire w"
  "w_shut (do_logging p le w) = w_shut w" "w_next (do_logging p le w) = w_next w"
  by (simp_all add: do_logging_def raise_fault_def split: option.splits)

lemma log_reply_fields [frame_simps]:
  "w_blocks (log_reply fl p c le w) = w_blocks w" "w_streams (log_reply fl p c le w) = w_streams w"
  "w_fds (log_reply fl p c le w) = w_fds w" "w_wire (log_reply fl p c le w) = w_wire w"
  "w_shut (log_reply fl p c le w) = w_shut w" "w_next (log_reply fl p c le w) = w_next w"
  by (simp_all add: log_reply_def case_prod_unfold frame_simps)

lemma close_resolve_fields [frame_simps]:
  "w_blocks (snd (close_resolve_path_ptr rp w)) = w_blocks w"
  by (simp add: close_resolve_path_ptr_def world_simps split: option.split)

lemma strnstr_head:
  assumes "strnstr b (CRLF @ CRLF) n = Some k"
  shows "k + 4 \<le> n" "k + 4 \<le> length b"
  using assms find_sub_Some_length [of "cstr (take n b)" "CRLF @ CRLF" k] cstr_length [of "take n b"]
  by (auto simp: strnstr_def)

text \<open>The log entry has room for the address, and then for the request.\<close>

lemma start_log_ok:
  assumes "length (client_addr c) < INET6_ADDRSTRLEN"
  shows "\<exists>le. start_log fl c w = (le, w) \<and> log_ok le \<and> le_offset le \<le> INET6_ADDRSTRLEN"
proof -
  have "le_offset zero_LogEntry + length (client_addr c @ '' '') < LOG_BUF_SIZE"
    using assms by (simp add: LOG_BUF_SIZE_def INET6_ADDRSTRLEN_def)
  note f = log_append_fits [OF log_ok_zero this, of w]
  show ?thesis
  proof (cases "logging_on fl")
    case True
    then have "start_log fl c w = log_append zero_LogEntry (client_addr c @ '' '') w"
      by (simp add: start_log_def)
    with f assms show ?thesis by (auto simp: zero_LogEntry_def)
  next
    case False
    then show ?thesis by (auto simp: start_log_def)
  qed
qed

text \<open>
  The handler on a complete head, as one equation, with what is known of the buffer and of the
  log entry when \<open>serve_request\<close> is called.
\<close>

lemma handle_request_unfold:
  assumes inp: "input_ok c e w" "strnstr e (CRLF @ CRLF) (length e) = Some k"
    and addr: "length (client_addr c) < INET6_ADDRSTRLEN"
  obtains l where "start_log fl (c\<lparr>header_len := k + 4\<rparr>) w = (l, w)" "log_ok l" "le_offset l \<le> INET6_ADDRSTRLEN"
    "block_data w (in_buf c) = e" "k + 4 \<le> MAX_REQUEST_SIZE" "request_line e (k + 4) \<noteq> None"
    "\<And>sys log_ptr p. handle_request sys fl log_ptr c p w =
       (case serve_request sys fl (c\<lparr>header_len := k + 4\<rparr>) l w of (c2, rp, le, w2) \<Rightarrow>
          (c2\<lparr>state := SENDING_HEADER\<rparr>, p\<lparr>pfd_events := POLLOUT\<rparr>,
           snd (close_resolve_path_ptr rp (log_reply fl log_ptr c2 le w2))))"
proof -
  have k: "k + 4 \<le> length e" by (rule strnstr_head [OF inp(2)])
  then obtain q where q: "in_buf c = Some q" using input_okD(3) [OF inp(1)] by (cases "in_buf c") auto
  have e: "block_data w (in_buf c) = e"
    using input_okD(4) [OF inp(1) q] by (simp add: q block_data_def holds_def)
  have le: "length e \<le> MAX_REQUEST_SIZE" "input_length c = length e" using input_okD [OF inp(1)] by simp_all
  let ?c = "c\<lparr>header_len := k + 4\<rparr>"
  obtain l where l: "start_log fl ?c w = (l, w)" "log_ok l" "le_offset l \<le> INET6_ADDRSTRLEN"
    using start_log_ok [of ?c fl w] addr by auto
  have nb: "(in_buf c = None \<or> input_length c = 0) = False" using q k le by auto
  have "handle_request sys fl log_ptr c p w =
       (case serve_request sys fl ?c l w of (c2, rp, le, w2) \<Rightarrow>
          (c2\<lparr>state := SENDING_HEADER\<rparr>, p\<lparr>pfd_events := POLLOUT\<rparr>,
           snd (close_resolve_path_ptr rp (log_reply fl log_ptr c2 le w2))))" for sys log_ptr p
    unfolding handle_request_def nb if_False e unfolding le(2) inp(2) using l(1)
    by (simp add: case_prod_unfold Let_def)
  moreover have "request_line e (k + 4) \<noteq> None"
    using strnstr_cut [OF inp(2)] by (simp add: request_line_None eval_nat_numeral)
  ultimately show thesis using l e k le(1) by (intro that) simp_all
qed

lemma log_has_room:
  assumes "sane_os sys" "le_offset l \<le> INET6_ADDRSTRLEN" "n \<le> MAX_REQUEST_SIZE"
  shows "le_offset l + length (os_now sys) + n < LOG_BUF_SIZE"
  using assms by (simp add: sane_os_def LOG_BUF_SIZE_def INET6_ADDRSTRLEN_def TIME_RECEIVED_LENGTH_def)

text \<open>
  A complete head in the buffer: the handler stages the response of the specification, asks to
  be woken for writing and moves on to sending.
\<close>

lemma handle_request_replies:
  assumes sane: "sane_os sys" and al: "\<forall>i. os_alloc sys i" and ok: "world_ok w" and out: "out_buf c = None"
    and addr: "length (client_addr c) < INET6_ADDRSTRLEN"
    and inp: "input_ok c e w" "strnstr e (CRLF @ CRLF) (length e) = Some k"
  shows "\<exists>c' w'. handle_request sys fl log_ptr c p w = (c', p\<lparr>pfd_events := POLLOUT\<rparr>, w') \<and>
     state c' = SENDING_HEADER \<and> answered w' c' \<and> staged w' c' (reply_bytes sys fl c e (k + 4)) \<and>
     resp_val c' = reply_status sys fl c e (k + 4) \<and> fd c' = fd c \<and> in_buf c' = in_buf c \<and>
     output_sent c' = output_sent c"
proof -
  let ?c1 = "c\<lparr>header_len := k + 4\<rparr>"
  from inp addr obtain l where l: "log_ok l" "le_offset l \<le> INET6_ADDRSTRLEN" "block_data w (in_buf c) = e"
    "k + 4 \<le> MAX_REQUEST_SIZE" "request_line e (k + 4) \<noteq> None"
    and h: "handle_request sys fl log_ptr c p w =
       (case serve_request sys fl ?c1 l w of (c2, rp, le, w2) \<Rightarrow>
          (c2\<lparr>state := SENDING_HEADER\<rparr>, p\<lparr>pfd_events := POLLOUT\<rparr>,
           snd (close_resolve_path_ptr rp (log_reply fl log_ptr c2 le w2))))"
    by (rule handle_request_unfold [where fl = fl]) blast
  have o1: "out_buf ?c1 = None" "header_len ?c1 \<le> MAX_REQUEST_SIZE"
    "le_offset l + length (os_now sys) + header_len ?c1 < LOG_BUF_SIZE"
    "request_line (block_data w (in_buf ?c1)) (header_len ?c1) \<noteq> None"
    using out l log_has_room [OF sane l(2,4)] by simp_all
  have st: "reply_status sys fl ?c1 e (k + 4) = reply_status sys fl c e (k + 4)"
    "reply_bytes sys fl ?c1 e (k + 4) = reply_bytes sys fl c e (k + 4)"
    using reply_cong [of ?c1 c sys fl e "k + 4"] by simp_all
  from serve_request_replies [OF sane al ok o1(1,2) l(1) o1(3,4), of fl] obtain c2 rp le2 w2 where
    s: "serve_request sys fl ?c1 l w = (c2, rp, le2, w2)"
      "replied ?c1 (reply_status sys fl c e (k + 4)) (reply_bytes sys fl c e (k + 4)) c2 w2"
    by (auto simp: l(3) st)
  let ?w4 = "snd (close_resolve_path_ptr rp (log_reply fl log_ptr c2 le2 w2))"
  have bl: "w_blocks ?w4 = w_blocks w2" by (simp add: frame_simps)
  show ?thesis
    using s(2) answered_blocks [OF bl] unfolding h s(1)
    by (simp add: replied_def conn_part_def staged_state staged_blocks [OF bl])
qed

section \<open>Every reply is a well-formed response\<close>

text \<open>
  A reply that a peer can read: head lines up to an empty line, the status in the first line,
  and a length that is that of the body whenever a body follows.
\<close>

definition well_formed :: "bytes \<Rightarrow> bytes \<Rightarrow> bool" where
  "well_formed status d \<longleftrightarrow>
     (\<exists>ls body n. read_head d = Some (ls, body) \<and> ls \<noteq> [] \<and> hd ls = ''HTTP/1.0 '' @ status \<and>
        header_value ''Content-Length: '' ls = Some (show_nat n) \<and> (body = [] \<or> n = length body))"

lemma well_formedI:
  assumes "\<forall>l \<in> set ls. plain_line l" "ls \<noteq> []" "hd ls = ''HTTP/1.0 '' @ status"
    and "header_value ''Content-Length: '' ls = Some (show_nat n)" "body = [] \<or> n = length body"
  shows "well_formed status (crlf_lines ls @ CRLF @ body)"
proof -
  have "read_head (crlf_lines ls @ CRLF @ body) = Some (ls, body)"
    using assms(1) by (intro read_head_crlf_lines) blast
  with assms(2-5) show ?thesis unfolding well_formed_def by blast
qed

lemma error_bytes_well_formed:
  assumes "is_error r" "CR \<notin> set t"
  shows "well_formed (status_text r) (error_bytes r t ho)"
  unfolding error_bytes_def
  by (rule well_formedI [where n = "length (r_body (error_responses r))"])
     (use assms error_lines_plain [OF assms(2)] error_lines_head [of "error_responses r" t] error_lines_length in
        \<open>auto simp: status_text_def is_error_iff\<close>)

lemma resource_status_cases: "resource_status sys fl c req = RESP_200 \<or> is_error (resource_status sys fl c req)"
  by (auto simp: resource_status_def resource_of_def is_error_iff split: sum.splits if_splits option.splits)

lemma resource_bytes_well_formed:
  assumes sane: "sane_os sys" and t: "time_received req = os_now sys"
  shows "well_formed (status_text (resource_status sys fl c req)) (resource_bytes sys fl c req)"
proof (cases "resource_status sys fl c req = RESP_200")
  case False
  then have "is_error (resource_status sys fl c req)" using resource_status_cases by blast
  from error_bytes_well_formed [OF this] False sane t show ?thesis
    by (simp add: resource_bytes_def sane_os_def)
next
  case ok: True
  have cr: "CR \<notin> set (time_received req)" using sane t by (simp add: sane_os_def)
  have gm: "CR \<notin> set (the (os_gmtime sys x))" for x using sane_gmtime [OF sane, of x] by auto
  show ?thesis
  proof (cases "resource_of sys fl (local_path_of (req_path req))")
    case (Refused r)
    with ok have "r = RESP_200" by (simp add: resource_status_def)
    with Refused show ?thesis by (auto simp: resource_of_def split: sum.splits if_splits option.splits)
  next
    case (Plain_file f m)
    note p = plain_file_sane [OF sane Plain_file]
    let ?rp = "zero_ResolvedPath\<lparr>mime_type := m, rp_file_size := fi_size f\<rparr>"
    from p(1) obtain mt where m: "mime_type ?rp = Some mt" "CR \<notin> set mt" by auto
    have sz: "0 \<le> fi_size f" "fi_size f < 2 ^ 64" "nat (fi_size f) = length (fi_data f)" using p(2,3) by simp_all
    have "header_value ''Content-Length: '' (file_lines ?rp (time_received req) (the (os_gmtime sys (fi_mtime f)))) =
        Some (show_nat (length (fi_data f)))"
      using file_lines_length [OF sz(1,2), of ?rp] by (simp add: sz(3))
    then have "well_formed (status_text RESP_200)
        (crlf_lines (file_lines ?rp (time_received req) (the (os_gmtime sys (fi_mtime f)))) @ CRLF @
         (if req_method req = HTTP_HEAD then [] else fi_data f))"
      using file_lines_plain [OF gm m(2) cr m(1)] ok_lines_head(1) by (intro well_formedI) auto
    then show ?thesis using ok Plain_file by (simp add: resource_bytes_def Let_def)
  next
    case (Script f)
    let ?d = "cgi_body sys c (with_query (req_path req) zero_ResolvedPath) req"
    have "well_formed (status_text RESP_200) (crlf_lines (cgi_lines (time_received req) (length ?d)) @ CRLF @ ?d)"
      using cgi_lines_plain [OF cr] ok_lines_head(3) cgi_lines_length by (intro well_formedI) auto
    then show ?thesis using ok Script by (simp add: resource_bytes_def Let_def)
  next
    case (Listing f)
    let ?ls = "dir_lines (time_received req) (the (os_gmtime sys (fi_mtime f))) (length (the_page sys req))"
    have "well_formed (status_text RESP_200) (crlf_lines ?ls @ CRLF @ (if req_method req = HTTP_HEAD then [] else the_page sys req))"
      using dir_lines_plain [OF cr gm] ok_lines_head(2) dir_lines_length by (intro well_formedI) auto
    then show ?thesis using ok Listing by (simp add: resource_bytes_def Let_def)
  qed
qed

lemma parsed_request_time:
  assumes "parse_verdict b len = None"
  shows "time_received (parsed_request sys b len) = os_now sys"
  using assms
  by (auto simp: parse_verdict_def parsed_request_def line_verdict_def split: option.splits list.splits)

lemma reply_bytes_well_formed:
  assumes "sane_os sys"
  shows "well_formed (status_text (reply_status sys fl c b n)) (reply_bytes sys fl c b n)"
proof (cases "parse_verdict b n")
  case None
  with resource_bytes_well_formed [OF assms parsed_request_time] show ?thesis
    by (simp add: reply_status_def reply_bytes_def)
next
  case (Some r)
  have "CR \<notin> set (os_now sys)" using assms by (simp add: sane_os_def)
  with error_bytes_well_formed [OF parse_verdict_error [OF Some]] Some show ?thesis
    by (simp add: reply_status_def reply_bytes_def)
qed

section \<open>Properties\<close>

text \<open>The sample system is a sane one.\<close>

lemma sample_os_index: "find_index sample_os lp = Some f \<Longrightarrow> \<not> fi_is_dir f"
proof -
  let ?n = "\<lambda>idx. take (PATH_MAX - 1) (lp @ (if lp \<noteq> [] \<and> last lp = SLASH then [] else ''/'') @ idx)"
  assume "find_index sample_os lp = Some f"
  then obtain idx where i: "idx \<in> {DIR_INDEX, DIR_INDEX2}" "os_fopen sample_os (?n idx) = Inr f"
    by (auto simp: find_index_def Let_def split: sum.splits)
  then have "3 < length (?n idx)" by (auto simp: DIR_INDEX_def DIR_INDEX2_def PATH_MAX_def)
  then have "?n idx \<noteq> ''./d''" "?n idx \<noteq> ''./e''" by (metis less_irrefl list.size(3,4) numeral_3_eq_3 One_nat_def add.commute plus_1_eq_Suc)+
  with i(2) show ?thesis by (auto simp: sample_os_def sample_file_def simp del: take_append split: if_splits)
qed

lemma sample_os_sane: "sane_os sample_os"
  unfolding sane_os_def
  by (intro conjI allI impI sample_os_stat sample_os_index)
     (auto simp: TIME_RECEIVED_LENGTH_def sample_os_def sample_file_def sample_dir_def split: if_splits)

text \<open>
  C2: the reply.  When a connection's buffer holds a request whose head is complete, the
  handler stages exactly the bytes of the specification, a function of the request bytes, the
  flags, the peer's address and the system's answers: the error page of the verdict, or the
  head and the content of the resource the target stands for.  The response code is that of
  the specification, the connection moves on to sending and asks to be woken for output.  It
  is required that allocations succeed and that the system behaves as documented (\<open>sane_os\<close>).
\<close>

theorem handle_request_stages_reply:
  assumes "sane_os sys" "\<forall>i. os_alloc sys i" "world_ok w" "out_buf c = None"
    and "length (client_addr c) < INET6_ADDRSTRLEN"
    and "input_ok c e w" "strnstr e (CRLF @ CRLF) (length e) = Some k"
  shows "\<exists>c' w'. handle_request sys fl log_ptr c p w = (c', p\<lparr>pfd_events := POLLOUT\<rparr>, w') \<and>
     state c' = SENDING_HEADER \<and> staged w' c' (reply_bytes sys fl c e (k + 4)) \<and>
     resp_val c' = reply_status sys fl c e (k + 4) \<and> fd c' = fd c"
  using handle_request_replies [OF assms, of fl log_ptr p] by blast

definition sample_input :: bytes where
  "sample_input = render_request ''GET'' ''/a.txt'' ''HTTP/1.0'' []"

text \<open>The sample connection with that request in its buffer.\<close>

definition sample_reading :: Client where
  "sample_reading = sample_Client\<lparr>in_buf := Some 0, input_length := length sample_input, input_capacity := 1024\<rparr>"

definition sample_reading_world :: world where
  "sample_reading_world = empty_world\<lparr>w_next := 1, w_blocks := [0 \<mapsto> \<lparr>b_size = 1024, b_data = sample_input\<rparr>]\<rparr>"

lemma sample_reading_ok:
  "world_ok sample_reading_world" "input_ok sample_reading sample_input sample_reading_world"
  "strnstr sample_input (CRLF @ CRLF) (length sample_input) = Some 19" "out_buf sample_reading = None"
  "length (client_addr sample_reading) < INET6_ADDRSTRLEN"
proof -
  have k: "\<exists>k\<le>3. (1024 :: nat) = 1024 * 2 ^ k" by (rule exI [of _ 0]) simp
  show "world_ok sample_reading_world" "out_buf sample_reading = None"
    "length (client_addr sample_reading) < INET6_ADDRSTRLEN"
    by (simp_all add: sample_reading_def sample_Client_def sample_reading_world_def world_ok_def empty_world_def INET6_ADDRSTRLEN_def)
  show "input_ok sample_reading sample_input sample_reading_world"
    using k by (simp add: input_ok_def sample_reading_def sample_reading_world_def holds_def sample_input_def
        render_request_def MAX_REQUEST_SIZE_def)
  show "strnstr sample_input (CRLF @ CRLF) (length sample_input) = Some 19"
    by (simp add: strnstr_def sample_input_def render_request_def cstr_def)
qed

theorem handle_request_stages_reply_witness:
  "\<exists>c' w'. handle_request sample_os 0 None sample_reading \<lparr>pfd_fd = 5, pfd_events = POLLIN, pfd_revents = 1\<rparr>
        sample_reading_world = (c', \<lparr>pfd_fd = 5, pfd_events = POLLOUT, pfd_revents = 1\<rparr>, w') \<and>
     staged w' c' (reply_bytes sample_os 0 sample_reading sample_input 23)"
  using handle_request_stages_reply [OF sample_os_sane _ sample_reading_ok(1,4,5,2,3), of 0 None
      "\<lparr>pfd_fd = 5, pfd_events = POLLIN, pfd_revents = 1\<rparr>"] by auto



end
