(* ===== verification/Heap_Frames.thy ===== *)
theory Heap_Frames
  imports Request_Pipeline
begin

text \<open>
  What the request pipeline leaves alone in memory.  \<open>apart n\<close> relates two worlds in which every
  block below \<open>n\<close> is the same, no stream was closed, no descriptor was left open, nothing was
  sent or logged and no fault was raised.  Every builder keeps the world apart below its first
  new identifier, whether or not allocations succeed, and stages its response in a new block.
  The last section puts the whole handler together, with the log and the closing of the stream.
\<close>

section \<open>Worlds that agree below an identifier\<close>

definition apart :: "nat \<Rightarrow> world \<Rightarrow> world \<Rightarrow> bool" where
  "apart n w w' \<longleftrightarrow>
     world_ok w' \<and> w_next w \<le> w_next w' \<and> (\<forall>i<n. w_blocks w' i = w_blocks w i) \<and>
     dom (w_streams w) \<subseteq> dom (w_streams w') \<and> (\<forall>d. w_fds w' d \<longrightarrow> w_fds w d) \<and>
     w_wire w' = w_wire w \<and> w_shut w' = w_shut w \<and> w_log w' = w_log w \<and> w_faults w' = w_faults w"

text \<open>The response of a client, if there is one, is staged in a block from \<open>n\<close> on.\<close>

definition out_from :: "nat \<Rightarrow> Client \<Rightarrow> world \<Rightarrow> bool" where
  "out_from n c w \<longleftrightarrow>
     (case out_buf c of
        None \<Rightarrow> True
      | Some q \<Rightarrow> n \<le> q \<and> (\<exists>b. w_blocks w q = Some b \<and> output_length c \<le> length (b_data b)))"

lemma apart_refl: "world_ok w \<Longrightarrow> apart n w w"
  by (simp add: apart_def)

lemma apart_trans:
  assumes "apart n a b" "apart n b c"
  shows "apart n a c"
proof -
  have "dom (w_streams a) \<subseteq> dom (w_streams c)" using assms by (simp add: apart_def) (metis subset_trans)
  with assms show ?thesis by (simp add: apart_def)
qed

lemma apart_next: "apart n w w' \<Longrightarrow> w_next w \<le> w_next w'"
  by (simp add: apart_def)

lemma apart_alloc_fails: "world_ok w \<Longrightarrow> apart n w (w\<lparr>w_next := Suc (w_next w)\<rparr>)"
  by (auto simp: apart_def world_ok_def)

lemma apart_new_block:
  "world_ok w \<Longrightarrow> n \<le> i \<Longrightarrow> i < k \<Longrightarrow> w_next w \<le> k \<Longrightarrow>
     apart n w (w\<lparr>w_next := k, w_blocks := (w_blocks w)(i \<mapsto> b)\<rparr>)"
  by (auto simp: apart_def world_ok_def)

lemma out_from_None: "out_buf c = None \<Longrightarrow> out_from n c w"
  by (simp add: out_from_def)

lemma out_from_staged: "staged w c d \<Longrightarrow> out_buf c = Some q \<Longrightarrow> n \<le> q \<Longrightarrow> out_from n c w"
  by (auto simp: out_from_def staged_def)

lemma out_from_fields:
  assumes "out_buf c' = out_buf c" "output_length c' = output_length c"
  shows "out_from n c' w = out_from n c w"
  unfolding out_from_def assms ..

section \<open>The builders\<close>

lemma write_error_apart:
  assumes "write_error_response sys c req w = (rc, c', w')" "world_ok w" "n \<le> w_next w" "out_buf c = None"
  shows "apart n w w' \<and> out_from n c' w'"
proof (cases "is_error (resp_val c)")
  case False
  then have "(rc, c', w') = (-1, c, w)"
    using assms(1) by (auto simp: write_error_response_def is_error_def not_le not_less split: if_splits)
  with assms show ?thesis by (simp add: apart_refl out_from_None)
next
  case True
  show ?thesis
  proof (cases "os_alloc sys (w_next w)")
    case False
    with assms(1) True have "c' = c" "w' = w\<lparr>w_next := Suc (w_next w)\<rparr>"
      by (auto simp: write_error_response_eq c_memstream_eq Let_def)
    with assms show ?thesis by (simp add: apart_alloc_fails out_from_None)
  next
    case al: True
    with assms(1) True show ?thesis
      using assms(2,3)
      by (auto simp: write_error_response_eq c_memstream_eq Let_def out_from_def intro!: apart_new_block)
  qed
qed

lemma error_reply_apart:
  assumes "error_reply sys c req w = (c', w')" "world_ok w" "n \<le> w_next w" "out_buf c = None"
  shows "apart n w w' \<and> out_from n c' w'"
proof -
  obtain rc c1 w1 where e: "write_error_response sys c req w = (rc, c1, w1)"
    by (cases "write_error_response sys c req w")
  with assms(1) have "c' = c1" "w' = w1" by (auto simp: error_reply_def build_error_response_def)
  with write_error_apart [OF e assms(2-4)] show ?thesis by simp
qed

text \<open>
  What a builder does to the world: with its return value, so that the dispatcher knows that
  nothing is staged after a failure.
\<close>

definition built :: "nat \<Rightarrow> world \<Rightarrow> int \<times> Client \<times> world \<Rightarrow> bool" where
  "built n w r \<longleftrightarrow>
     (case r of (rc, c', w') \<Rightarrow>
        apart n w w' \<and> (rc = 0 \<and> out_from n c' w' \<or> rc = -1 \<and> out_buf c' = None))"

lemma build_file_built:
  assumes "file_ready sys (rp, req) w" "world_ok w" "n \<le> w_next w" "out_buf c = None"
  shows "built n w (build_response_file sys c rp req w)"
proof -
  from assms(1) obtain h f m t where r: "rp_file_ptr rp = Some h"
      "w_streams w h = Some \<lparr>s_file = f, s_pos = 0\<rparr>" "mime_type rp = Some m"
      "os_gmtime sys (last_mod rp) = Some t" by (rule file_readyE)
  show ?thesis
  proof (cases "os_alloc sys (w_next w)")
    case True
    have h: "h < w_next w" using r(2) assms(2) by (simp add: world_ok_live(1))
    define d where "d = file_header rp (time_received req) t @ (if req_method req = HTTP_HEAD then [] else fi_data f)"
    let ?w = "w\<lparr>w_next := Suc (w_next w), w_blocks := (w_blocks w)(w_next w \<mapsto> \<lparr>b_size = Suc (length d), b_data = d\<rparr>),
       w_streams := (if req_method req = HTTP_HEAD then w_streams w
          else (w_streams w)(h \<mapsto> \<lparr>s_file = f, s_pos = length (fi_data f)\<rparr>))\<rparr>"
    have "apart n w ?w" using assms(2,3) h r(2) by (auto simp: apart_def world_ok_def)
    with assms(3) show ?thesis
      unfolding build_response_file_ok [OF r True, where req = req and c = c, folded d_def]
      by (simp add: built_def out_from_def)
  next
    case False
    with r(4) assms show ?thesis
      by (simp add: built_def build_response_file_def check_resolve_args_def c_open_memstream_eq apart_alloc_fails)
  qed
qed

lemma build_dir_built:
  assumes "path_type rp = IS_DIR" "os_gmtime sys (last_mod rp) = Some t" "world_ok w" "n \<le> w_next w" "out_buf c = None"
  shows "built n w (build_response_dir sys c rp req w)"
proof (cases "os_opendir sys (drop 1 (req_path req))")
  case None
  with assms show ?thesis by (simp add: built_def build_response_dir_unreadable apart_refl)
next
  case (Some es)
  consider "\<not> os_alloc sys (w_next w)" | "os_alloc sys (w_next w)" "\<not> os_alloc sys (Suc (w_next w))"
    | "os_alloc sys (w_next w)" "os_alloc sys (Suc (w_next w))" by blast
  then show ?thesis
  proof cases
    case 1
    with Some assms show ?thesis
      by (simp add: built_def build_response_dir_def check_resolve_args_def c_open_memstream_eq Let_def apart_alloc_fails)
  next
    case 2
    let ?l = "dir_items (drop 1 (req_path req)) es"
    have n: "w_blocks w (w_next w) = None" using assms(3) by (simp add: world_ok_fresh)
    have "build_response_dir sys c rp req w = (-1, c\<lparr>resp_val := RESP_500\<rparr>, w\<lparr>w_next := Suc (Suc (w_next w))\<rparr>)"
      using 2 Some assms(1,2) n
      by (simp add: build_response_dir_def check_resolve_args_def c_open_memstream_eq c_mwrite_def c_free_def Let_def
          fun_upd_idem)
    with assms(3,5) show ?thesis by (auto simp: built_def apart_def world_ok_def)
  next
    case 3
    note e = build_response_dir_ok [OF assms(1) Some assms(2) 3 assms(3), where c = c]
    show ?thesis unfolding e using assms(3,4) by (auto simp: built_def out_from_def intro!: apart_new_block)
  qed
qed

text \<open>The CGI builder: the buffer for the output comes and goes, or is left behind on success.\<close>

lemma cgi_assemble_built:
  assumes "holds buf cap d w" "world_ok w" "length (cgi_header (time_received req) (length d)) < MAX_HEADER_BUF"
    and "n \<le> buf"
  shows "built n w (cgi_assemble sys c req buf (length d) w)"
proof (cases "os_alloc sys (w_next w)")
  case True
  have "buf < w_next w" using assms(1,2) by (auto simp: holds_def dest: world_ok_live(2))
  with assms(2,4) show ?thesis
    unfolding cgi_assemble_ok [OF assms(1-3) True, where c = c]
    by (auto simp: built_def out_from_def intro!: apart_new_block)
next
  case False
  have b: "buf < w_next w" "w_blocks w buf \<noteq> None" using assms(1,2) by (auto simp: holds_def dest: world_ok_live(2))
  have "apart n w (c_free (Some buf) (w\<lparr>w_next := Suc (w_next w)\<rparr>))"
    using assms(2,4) b by (auto simp: apart_def world_ok_def c_free_def)
  with False show ?thesis by (simp add: built_def cgi_assemble_def snprintf_def c_malloc_def Let_def)
qed

lemma swapped_apart:
  assumes "swapped p q w w'" "world_ok w'" "n \<le> p" "n \<le> w_next w"
  shows "apart n w w'"
  using assms by (auto simp: apart_def swapped_def)

lemma c_malloc_apart: "world_ok w \<Longrightarrow> n \<le> w_next w \<Longrightarrow> c_malloc sys k w = (p, w1) \<Longrightarrow> apart n w w1"
  by (auto simp: c_malloc_def Let_def apart_def world_ok_def split: if_splits)

lemma c_free_apart: "world_ok w \<Longrightarrow> n \<le> i \<Longrightarrow> w_blocks w i \<noteq> None \<Longrightarrow> apart n w (c_free (Some i) w)"
  by (auto simp: c_free_def apart_def world_ok_def)

lemma c_close_apart: "world_ok w \<Longrightarrow> apart n w (c_close d w)"
  by (auto simp: c_close_def apart_def world_ok_def)

lemma built_after: "apart n w w1 \<Longrightarrow> built n w1 r \<Longrightarrow> built n w r"
  using apart_trans by (auto simp: built_def split: prod.splits)

lemma cgi_read_apart:
  assumes "world_ok w" "n \<le> w_next w" "c_malloc sys 8192 w = (Some buf, w1)" "swapped buf q w1 w2" "world_ok w2"
  shows "apart n w (c_close rfd w2)" "n \<le> q"
proof -
  note a1 = c_malloc_apart [OF assms(1-3)]
  have b: "n \<le> buf" "n \<le> w_next w1" using assms(2,3) by (auto simp: c_malloc_def Let_def split: if_splits)
  show "n \<le> q" using assms(4) b by (auto simp: swapped_def)
  show "apart n w (c_close rfd w2)"
    using apart_trans [OF a1 apart_trans [OF swapped_apart [OF assms(4,5) b] c_close_apart [OF assms(5)]]] .
qed

lemma cgi_collect_built:
  assumes "world_ok w" "n \<le> w_next w" "out_buf c = None"
    and "\<And>d. cgi_stream (cgi_output run) = Some d \<Longrightarrow> length (cgi_header (time_received req) (length d)) < MAX_HEADER_BUF"
  shows "built n w (cgi_collect sys c req rfd run w)"
  using assms(1)
proof (cases rule: cgi_collect_stages [where sys = sys and run = run])
  case (nomem w1)
  note a1 = c_malloc_apart [OF assms(1,2) nomem]
  then have "world_ok w1" by (simp add: apart_def)
  with nomem assms(3) apart_trans [OF a1 c_close_apart] show ?thesis by (simp add: cgi_collect_def built_def)
next
  case (nodata buf w1 w2 q)
  from cgi_read_apart [OF assms(1,2) nodata(1,3,4)] nodata assms(3) show ?thesis by (simp add: cgi_collect_def built_def)
next
  case (data buf w1 w2 q d cap)
  note a2 = cgi_read_apart [OF assms(1,2) data(1,3,4)]
  have hc: "holds q cap d (c_close rfd w2)" "world_ok (c_close rfd w2)"
    using data(4,6) by (simp_all add: holds_def world_ok_def world_simps)
  show ?thesis
  proof (cases "cgi_wait run = Exited 0")
    case True
    with data built_after [OF a2(1) cgi_assemble_built [OF hc assms(4) [OF data(5)] a2(2)]] show ?thesis
      by (simp add: cgi_collect_def)
  next
    case False
    have "apart n w (c_free (Some q) (c_close rfd w2))"
      using apart_trans [OF a2(1) c_free_apart [OF hc(2) a2(2)]] hc(1) by (simp add: holds_def)
    with False data assms(3) show ?thesis by (simp add: cgi_collect_def built_def Let_def)
  qed
qed

lemma apart_fds: "apart n w w' \<Longrightarrow> w_fds w d = w_fds w0 d \<Longrightarrow> w_fds w' d \<longrightarrow> w_fds w0 d"
  by (auto simp: apart_def)

lemma apart_pipe:
  assumes "apart n (c_close s (c_pipe (r, s) w)) w'" "\<not> w_fds w' r"
  shows "apart n w w'"
proof -
  have "w_fds w' d \<longrightarrow> w_fds w d" for d
    using assms by (cases "d = r"; cases "d = s") (auto simp: apart_def world_simps)
  with assms(1) show ?thesis by (simp add: apart_def world_simps) (simp add: c_pipe_def c_close_def)
qed

lemma build_cgi_built:
  assumes "cgi_ready sys c rp req w" "length (query_string rp) \<le> PATH_MAX" "n \<le> w_next w" "out_buf c = None"
  shows "built n w (build_response_cgi sys fl c rp req w)"
proof (cases "flag_set fl C_FLAG \<and> os_pipe sys \<noteq> None")
  case False
  with assms show ?thesis
    by (auto simp: built_def build_response_cgi_def check_resolve_args_def cgi_ready_def apart_refl split: option.split)
next
  case True
  then obtain r s where rs: "flag_set fl C_FLAG" "os_pipe sys = Some (r, s)" by auto
  have ok: "world_ok w" using assms(1) by (simp add: cgi_ready_def)
  have sf: "\<not> PATH_MAX < length (cgi_script req)" using assms(1) cgi_script_fits [of req] by (simp add: cgi_ready_def)
  let ?run = "cgi_run_of sys c rp req" and ?w1 = "c_close s (c_pipe (r, s) w)"
  show ?thesis
  proof (cases "cgi_fork_ok ?run")
    case False
    have "apart n w (c_close s (c_close r (c_pipe (r, s) w)))"
      using ok by (auto simp: apart_def world_ok_def c_close_def c_pipe_def)
    with False rs assms(2,4) show ?thesis
      by (simp add: built_def build_response_cgi_def check_resolve_args_def cgi_run_of_def Let_def)
  next
    case fork: True
    have ok1: "world_ok ?w1" using ok by (simp add: world_ok_def c_close_def c_pipe_def)
    have hd: "length (cgi_header (time_received req) (length d)) < MAX_HEADER_BUF"
      if "cgi_stream (cgi_output ?run) = Some d" for d
      using assms(1) that by (intro cgi_header_fits) (simp_all add: cgi_ready_def cgi_body_def)
    have n1: "n \<le> w_next ?w1" using assms(3) by (simp add: c_pipe_def c_close_def)
    obtain rc c' w' where co: "cgi_collect sys c req r ?run ?w1 = (rc, c', w')"
      by (cases "cgi_collect sys c req r ?run ?w1")
    have "build_response_cgi sys fl c rp req w = (rc, c', w')"
      using rs fork assms(2) sf co
      by (simp add: build_response_cgi_def check_resolve_args_def cgi_run_of_def Let_def)
    moreover have b: "built n ?w1 (rc, c', w')"
      unfolding co [symmetric] by (rule cgi_collect_built [OF ok1 n1 assms(4)]) (rule hd)
    moreover have "apart n w w'"
    proof (rule apart_pipe [where r = r and s = s])
      show "apart n ?w1 w'" using b unfolding built_def by blast
      show "\<not> w_fds w' r" unfolding cgi_collect_fds [OF co ok1] by simp
    qed
    ultimately show ?thesis by (simp add: built_def)
  qed
qed

section \<open>The dispatcher and the pipeline\<close>

lemma build_okay_apart:
  assumes "build_okay_response sys fl c rp req w = (rc, c', w')" "world_ok w" "n \<le> w_next w" "out_buf c = None"
    and "built n w (build_by_type sys fl (c\<lparr>resp_val := RESP_200\<rparr>) rp req w)"
  shows "apart n w w' \<and> out_from n c' w'"
proof -
  obtain st c1 w1 where b: "build_by_type sys fl (c\<lparr>resp_val := RESP_200\<rparr>) rp req w = (st, c1, w1)"
    by (cases "build_by_type sys fl (c\<lparr>resp_val := RESP_200\<rparr>) rp req w")
  have a: "apart n w w1" using assms(5) by (simp add: b built_def)
  consider "st = 0" "out_from n c1 w1" | "st = -1" "out_buf c1 = None" using assms(5) by (auto simp: b built_def)
  then show ?thesis
  proof cases
    case 1
    with assms(1) b a show ?thesis by (simp add: build_okay_response_def)
  next
    case 2
    define c2 where "c2 = c1\<lparr>resp_val := (if resp_val c1 = RESP_200 then RESP_500 else resp_val c1),
                        output_length := 0, header_len := 0, body_len := 0, file_size := 0\<rparr>"
    have o: "out_buf c2 = None" using 2 by (simp add: c2_def)
    have ok1: "world_ok w1" and n1: "n \<le> w_next w1" using a assms(3) by (simp_all add: apart_def)
    obtain rc3 c3 w3 where e: "write_error_response sys c2 req w1 = (rc3, c3, w3)"
      by (cases "write_error_response sys c2 req w1")
    have "c' = c3" "w' = w3"
      using assms(1) b 2 e unfolding build_okay_response_def
      by (simp_all add: build_error_response_def Let_def flip: c2_def)
    with write_error_apart [OF e ok1 n1 o] apart_trans [OF a] show ?thesis by simp
  qed
qed

lemma build_by_type_built:
  assumes "path_ready sys c rp req w" "n \<le> w_next w" "out_buf c = None"
    and "\<exists>t. os_gmtime sys (last_mod rp) = Some t"
  shows "built n w (build_by_type sys fl c rp req w)"
proof -
  have ok: "world_ok w" using assms(1) by (simp add: path_ready_def)
  show ?thesis
  proof (cases "path_type rp")
    case UNKNOWN
    with assms(1) show ?thesis by (simp add: path_ready_def)
  next
    case IS_FILE
    with assms build_file_built [OF _ ok assms(2,3)] show ?thesis by (simp add: path_ready_def build_by_type_def)
  next
    case IS_DIR
    with assms build_dir_built [OF IS_DIR _ ok assms(2,3)] show ?thesis by (auto simp: build_by_type_def)
  next
    case IS_CGI
    with assms build_cgi_built [OF _ _ assms(2,3)] show ?thesis by (simp add: path_ready_def build_by_type_def)
  qed
qed

lemma path_ready_resp [simp]: "path_ready sys (c\<lparr>resp_val := r\<rparr>) rp req w = path_ready sys c rp req w"
  by (simp add: path_ready_def split: Path_type.split)

lemma resolve_apart:
  assumes "stat_works sys" "world_ok w" "resolve_path sys fl c req rp0 w = (rc, c', rp, w')"
  shows "apart n w w' \<and> out_buf c' = out_buf c \<and> (\<forall>h. rp_file_ptr rp = Some h \<longrightarrow> w_streams w' h \<noteq> None)"
  using assms(2,1,3)
proof (cases rule: resolve_path_cases)
  case (cgi_off f)
  then show ?thesis using assms(2) by (auto simp: apart_def only_streams_def world_ok_def)
next
  case (listing f)
  then show ?thesis using assms(2) by (auto simp: apart_def only_streams_def world_ok_def)
next
  case (serve h f name)
  then show ?thesis using assms(2) by (auto simp: apart_def only_streams_def world_ok_def)
qed (simp add: apart_refl assms(2))

lemma apart_live: "apart n w w' \<Longrightarrow> w_streams w h \<noteq> None \<Longrightarrow> w_streams w' h \<noteq> None"
  by (auto simp: apart_def dom_def)

lemma serve_request_apart:
  assumes sane: "sane_os sys" and ok: "world_ok w" and out: "out_buf c = None" and n: "n \<le> w_next w"
    and len: "header_len c \<le> MAX_REQUEST_SIZE" and log: "log_ok le"
      "le_offset le + length (os_now sys) + header_len c < LOG_BUF_SIZE"
    and s: "serve_request sys fl c le w = (c', rp, le', w')"
  shows "apart n w w' \<and> out_from n c' w' \<and> (\<forall>h. rp_file_ptr rp = Some h \<longrightarrow> w_streams w' h \<noteq> None) \<and>
     log_ok le' \<and> le_offset le' \<le> le_offset le + length (os_now sys) + header_len c"
proof -
  obtain rc req resp le1 w1 where p1:
    "parse_request sys fl (Some (block_data w (in_buf c))) (header_len c) zero_Request (resp_val c) le w =
      (rc, req, resp, le1, w1)" using prod_cases5 by blast
  have b: "w1 = w" "log_ok le1" "le_offset le1 \<le> le_offset le + length (os_now sys) + header_len c"
    using parse_request_bounds [OF len log, of fl "Some (block_data w (in_buf c))" zero_Request "resp_val c" w]
    by (simp_all add: p1 Let_def result_defs)
  note p = p1 [unfolded b(1)]
  have st: "stat_works sys" using sane by (simp add: sane_os_def)
  obtain rc2 c2 rp2 w2 where r: "resolve_path sys fl (c\<lparr>resp_val := resp\<rparr>) req zero_ResolvedPath w = (rc2, c2, rp2, w2)"
    using prod_cases4 by blast
  note ra = resolve_apart [OF st ok r, of n]
  have ok2: "world_ok w2" "n \<le> w_next w2" "out_buf c2 = None" using ra n out by (simp_all add: apart_def)
  have go: ?thesis if "apart n w2 w'" "out_from n c' w'" "rp = rp2" "le' = le1"
    using that b ra apart_trans apart_live [of n w2 w'] by blast
  consider "rc \<noteq> 0" | "rc = 0" "rc2 \<noteq> 0" | "rc = 0" "rc2 = 0" by blast
  then show ?thesis
  proof cases
    case 1
    obtain c3 w3 where e: "error_reply sys (c\<lparr>resp_val := resp\<rparr>) req w = (c3, w3)"
      by (cases "error_reply sys (c\<lparr>resp_val := resp\<rparr>) req w")
    have "c' = c3" "rp = zero_ResolvedPath" "le' = le1" "w' = w3" using serve_request_bad [OF p 1 e] s by simp_all
    with error_reply_apart [OF e ok n] out b show ?thesis by (simp add: zero_ResolvedPath_def)
  next
    case 2
    obtain c3 w3 where e: "error_reply sys c2 req w2 = (c3, w3)" by (cases "error_reply sys c2 req w2")
    have "c' = c3" "rp = rp2" "le' = le1" "w' = w3"
      using serve_request_refused [OF p [unfolded 2(1)] r 2(2) e] s by simp_all
    with error_reply_apart [OF e ok2] go show ?thesis by simp
  next
    case 3
    obtain rc3 c3 w3 where e: "build_okay_response sys fl c2 rp2 req w2 = (rc3, c3, w3)"
      by (cases "build_okay_response sys fl c2 rp2 req w2")
    have eq: "c' = c3" "rp = rp2" "le' = le1" "w' = w3"
      using serve_request_built [OF p [unfolded 3(1)] r [unfolded 3(2)] e] s by simp_all
    note pr = parse_request_parsed [OF p [unfolded 3(1)]]
    have "path_ready sys c2 rp2 req w2" using resolve_ready [OF sane ok r [unfolded 3(2)] pr(4,5)] by simp
    then have "built n w2 (build_by_type sys fl (c2\<lparr>resp_val := RESP_200\<rparr>) rp2 req w2)"
      using ok2 sane_gmtime [OF sane, of "last_mod rp2"] by (intro build_by_type_built) auto
    from build_okay_apart [OF e ok2 this] eq go show ?thesis by simp
  qed
qed

section \<open>The log and the whole handler\<close>

lemma print_int_length: "length (print_int n) \<le> 11"
proof -
  have "sint (of_nat n :: 32 word) < 2 ^ 31" "- (2 ^ 31) \<le> sint (of_nat n :: 32 word)"
    using sint_lt [of "of_nat n :: 32 word"] sint_ge [of "of_nat n :: 32 word"] by simp_all
  then have "nat \<bar>sint (of_nat n :: 32 word)\<bar> < 10 ^ 10" by simp
  then have "length (show_nat (nat \<bar>sint (of_nat n :: 32 word)\<bar>)) \<le> 10" by (rule show_nat_length) simp
  then show ?thesis by (auto simp: print_int_def show_int_def)
qed

lemma status_string_length: "length (resp_val_to_status_string r) = 3"
  by (cases r) simp_all

text \<open>With room for the entry and a stream to print to, logging only adds to the log.\<close>

lemma log_reply_ok:
  assumes "log_ok le" "le_offset le + 16 < LOG_BUF_SIZE" "logging_on fl \<Longrightarrow> p \<noteq> None"
  shows "\<exists>l. log_reply fl p c le w = w\<lparr>w_log := l\<rparr>"
proof (cases "logging_on fl")
  case True
  let ?t = "resp_val_to_status_string (resp_val c) @ '' '' @ print_int (body_len c) @ [LF]"
  have "le_offset le + length ?t < LOG_BUF_SIZE"
    using assms(2) print_int_length [of "body_len c"] status_string_length [of "resp_val c"] by simp
  from log_append_fits(1) [OF assms(1) this, of w] assms(3) [OF True] True show ?thesis
    by (auto simp: log_reply_def do_logging_def)
next
  case False
  have "w = w\<lparr>w_log := w_log w\<rparr>" by simp
  with False show ?thesis by (metis log_reply_def)
qed

text \<open>
  The handler as a whole: memory below \<open>n\<close> is untouched, the response is in a new block, no
  fault is raised, nothing is sent and no descriptor is left open.
\<close>

definition handled :: "nat \<Rightarrow> world \<Rightarrow> Client \<times> pollfd \<times> world \<Rightarrow> bool" where
  "handled n w r \<longleftrightarrow>
     (case r of (c', p', w') \<Rightarrow>
        world_ok w' \<and> w_next w \<le> w_next w' \<and> (\<forall>i<n. w_blocks w' i = w_blocks w i) \<and>
        (\<forall>d. w_fds w' d \<longrightarrow> w_fds w d) \<and> w_wire w' = w_wire w \<and> w_shut w' = w_shut w \<and>
        w_faults w' = w_faults w \<and> out_from n c' w')"

lemma handle_request_handled:
  assumes sane: "sane_os sys" and ok: "world_ok w" and out: "out_buf c = None" and n: "n \<le> w_next w"
    and addr: "length (client_addr c) < INET6_ADDRSTRLEN" and inp: "input_ok c e w"
    and log: "logging_on fl \<Longrightarrow> log_ptr \<noteq> None"
  shows "handled n w (handle_request sys fl log_ptr c p w)"
proof (cases "strnstr (block_data w (in_buf c)) (CRLF @ CRLF) (input_length c)")
  case None
  have "handle_request sys fl log_ptr c p w = (c, p, w)" unfolding handle_request_def None by simp
  then show ?thesis using ok out by (simp add: handled_def out_from_None)
next
  case (Some k)
  show ?thesis
  proof (cases "in_buf c = None \<or> input_length c = 0")
    case True
    have "handle_request sys fl log_ptr c p w = (c, p, w)"
      unfolding handle_request_def if_P [OF True] by (rule refl)
    then show ?thesis using ok out by (simp add: handled_def out_from_None)
  next
    case False
    let ?c = "c\<lparr>header_len := k + 4\<rparr>"
    obtain l where l: "start_log fl ?c w = (l, w)" "log_ok l" "le_offset l \<le> INET6_ADDRSTRLEN"
      using start_log_ok [of ?c fl w] addr by auto
    have k: "k + 4 \<le> input_length c" "input_length c \<le> MAX_REQUEST_SIZE"
      using strnstr_head(1) [OF Some] input_okD(1,2) [OF inp] by simp_all
    have t: "length (os_now sys) < TIME_RECEIVED_LENGTH" using sane by (simp add: sane_os_def)
    have hl: "header_len ?c \<le> MAX_REQUEST_SIZE" using k by simp
    have room: "le_offset l + length (os_now sys) + header_len ?c < LOG_BUF_SIZE"
      using l(3) k t by (simp add: LOG_BUF_SIZE_def INET6_ADDRSTRLEN_def TIME_RECEIVED_LENGTH_def)
    obtain c2 rp le2 w2 where s: "serve_request sys fl ?c l w = (c2, rp, le2, w2)" using prod_cases4 by blast
    have o1: "out_buf ?c = None" using out by simp
    note a = serve_request_apart [OF sane ok o1 n hl l(2) room s]
    have "le_offset le2 + 16 < LOG_BUF_SIZE"
      using a l(3) k t by (simp add: LOG_BUF_SIZE_def INET6_ADDRSTRLEN_def TIME_RECEIVED_LENGTH_def)
    then obtain lg where lg: "log_reply fl log_ptr c2 le2 w2 = w2\<lparr>w_log := lg\<rparr>"
      using log_reply_ok [of le2 fl log_ptr c2 w2] a log by blast
    obtain rp1 w4 where x: "close_resolve_path_ptr rp (w2\<lparr>w_log := lg\<rparr>) = (rp1, w4)"
      by (cases "close_resolve_path_ptr rp (w2\<lparr>w_log := lg\<rparr>)")
    have w4: "world_ok w4" "w_next w4 = w_next w2" "w_blocks w4 = w_blocks w2" "w_fds w4 = w_fds w2"
      "w_wire w4 = w_wire w2" "w_shut w4 = w_shut w2" "w_faults w4 = w_faults w2"
      using x a by (auto simp: close_resolve_path_ptr_def world_simps world_ok_def apart_def split: option.splits)
    have h: "handle_request sys fl log_ptr c p w = (c2\<lparr>state := SENDING_HEADER\<rparr>, p\<lparr>pfd_events := POLLOUT\<rparr>, w4)"
      unfolding handle_request_def if_not_P [OF False] unfolding Some using l(1) s x lg by simp
    have "out_from n (c2\<lparr>state := SENDING_HEADER\<rparr>) w4"
      using a by (cases "out_buf c2") (simp_all add: out_from_def w4)
    with a w4 show ?thesis unfolding h handled_def by (simp add: apart_def)
  qed
qed

end
