(* ===== verification/Do_Write.thy ===== *)
theory Do_Write
  imports Heap_Frames
begin

text \<open>
  \<^verbatim>\<open>client_conn/do_write.c\<close>: sending the staged response.  What each \<^verbatim>\<open>send\<close> accepts is given by a
  list of numbers; after its end a call accepts all it is given.  A result of 0 or less ends
  the process.  The lemmas show that the loop ends, that the bytes go out completely and in
  order however the calls cut them, and exactly when the process leaves.
\<close>

section \<open>Definitions\<close>

text \<open>One \<^verbatim>\<open>send\<close> of \<open>n\<close> bytes: it never reports more than it was given.\<close>

definition c_send :: "nat \<Rightarrow> int list \<Rightarrow> int \<times> int list" where
  "c_send n script =
     (case script of [] \<Rightarrow> (int n, []) | k # ks \<Rightarrow> (min k (int n), ks))"

definition put_wire :: "int \<Rightarrow> bytes \<Rightarrow> world \<Rightarrow> world" where
  "put_wire d bs w = w\<lparr>w_wire := (w_wire w)(d := w_wire w d @ bs)\<rparr>"

function send_loop :: "Client \<Rightarrow> int list \<Rightarrow> world \<Rightarrow> (Client \<times> int list \<times> world) run" where
  "send_loop c script w =
     (if output_sent c < output_length c then
        (case c_send (output_length c - output_sent c) script of
           (n, script1) \<Rightarrow>
             if n \<le> 0 then Inl w
             else send_loop (c\<lparr>output_sent := output_sent c + nat n\<rparr>) script1
                    (put_wire (fd c) (take (nat n) (drop (output_sent c) (block_data w (out_buf c)))) w))
      else Inr (c, script, w))"
  by pat_completeness auto
termination
  by (relation "measure (\<lambda>(c, script, w). output_length c - output_sent c)") auto

declare send_loop.simps [simp del]

definition c_shutdown :: "int \<Rightarrow> world \<Rightarrow> world" where
  "c_shutdown d w = w\<lparr>w_shut := (w_shut w)(d := True)\<rparr>"

text \<open>
  The handler on one client.  Reading past the bytes of the buffer is an overrun.
\<close>

definition write_conn :: "Client \<Rightarrow> int list \<Rightarrow> world \<Rightarrow> (Client \<times> int list \<times> world) run" where
  "write_conn c script w =
     (case out_buf c of
        None \<Rightarrow> Inr (c\<lparr>state := CLOSING\<rparr>, script, w)
      | Some p \<Rightarrow>
          if output_length c = 0 then Inr (c\<lparr>state := CLOSING\<rparr>, script, w)
          else
            case send_loop c script
                   (fault_if (length (block_data w (Some p)) < output_length c) (HeapOverrun p) w) of
              Inl w1 \<Rightarrow> Inl w1
            | Inr (c1, script1, w1) \<Rightarrow> Inr (c1\<lparr>state := CLOSING\<rparr>, script1, c_shutdown (fd c1) w1))"

definition do_write :: "nat \<Rightarrow> table \<Rightarrow> int list \<Rightarrow> world \<Rightarrow> (table \<times> int list \<times> world) run" where
  "do_write i t script w =
     (case t_clients t ! i of
        None \<Rightarrow> Inr (t, script, raise_fault (SlotOutOfRange i) w)
      | Some c \<Rightarrow>
          (case write_conn c script w of
             Inl w1 \<Rightarrow> Inl w1
           | Inr (c1, script1, w1) \<Rightarrow>
               Inr (t\<lparr>t_clients := (t_clients t)[i := Some c1]\<rparr>, script1, w1)))"

section \<open>Lemmas\<close>

lemma put_wire_fields [world_simps]:
  "w_next (put_wire d bs w) = w_next w" "w_blocks (put_wire d bs w) = w_blocks w"
  "w_streams (put_wire d bs w) = w_streams w" "w_fds (put_wire d bs w) = w_fds w"
  "w_wire (put_wire d bs w) = (w_wire w)(d := w_wire w d @ bs)"
  "w_shut (put_wire d bs w) = w_shut w" "w_log (put_wire d bs w) = w_log w"
  "w_faults (put_wire d bs w) = w_faults w"
  by (simp_all add: put_wire_def)

lemma put_wire_put_wire: "put_wire d b (put_wire d a w) = put_wire d (a @ b) w"
  by (simp add: put_wire_def)

lemma put_wire_Nil [simp]: "put_wire d [] w = w"
  by (simp add: put_wire_def)

lemma block_data_put_wire [simp]: "block_data (put_wire d bs w) p = block_data w p"
  by (cases p) (simp_all add: block_data_def world_simps)

lemma c_send_bounds:
  "c_send n script = (k, s') \<Longrightarrow> k \<le> int n"
  "c_send n script = (k, s') \<Longrightarrow> \<forall>x \<in> set script. 0 < x \<Longrightarrow> 0 < n \<Longrightarrow> 0 < k \<and> (\<forall>x \<in> set s'. 0 < x)"
  by (auto simp: c_send_def split: list.splits)

lemma take_take_drop: "m \<le> n \<Longrightarrow> take m xs @ take (n - m) (drop m xs) = take n xs"
  by (metis le_add_diff_inverse take_add)

text \<open>One turn of the loop: everything is sent, the kernel refuses, or it takes some bytes.\<close>

lemma send_loop_turn:
  obtains (all) "\<not> output_sent c < output_length c" "send_loop c script w = Inr (c, script, w)"
  | (refused) "output_sent c < output_length c" "send_loop c script w = Inl w"
  | (sent) k s' where "output_sent c < output_length c" "c_send (output_length c - output_sent c) script = (k, s')" "\<not> k \<le> 0"
      "nat k \<le> output_length c - output_sent c"
      "send_loop c script w = send_loop (c\<lparr>output_sent := output_sent c + nat k\<rparr>) s'
         (put_wire (fd c) (take (nat k) (drop (output_sent c) (block_data w (out_buf c)))) w)"
proof (cases "output_sent c < output_length c")
  case True
  obtain k s' where k: "c_send (output_length c - output_sent c) script = (k, s')"
    by (cases "c_send (output_length c - output_sent c) script")
  show thesis
  proof (cases "k \<le> 0")
    case k0: True
    with True k show thesis by (intro refused) (simp_all add: send_loop.simps)
  next
    case False
    have le: "nat k \<le> output_length c - output_sent c" using c_send_bounds(1) [OF k] True by simp
    show thesis by (rule sent [OF True k False le], subst send_loop.simps) (simp add: True k False)
  qed
qed (simp add: all send_loop.simps)

text \<open>Whatever the loop does, the bytes on the wire are a prefix of what was left to send.\<close>

lemma send_loop_result:
  "case send_loop c script w of
     Inl w' \<Rightarrow> \<exists>k < output_length c - output_sent c.
        w' = put_wire (fd c) (take k (drop (output_sent c) (block_data w (out_buf c)))) w
   | Inr (c', script', w') \<Rightarrow>
        c' = c\<lparr>output_sent := max (output_sent c) (output_length c)\<rparr> \<and>
        w' = put_wire (fd c) (take (output_length c - output_sent c)
               (drop (output_sent c) (block_data w (out_buf c)))) w"
proof (induction c script w rule: send_loop.induct)
  case (1 c script w)
  let ?d = "block_data w (out_buf c)" and ?s = "output_sent c" and ?n = "output_length c"
  show ?case
  proof (cases rule: send_loop_turn [of c script w])
    case all
    then show ?thesis by (simp add: max_def)
  next
    case refused
    then show ?thesis by (auto intro!: exI [of _ 0])
  next
    case (sent k s')
    let ?c = "c\<lparr>output_sent := ?s + nat k\<rparr>"
    let ?w = "put_wire (fd c) (take (nat k) (drop ?s ?d)) w"
    have dd: "drop (nat k) (drop ?s ?d) = drop (?s + nat k) ?d" by (simp add: add.commute)
    have tk: "take (nat k) (drop ?s ?d) @ take m (drop (?s + nat k) ?d) = take (nat k + m) (drop ?s ?d)" for m
      unfolding dd [symmetric] by (simp add: take_add)
    note IH = "1.IH" [OF sent(1) sent(2) [symmetric] sent(3)]
    show ?thesis
    proof (cases "send_loop ?c s' ?w")
      case (Inl w')
      with IH obtain m where "m < ?n - (?s + nat k)"
        "w' = put_wire (fd c) (take m (drop (?s + nat k) ?d)) ?w" by auto
      then have "nat k + m < ?n - ?s" "w' = put_wire (fd c) (take (nat k + m) (drop ?s ?d)) w"
        by (simp_all add: put_wire_put_wire tk)
      with Inl show ?thesis unfolding sent(5) by auto
    next
      case (Inr r)
      obtain c' s'' w' where r: "r = (c', s'', w')" by (cases r)
      with IH Inr have "c' = ?c\<lparr>output_sent := max (?s + nat k) ?n\<rparr>"
        "w' = put_wire (fd c) (take (?n - (?s + nat k)) (drop (?s + nat k) ?d)) ?w" by auto
      moreover have "nat k + (?n - (?s + nat k)) = ?n - ?s" "max (?s + nat k) ?n = ?n" "max ?s ?n = ?n"
        using sent(1,4) by simp_all
      ultimately have "c' = c\<lparr>output_sent := max ?s ?n\<rparr>" "w' = put_wire (fd c) (take (?n - ?s) (drop ?s ?d)) w"
        by (simp_all add: put_wire_put_wire tk)
      with Inr r show ?thesis unfolding sent(5) by simp
    qed
  qed
qed

text \<open>When every call accepts something, the loop returns.\<close>

lemma send_loop_returns:
  "\<forall>x \<in> set script. 0 < x \<Longrightarrow> \<exists>r. send_loop c script w = Inr r"
proof (induction c script w rule: send_loop.induct)
  case (1 c script w)
  show ?case
  proof (cases "output_sent c < output_length c")
    case True
    obtain k s' where k: "c_send (output_length c - output_sent c) script = (k, s')"
      by (cases "c_send (output_length c - output_sent c) script")
    with c_send_bounds(2) [OF k "1.prems"] True have "0 < k" "\<forall>x \<in> set s'. 0 < x" by simp_all
    with "1.IH" [OF True k [symmetric]] True k show ?thesis by (subst send_loop.simps) simp
  qed (subst send_loop.simps, simp)
qed

text \<open>A staged response goes out whole.\<close>

lemma write_conn_sends:
  assumes "staged w c d" "output_sent c = 0" "\<forall>x \<in> set script. 0 < x" "d \<noteq> []"
  shows "\<exists>c' script'. write_conn c script w = Inr (c', script', c_shutdown (fd c) (put_wire (fd c) d w)) \<and>
     state c' = CLOSING \<and> output_sent c' = length d \<and> fd c' = fd c"
proof -
  from assms(1) obtain p where p: "out_buf c = Some p" "block_data w (out_buf c) = d" "output_length c = length d"
    by (auto simp: staged_def block_data_def)
  obtain c' s' w' where r: "send_loop c script w = Inr (c', s', w')"
    using send_loop_returns [OF assms(3), where c = c and w = w] by (metis prod_cases3)
  have "c' = c\<lparr>output_sent := length d\<rparr>" "w' = put_wire (fd c) d w"
    using send_loop_result [where c = c and script = script and w = w] r p assms(2) by simp_all
  with r p assms(4) show ?thesis by (simp add: write_conn_def)
qed

lemma write_conn_refused:
  assumes "staged w c d" "output_sent c < length d" "x \<le> 0"
  shows "write_conn c (x # script) w = Inl w"
  using assms
  by (auto simp: staged_def block_data_def write_conn_def c_send_def send_loop.simps [of c "x # script"])

section \<open>From the request to the wire\<close>

lemma answered_not_empty: "answered w c \<Longrightarrow> staged w c d \<Longrightarrow> d \<noteq> []"
  using staged_unique by (fastforce simp: answered_def complete_response_def)

text \<open>
  The read handler on a connection whose request is complete, as one fact for the properties
  below and for the loop.
\<close>

lemma request_read:
  fixes es :: "io_event list" and e :: bytes
  assumes sane: "sane_os sys" and al: "\<forall>i. os_alloc sys i" and ok: "world_ok w"
    and c: "state c = READING" "out_buf c = None" "output_sent c = 0" "length (client_addr c) < INET6_ADDRSTRLEN"
      "input_ok c e w"
    and es: "recv_ending es = Idle" "length e + length (recv_bytes es) \<le> MAX_REQUEST_SIZE"
      "strnstr (e @ recv_bytes es) (CRLF @ CRLF) (length (e @ recv_bytes es)) = Some k"
    and log: "logging_on fl \<Longrightarrow> log_ptr \<noteq> None"
  shows "\<exists>c1 es1 w1. read_conn sys fl log_ptr c p es w = (c1, p\<lparr>pfd_events := POLLOUT\<rparr>, es1, w1) \<and>
     state c1 = SENDING_HEADER \<and> fd c1 = fd c \<and> output_sent c1 = 0 \<and> answered w1 c1 \<and>
     staged w1 c1 (reply_bytes sys fl c (e @ recv_bytes es) (k + 4)) \<and>
     w_wire w1 = w_wire w \<and> w_faults w1 = w_faults w"
proof -
  define whole where "whole = e @ recv_bytes es"
  obtain g c1 es1 w1 where r: "recv_loop sys c es w = (g, c1, es1, w1)" using prod_cases4 by blast
  from recv_loop_post [OF c(5) ok c(1), of sys es] es al
  have g: "g" "input_ok c1 whole w1" "rest_part c1 = rest_part c" "moved (in_buf c) (in_buf c1) w w1"
    by (auto simp: recv_post_def r whole_def split: if_splits)
  have c1: "out_buf c1 = None" "length (client_addr c1) < INET6_ADDRSTRLEN" "output_sent c1 = 0" "fd c1 = fd c"
    "client_addr c1 = client_addr c" and w1: "world_ok w1" "w_wire w1 = w_wire w" "w_faults w1 = w_faults w"
    using g(3,4) c by (simp_all add: rest_part_def moved_def same_rest_def)
  note w0 = es(3) [folded whole_def]
  obtain c2 w2 where h: "handle_request sys fl log_ptr c1 p w1 = (c2, p\<lparr>pfd_events := POLLOUT\<rparr>, w2)"
    "state c2 = SENDING_HEADER" "answered w2 c2" "staged w2 c2 (reply_bytes sys fl c1 whole (k + 4))" "fd c2 = fd c1"
    "output_sent c2 = output_sent c1"
    using handle_request_replies [OF sane al w1(1) c1(1,2) g(2) w0, of fl log_ptr p] by blast
  have "handled (w_next w1) w1 (c2, p\<lparr>pfd_events := POLLOUT\<rparr>, w2)"
    using handle_request_handled [OF sane w1(1) c1(1) order_refl c1(2) g(2), of fl log_ptr p] log h(1) by simp
  then have w2: "w_wire w2 = w_wire w" "w_faults w2 = w_faults w" using w1 by (simp_all add: handled_def)
  have rb: "reply_bytes sys fl c1 whole (k + 4) = reply_bytes sys fl c whole (k + 4)" by (rule reply_cong(2) [OF c1(5)])
  have "read_conn sys fl log_ptr c p es w = (c2, p\<lparr>pfd_events := POLLOUT\<rparr>, es1, w2)"
    using r g(1) h(1) by (simp add: read_conn_def)
  with h c1 w2 rb show ?thesis unfolding whole_def by simp
qed

section \<open>Properties\<close>

text \<open>
  C1: from the socket to the socket.  When what has arrived on a connection completes a
  request head within the size limit, one call of the read handler and one of the write
  handler put exactly the reply of the specification on that connection's socket, once, after
  whatever was sent before, shut its write side down and leave it to be closed.  Every other
  socket's bytes are unchanged and no fault is raised.  It is required that the system is
  sane, that memory is there, that \<^verbatim>\<open>send\<close> always accepts something, and that a log stream is
  open when logging is on.
\<close>

theorem request_answered_on_wire:
  assumes "sane_os sys" "\<forall>i. os_alloc sys i" "world_ok w"
    and "state c = READING" "out_buf c = None" "output_sent c = 0" "length (client_addr c) < INET6_ADDRSTRLEN"
      "input_ok c e w"
    and "recv_ending es = Idle" "length e + length (recv_bytes es) \<le> MAX_REQUEST_SIZE"
      "strnstr (e @ recv_bytes es) (CRLF @ CRLF) (length (e @ recv_bytes es)) = Some k"
    and "\<forall>x \<in> set script. 0 < x" "logging_on fl \<longrightarrow> log_ptr \<noteq> None"
  shows "\<exists>c1 es1 w1 c2 script2 w2.
     read_conn sys fl log_ptr c p es w = (c1, p\<lparr>pfd_events := POLLOUT\<rparr>, es1, w1) \<and> state c1 = SENDING_HEADER \<and>
     write_conn c1 script w1 = Inr (c2, script2, w2) \<and> state c2 = CLOSING \<and>
     w_wire w2 = (w_wire w)(fd c := w_wire w (fd c) @ reply_bytes sys fl c (e @ recv_bytes es) (k + 4)) \<and>
     w_shut w2 (fd c) \<and> w_faults w2 = w_faults w"
proof -
  obtain c1 es1 w1 where r: "read_conn sys fl log_ptr c p es w = (c1, p\<lparr>pfd_events := POLLOUT\<rparr>, es1, w1)"
    "state c1 = SENDING_HEADER" "fd c1 = fd c" "output_sent c1 = 0" "answered w1 c1"
    "staged w1 c1 (reply_bytes sys fl c (e @ recv_bytes es) (k + 4))" "w_wire w1 = w_wire w" "w_faults w1 = w_faults w"
    using request_read [OF assms(1-11), of fl log_ptr p] assms(13) by blast
  from write_conn_sends [OF r(6,4) assms(12) answered_not_empty [OF r(5,6)]] r show ?thesis
    by (auto simp: c_shutdown_def put_wire_def)
qed

theorem request_answered_on_wire_witness:
  "\<exists>c1 p1 es1 w1 c2 script2 w2.
     read_conn sample_os 0 None sample_Client \<lparr>pfd_fd = 5, pfd_events = POLLIN, pfd_revents = 1\<rparr>
       [Data (take 7 sample_input), Fail EINTR, Data (drop 7 sample_input)] empty_world = (c1, p1, es1, w1) \<and>
     write_conn c1 [3, 10] w1 = Inr (c2, script2, w2) \<and>
     w_wire w2 5 = reply_bytes sample_os 0 sample_Client sample_input 23"
proof -
  have len: "length sample_input = 23" by (simp add: sample_input_def render_request_def)
  have b: "recv_bytes [Data (take 7 sample_input), Fail EINTR, Data (drop 7 sample_input)] = sample_input" by simp
  have i: "input_ok sample_Client [] empty_world" by (simp add: input_ok_def sample_Client_def)
  have "state sample_Client = READING" "out_buf sample_Client = None" "output_sent sample_Client = 0" "fd sample_Client = 5"
    "length (client_addr sample_Client) < INET6_ADDRSTRLEN"
    by (simp_all add: sample_Client_def INET6_ADDRSTRLEN_def)
  from request_answered_on_wire [OF sample_os_sane _ world_ok_empty this(1-3,5) i, of
      "[Data (take 7 sample_input), Fail EINTR, Data (drop 7 sample_input)]" 19 "[3, 10]" 0 None
      "\<lparr>pfd_fd = 5, pfd_events = POLLIN, pfd_revents = 1\<rparr>"] this(4) sample_reading_ok(3)
  show ?thesis unfolding b
    by (fastforce simp: len MAX_REQUEST_SIZE_def logging_on_def flag_set_def empty_world_def)
qed

text \<open>
  C17: however much each \<^verbatim>\<open>send\<close> accepts, the bytes on the wire are the staged response from its
  start, in order and without repetition.  When the handler returns, all of it has been sent;
  when the process leaves inside the loop, a proper prefix has.
\<close>

theorem write_conn_in_order:
  assumes "staged w c d" "output_sent c = 0" "d \<noteq> []"
  shows "case write_conn c script w of
     Inl w' \<Rightarrow> \<exists>k < length d. w' = put_wire (fd c) (take k d) w
   | Inr (c', script', w') \<Rightarrow>
       state c' = CLOSING \<and> output_sent c' = length d \<and> w' = c_shutdown (fd c) (put_wire (fd c) d w)"
proof -
  from assms(1) obtain p where p: "out_buf c = Some p" "block_data w (out_buf c) = d" "output_length c = length d"
    by (auto simp: staged_def block_data_def)
  show ?thesis
    using send_loop_result [where c = c and script = script and w = w] p assms(2,3)
    by (cases "send_loop c script w") (auto simp: write_conn_def)
qed

definition sample_sending :: Client where
  "sample_sending = sample_Client\<lparr>out_buf := Some 0, output_length := 5, state := SENDING_HEADER\<rparr>"

definition sample_sending_world :: world where
  "sample_sending_world = empty_world\<lparr>w_next := 1, w_blocks := [0 \<mapsto> \<lparr>b_size = 6, b_data = ''hello''\<rparr>]\<rparr>"

lemma sample_sending_staged: "staged sample_sending_world sample_sending ''hello''" "output_sent sample_sending = 0"
  by (simp_all add: staged_def sample_sending_def sample_sending_world_def sample_Client_def)

theorem write_conn_in_order_witness:
  "case write_conn sample_sending [2, -1] sample_sending_world of
     Inl w' \<Rightarrow> \<exists>k < length ''hello''. w' = put_wire (fd sample_sending) (take k ''hello'') sample_sending_world
   | Inr (c', script', w') \<Rightarrow> state c' = CLOSING"
  using write_conn_in_order [OF sample_sending_staged, of "[2, -1]"]
  by (cases "write_conn sample_sending [2, -1] sample_sending_world") auto



end
