(* ===== verification/Flags.thy ===== *)
theory Flags
  imports Logging
begin

text \<open>
  \<^verbatim>\<open>flags/setFlags.c\<close>: the command line.  The global variables of that file are one record.  A
  wrong argument ends the process; the model then returns the message that was printed.  The
  questions \<^verbatim>\<open>setFlags\<close> asks the system are parameters in the record \<open>startup\<close>.  The lemmas give
  the invariant of the configuration and show that a list of options, written as arguments, is
  read back as the fold of their effects.
\<close>

section \<open>Definitions\<close>

record startup =
  st_is_dir :: "bytes \<Rightarrow> bool"
  st_pton4 :: "bytes \<Rightarrow> bool"
  st_pton6 :: "bytes \<Rightarrow> bool"
  st_append_ok :: "bytes \<Rightarrow> bool"
  st_euid :: nat
  st_magic_ok :: bool
  st_daemon_ok :: bool
  st_pid :: nat
  st_sigterm_ok :: bool
  st_sigint_ok :: bool

datatype log_target = Log_none | Log_stdout | Log_file nat

record config =
  app_flags :: flags
  port_addr :: "32 word"
  bind_addr4 :: "bytes option"
  bind_addr6 :: "bytes option"
  cgi_addr :: "bytes option"
  log_addr :: "bytes option"
  cfg_log :: log_target

definition init_config :: config where
  "init_config =
     \<lparr>app_flags = 0, port_addr = 8080, bind_addr4 = None, bind_addr6 = None, cgi_addr = None,
      log_addr = None, cfg_log = Log_none\<rparr>"

type_synonym 'a start = "(bytes \<times> world) + 'a"

definition print_flag_error :: "bytes option \<Rightarrow> bytes" where
  "print_flag_error bad_flag =
     [LF] @ ''[ERROR] Unknown flag: '' @ [CHR 0x27] @
     (case bad_flag of Some f \<Rightarrow> f | None \<Rightarrow> ''(null)'') @ [CHR 0x27, LF, LF] @
     ''Valid flags are:'' @ [LF] @
     ''  -c <dir>        Enable CGI execution from directory'' @ [LF] @
     ''  -v              Verbose mode (single connection, debug output)'' @ [LF] @
     ''  -p <port>       Set listen port (default: 8080)'' @ [LF] @
     ''  -l <file>       Log requests to file'' @ [LF] @
     ''  -bind4 <addr>   Bind IPv4 to specific address'' @ [LF] @
     ''  -bind6 <addr>   Bind IPv6 to specific address'' @ [LF] @
     [LF] @
     ''Rules:'' @ [LF] @
     ''  - IPv4 and IPv6 are independent'' @ [LF] @
     ''  - If neither -bind4 nor -bind6 is used, both are enabled'' @ [LF] @
     ''  - Addresses must belong to a local interface or use wildcard'' @ [LF] @
     ''  - Example IPv4: 192.168.1.10 or 0.0.0.0'' @ [LF] @
     ''  - Example IPv6: ::1 or ::'' @ [LF] @
     [LF] @
     ''Example usage:'' @ [LF] @
     ''  ./simple_server -v -bind4 0.0.0.0 -bind6 :: -p 8080'' @ [LF] @
     [LF]"

definition checkPortNumber :: "bytes \<Rightarrow> int" where
  "checkPortNumber port = (if \<forall>ch \<in> set port. is_digit ch then 1 else 0)"

text \<open>\<^verbatim>\<open>if (log_ptr != NULL && log_ptr != stdout) fclose(log_ptr);\<close>\<close>

definition close_log :: "log_target \<Rightarrow> world \<Rightarrow> world" where
  "close_log l w = (case l of Log_file h \<Rightarrow> c_fclose h w | _ \<Rightarrow> w)"

text \<open>\<^verbatim>\<open>fopen(path, "a")\<close>: a new stream; the server only writes to it.\<close>

definition c_fopen_append :: "startup \<Rightarrow> bytes \<Rightarrow> world \<Rightarrow> nat option \<times> world" where
  "c_fopen_append env path w =
     (if st_append_ok env path
      then (Some (w_next w),
            w\<lparr>w_next := Suc (w_next w),
              w_streams := (w_streams w)(w_next w \<mapsto>
                \<lparr>s_file = \<lparr>fi_stat_ok = True, fi_is_dir = False, fi_size = 0, fi_mtime = 0, fi_data = []\<rparr>,
                  s_pos = 0\<rparr>)\<rparr>)
      else (None, w))"

text \<open>The branches of the loop.  \<open>rest\<close> are the arguments after the flag.\<close>

definition flag_c :: "startup \<Rightarrow> bytes list \<Rightarrow> config \<Rightarrow> world \<Rightarrow> (nat \<times> config \<times> world) start" where
  "flag_c env rest cfg w =
     (case rest of
        [] \<Rightarrow> Inl (''Invalid CGI dir'' @ [LF] @ ''Provide the cgi-bin address after -c flag. '' @
                  ''Eg: ./simple_server -c ./cgi-bin'' @ [LF], w)
      | d # _ \<Rightarrow>
          if \<not> st_is_dir env d then Inl (d @ '' is not a valid directory'' @ [LF], w)
          else Inr (1, cfg\<lparr>cgi_addr := Some d, app_flags := app_flags cfg OR C_FLAG\<rparr>, w))"

definition flag_v :: "config \<Rightarrow> world \<Rightarrow> (nat \<times> config \<times> world) start" where
  "flag_v cfg w =
     Inr (0, cfg\<lparr>cfg_log := Log_stdout, app_flags := (app_flags cfg AND NOT L_FLAG) OR V_FLAG\<rparr>,
          close_log (cfg_log cfg) w)"

definition starts_dash :: "bytes \<Rightarrow> bool" where
  "starts_dash a \<longleftrightarrow> a \<noteq> [] \<and> hd a = CHR ''-''"

definition flag_bind4 :: "startup \<Rightarrow> bytes list \<Rightarrow> config \<Rightarrow> world \<Rightarrow> (nat \<times> config \<times> world) start" where
  "flag_bind4 env rest cfg w =
     (if rest = [] \<or> starts_dash (hd rest)
      then Inl (''Invalid bind address '' @ [LF] @ ''Provide the a valid IPv4 address for bind flag. '' @
                ''Eg: -bind4 192.168.1.1'' @ [LF], w)
      else if \<not> st_pton4 env (hd rest) then Inl (''Invalid IPv4 address'' @ [LF], w)
      else Inr (1, cfg\<lparr>bind_addr4 := Some (hd rest), app_flags := app_flags cfg OR B4_FLAG\<rparr>, w))"

definition flag_bind6 :: "startup \<Rightarrow> bytes list \<Rightarrow> config \<Rightarrow> world \<Rightarrow> (nat \<times> config \<times> world) start" where
  "flag_bind6 env rest cfg w =
     (if rest = [] \<or> starts_dash (hd rest)
      then Inl (''Invalid bind address '' @ [LF] @ ''Provide the a valid IPv6 address for bind flag. '' @
                ''Eg: -bind6 2001:db8::20'' @ [LF], w)
      else if \<not> st_pton6 env (hd rest) then Inl (''Invalid IPv6 address'' @ [LF], w)
      else Inr (1, cfg\<lparr>bind_addr6 := Some (hd rest), app_flags := app_flags cfg OR B6_FLAG\<rparr>, w))"

definition flag_l :: "startup \<Rightarrow> bytes list \<Rightarrow> config \<Rightarrow> world \<Rightarrow> (nat \<times> config \<times> world) start" where
  "flag_l env rest cfg w =
     (if rest = [] \<or> starts_dash (hd rest)
      then Inl (''Invalid log file '' @ [LF] @ ''Provide the a valid address for log file -l flag. '' @
                ''Eg: -l ./simple-server.log'' @ [LF], w)
      else
        case c_fopen_append env (hd rest) (close_log (cfg_log cfg) w) of
          (None, w1) \<Rightarrow> Inl (''Unable to create logfile: '', w1)
        | (Some h, w1) \<Rightarrow>
            Inr (1, cfg\<lparr>log_addr := Some (hd rest), cfg_log := Log_file h,
                        app_flags := (app_flags cfg OR L_FLAG) AND NOT V_FLAG\<rparr>, w1))"

definition flag_p :: "startup \<Rightarrow> bytes list \<Rightarrow> config \<Rightarrow> world \<Rightarrow> (nat \<times> config \<times> world) start" where
  "flag_p env rest cfg w =
     (if rest = [] \<or> checkPortNumber (hd rest) = 0
      then Inl (''Invalid port number'' @ [LF] @ ''Provide port number after -p flag. Eg: -p 8080'' @ [LF], w)
      else
        let port = atoi (hd rest)
        in if sint port \<le> 1024 \<and> st_euid env \<noteq> 0
           then Inl (''Invalid port number'' @ [LF] @ ''Only root can set port below 1024'' @ [LF], w)
           else Inr (1, cfg\<lparr>port_addr := port\<rparr>, w))"

text \<open>One turn of the loop: how many further arguments it takes, or the exit.\<close>

definition flag_step ::
    "startup \<Rightarrow> bytes \<Rightarrow> bytes list \<Rightarrow> config \<Rightarrow> world \<Rightarrow> (nat \<times> config \<times> world) start"
where
  "flag_step env arg rest cfg w =
     (if \<not> starts_dash arg then Inr (0, cfg, w)
      else if arg = ''-c'' then flag_c env rest cfg w
      else if arg = ''-v'' then flag_v cfg w
      else if arg = ''-bind4'' then flag_bind4 env rest cfg w
      else if arg = ''-bind6'' then flag_bind6 env rest cfg w
      else if arg = ''-l'' then flag_l env rest cfg w
      else if arg = ''-p'' then flag_p env rest cfg w
      else Inl (print_flag_error (Some arg), w))"

fun flags_loop :: "startup \<Rightarrow> bytes list \<Rightarrow> config \<Rightarrow> world \<Rightarrow> (config \<times> world) start" where
  "flags_loop env [] cfg w = Inr (cfg, w)"
| "flags_loop env (arg # rest) cfg w =
     (case flag_step env arg rest cfg w of
        Inl e \<Rightarrow> Inl e
      | Inr (k, cfg1, w1) \<Rightarrow> flags_loop env (drop k rest) cfg1 w1)"

text \<open>\<^verbatim>\<open>argv[0]\<close> is skipped.  The return value is always 0.\<close>

definition setFlags :: "startup \<Rightarrow> bytes list \<Rightarrow> config \<Rightarrow> world \<Rightarrow> (int \<times> config \<times> world) start" where
  "setFlags env argv cfg w =
     (if length argv < 2 then Inr (0, cfg, w)
      else case flags_loop env (tl argv) cfg w of
             Inl e \<Rightarrow> Inl e
           | Inr (cfg1, w1) \<Rightarrow> Inr (0, cfg1, w1))"

section \<open>Bits\<close>

lemmas flag_defs = C_FLAG_def V_FLAG_def H_FLAG_def B4_FLAG_def B6_FLAG_def L_FLAG_def P_FLAG_def

lemma flag_set_or [simp]: "flag_set (a OR b) g = (flag_set a g \<or> flag_set b g)"
  by (simp add: flag_set_def bit.conj_disj_distrib2 or_eq_0_iff)

lemma flag_set_zero [simp]: "flag_set 0 g = False"
  by (simp add: flag_set_def)

lemma flag_set_consts [simp]:
  "flag_set C_FLAG C_FLAG = True" "flag_set C_FLAG V_FLAG = False" "flag_set C_FLAG H_FLAG = False" "flag_set C_FLAG B4_FLAG = False" "flag_set C_FLAG B6_FLAG = False" "flag_set C_FLAG L_FLAG = False" "flag_set C_FLAG P_FLAG = False"
  "flag_set V_FLAG C_FLAG = False" "flag_set V_FLAG V_FLAG = True" "flag_set V_FLAG H_FLAG = False" "flag_set V_FLAG B4_FLAG = False" "flag_set V_FLAG B6_FLAG = False" "flag_set V_FLAG L_FLAG = False" "flag_set V_FLAG P_FLAG = False"
  "flag_set B4_FLAG C_FLAG = False" "flag_set B4_FLAG V_FLAG = False" "flag_set B4_FLAG H_FLAG = False" "flag_set B4_FLAG B4_FLAG = True" "flag_set B4_FLAG B6_FLAG = False" "flag_set B4_FLAG L_FLAG = False" "flag_set B4_FLAG P_FLAG = False"
  "flag_set B6_FLAG C_FLAG = False" "flag_set B6_FLAG V_FLAG = False" "flag_set B6_FLAG H_FLAG = False" "flag_set B6_FLAG B4_FLAG = False" "flag_set B6_FLAG B6_FLAG = True" "flag_set B6_FLAG L_FLAG = False" "flag_set B6_FLAG P_FLAG = False"
  "flag_set L_FLAG C_FLAG = False" "flag_set L_FLAG V_FLAG = False" "flag_set L_FLAG H_FLAG = False" "flag_set L_FLAG B4_FLAG = False" "flag_set L_FLAG B6_FLAG = False" "flag_set L_FLAG L_FLAG = True" "flag_set L_FLAG P_FLAG = False"
  by (simp_all add: flag_set_def flag_defs)

lemma flag_set_clear [simp]:
  "flag_set (f AND NOT V_FLAG) C_FLAG = flag_set f C_FLAG" "flag_set (f AND NOT V_FLAG) V_FLAG = False" "flag_set (f AND NOT V_FLAG) H_FLAG = flag_set f H_FLAG" "flag_set (f AND NOT V_FLAG) B4_FLAG = flag_set f B4_FLAG" "flag_set (f AND NOT V_FLAG) B6_FLAG = flag_set f B6_FLAG" "flag_set (f AND NOT V_FLAG) L_FLAG = flag_set f L_FLAG" "flag_set (f AND NOT V_FLAG) P_FLAG = flag_set f P_FLAG"
  "flag_set (f AND NOT L_FLAG) C_FLAG = flag_set f C_FLAG" "flag_set (f AND NOT L_FLAG) V_FLAG = flag_set f V_FLAG" "flag_set (f AND NOT L_FLAG) H_FLAG = flag_set f H_FLAG" "flag_set (f AND NOT L_FLAG) B4_FLAG = flag_set f B4_FLAG" "flag_set (f AND NOT L_FLAG) B6_FLAG = flag_set f B6_FLAG" "flag_set (f AND NOT L_FLAG) L_FLAG = False" "flag_set (f AND NOT L_FLAG) P_FLAG = flag_set f P_FLAG"
  by (simp_all add: flag_set_def flag_defs and.assoc)

section \<open>The configuration\<close>

text \<open>
  Relative to the streams \<open>w0\<close> that were open before: verbose mode and a log file exclude each
  other, the log target agrees with the bits and is the only stream that was added, addresses
  were validated, a low port needs root, the reserved bits stay clear, and no stream was closed
  twice.
\<close>

definition log_streams :: "log_target \<Rightarrow> nat set" where
  "log_streams l = (case l of Log_file h \<Rightarrow> {h} | _ \<Rightarrow> {})"

definition config_ok :: "startup \<Rightarrow> config \<Rightarrow> bool" where
  "config_ok env cfg \<longleftrightarrow>
     flag_set (app_flags cfg) V_FLAG = (cfg_log cfg = Log_stdout) \<and>
     flag_set (app_flags cfg) L_FLAG = (\<exists>h. cfg_log cfg = Log_file h) \<and>
     flag_set (app_flags cfg) C_FLAG = (cgi_addr cfg \<noteq> None) \<and>
     flag_set (app_flags cfg) B4_FLAG = (bind_addr4 cfg \<noteq> None) \<and>
     flag_set (app_flags cfg) B6_FLAG = (bind_addr6 cfg \<noteq> None) \<and>
     (\<forall>d. cgi_addr cfg = Some d \<longrightarrow> st_is_dir env d) \<and>
     (\<forall>a. bind_addr4 cfg = Some a \<longrightarrow> st_pton4 env a) \<and>
     (\<forall>a. bind_addr6 cfg = Some a \<longrightarrow> st_pton6 env a) \<and>
     (sint (port_addr cfg) \<le> 1024 \<longrightarrow> st_euid env = 0) \<and>
     \<not> flag_set (app_flags cfg) H_FLAG \<and> \<not> flag_set (app_flags cfg) P_FLAG"

definition log_owned :: "world \<Rightarrow> config \<Rightarrow> world \<Rightarrow> bool" where
  "log_owned w0 cfg w \<longleftrightarrow>
     dom (w_streams w) = dom (w_streams w0) \<union> log_streams (cfg_log cfg) \<and>
     log_streams (cfg_log cfg) \<inter> dom (w_streams w0) = {} \<and>
     world_ok w \<and> w_next w0 \<le> w_next w \<and> w_faults w = w_faults w0"

lemma init_config_ok: "config_ok env init_config"
  by (simp add: config_ok_def init_config_def)

text \<open>Each branch keeps the invariant.\<close>

lemma flag_c_Inr:
  assumes "flag_c env rest cfg w = Inr (k, cfg', w')"
  obtains d where "st_is_dir env d" "w' = w" "cfg' = cfg\<lparr>cgi_addr := Some d, app_flags := app_flags cfg OR C_FLAG\<rparr>"
  using assms by (cases rest) (simp_all add: flag_c_def split: if_splits)

lemma flag_bind4_Inr:
  assumes "flag_bind4 env rest cfg w = Inr (k, cfg', w')"
  obtains a where "st_pton4 env a" "w' = w" "cfg' = cfg\<lparr>bind_addr4 := Some a, app_flags := app_flags cfg OR B4_FLAG\<rparr>"
  using assms by (simp add: flag_bind4_def split: if_splits)

lemma flag_bind6_Inr:
  assumes "flag_bind6 env rest cfg w = Inr (k, cfg', w')"
  obtains a where "st_pton6 env a" "w' = w" "cfg' = cfg\<lparr>bind_addr6 := Some a, app_flags := app_flags cfg OR B6_FLAG\<rparr>"
  using assms by (simp add: flag_bind6_def split: if_splits)

lemma flag_l_Inr:
  assumes "flag_l env rest cfg w = Inr (k, cfg', w')"
  obtains h where "c_fopen_append env (hd rest) (close_log (cfg_log cfg) w) = (Some h, w')"
    "cfg' = cfg\<lparr>log_addr := Some (hd rest), cfg_log := Log_file h,
                app_flags := (app_flags cfg OR L_FLAG) AND NOT V_FLAG\<rparr>"
  using assms
  by (cases "c_fopen_append env (hd rest) (close_log (cfg_log cfg) w)")
     (simp add: flag_l_def split: if_splits option.splits)

lemma flag_p_Inr:
  assumes "flag_p env rest cfg w = Inr (k, cfg', w')"
  obtains n where "sint n \<le> 1024 \<longrightarrow> st_euid env = 0" "w' = w" "cfg' = cfg\<lparr>port_addr := n\<rparr>"
  using assms by (simp add: flag_p_def Let_def split: if_splits)

lemma config_ok_c: "st_is_dir env d \<Longrightarrow> config_ok env cfg \<Longrightarrow>
    config_ok env (cfg\<lparr>cgi_addr := Some d, app_flags := app_flags cfg OR C_FLAG\<rparr>)"
  unfolding config_ok_def by simp

lemma config_ok_v: "config_ok env cfg \<Longrightarrow>
    config_ok env (cfg\<lparr>cfg_log := Log_stdout, app_flags := (app_flags cfg AND NOT L_FLAG) OR V_FLAG\<rparr>)"
  unfolding config_ok_def by simp

lemma config_ok_bind4: "st_pton4 env a \<Longrightarrow> config_ok env cfg \<Longrightarrow>
    config_ok env (cfg\<lparr>bind_addr4 := Some a, app_flags := app_flags cfg OR B4_FLAG\<rparr>)"
  unfolding config_ok_def by simp

lemma config_ok_bind6: "st_pton6 env a \<Longrightarrow> config_ok env cfg \<Longrightarrow>
    config_ok env (cfg\<lparr>bind_addr6 := Some a, app_flags := app_flags cfg OR B6_FLAG\<rparr>)"
  unfolding config_ok_def by simp

lemma config_ok_l: "config_ok env cfg \<Longrightarrow>
    config_ok env (cfg\<lparr>log_addr := a, cfg_log := Log_file h, app_flags := (app_flags cfg OR L_FLAG) AND NOT V_FLAG\<rparr>)"
  unfolding config_ok_def by simp

lemma config_ok_p: "sint n \<le> 1024 \<longrightarrow> st_euid env = 0 \<Longrightarrow> config_ok env cfg \<Longrightarrow> config_ok env (cfg\<lparr>port_addr := n\<rparr>)"
  unfolding config_ok_def by simp

lemma close_log_owned:
  assumes "log_owned w0 cfg w"
  shows "dom (w_streams (close_log (cfg_log cfg) w)) = dom (w_streams w0)"
    "world_ok (close_log (cfg_log cfg) w)" "w_next (close_log (cfg_log cfg) w) = w_next w"
    "w_faults (close_log (cfg_log cfg) w) = w_faults w0"
proof -
  have "dom (w_streams (close_log (cfg_log cfg) w)) = dom (w_streams w0) \<and>
     world_ok (close_log (cfg_log cfg) w) \<and> w_next (close_log (cfg_log cfg) w) = w_next w \<and>
     w_faults (close_log (cfg_log cfg) w) = w_faults w0"
  proof (cases "cfg_log cfg")
    case (Log_file h)
    with assms have h: "dom (w_streams w) = insert h (dom (w_streams w0))" "h \<notin> dom (w_streams w0)"
      by (auto simp: log_owned_def log_streams_def)
    then have "w_streams w h \<noteq> None" by blast
    moreover have "dom ((w_streams w)(h := None)) = dom (w_streams w0)" using h by (simp add: dom_def [symmetric])
    ultimately show ?thesis
      using assms Log_file by (simp add: close_log_def world_simps log_owned_def world_ok_def)
  qed (use assms in \<open>auto simp: close_log_def log_owned_def log_streams_def\<close>)
  then show "dom (w_streams (close_log (cfg_log cfg) w)) = dom (w_streams w0)"
    "world_ok (close_log (cfg_log cfg) w)" "w_next (close_log (cfg_log cfg) w) = w_next w"
    "w_faults (close_log (cfg_log cfg) w) = w_faults w0" by auto
qed

lemma log_owned_v:
  assumes "flag_v cfg w = Inr (k, cfg', w')" "log_owned w0 cfg w"
  shows "log_owned w0 cfg' w'"
  using assms close_log_owned [OF assms(2)] by (auto simp: flag_v_def log_owned_def log_streams_def)

lemma log_owned_l:
  assumes "flag_l env rest cfg w = Inr (k, cfg', w')" "log_owned w0 cfg w" "world_ok w0"
  shows "log_owned w0 cfg' w'"
proof -
  note cl = close_log_owned [OF assms(2)]
  have n: "w_next w0 \<le> w_next w" using assms(2) by (simp add: log_owned_def)
  have fresh: "w_streams w0 (w_next w) = None" using assms(3) n by (rule world_ok_fresh(1))
  from assms(1) obtain st where c: "cfg_log cfg' = Log_file (w_next w)" and
    w: "w' = (close_log (cfg_log cfg) w)\<lparr>w_next := Suc (w_next w),
          w_streams := (w_streams (close_log (cfg_log cfg) w))(w_next w \<mapsto> st)\<rparr>"
    by (auto simp: flag_l_def c_fopen_append_def cl(3) split: if_splits)
  have "dom (w_streams w') = insert (w_next w) (dom (w_streams w0))" by (simp add: w cl(1))
  moreover have "world_ok w'" using cl(2,3) by (simp add: w world_ok_def)
  moreover have "w_faults w' = w_faults w0" "w_next w' = Suc (w_next w)" by (simp_all add: w cl(4))
  moreover have "w_next w \<notin> dom (w_streams w0)" using fresh by blast
  ultimately show ?thesis using n by (simp add: log_owned_def log_streams_def c)
qed

lemma flag_step_ok:
  assumes "flag_step env arg rest cfg w = Inr (k, cfg', w')" "config_ok env cfg" "log_owned w0 cfg w" "world_ok w0"
  shows "config_ok env cfg' \<and> log_owned w0 cfg' w'"
proof -
  have *: "log_owned w0 cfg' w" if "cfg_log cfg' = cfg_log cfg"
    using assms(3) that by (simp add: log_owned_def)
  from assms(1) consider "cfg' = cfg" "w' = w" | "flag_c env rest cfg w = Inr (k, cfg', w')"
    | "flag_v cfg w = Inr (k, cfg', w')" | "flag_bind4 env rest cfg w = Inr (k, cfg', w')"
    | "flag_bind6 env rest cfg w = Inr (k, cfg', w')" | "flag_l env rest cfg w = Inr (k, cfg', w')"
    | "flag_p env rest cfg w = Inr (k, cfg', w')"
    by (simp add: flag_step_def split: if_splits)
  then show ?thesis
  proof cases
    case 1
    with assms(2,3) show ?thesis by simp
  next
    case 2
    then show ?thesis by (rule flag_c_Inr) (use assms(2) * in \<open>simp add: config_ok_c\<close>)
  next
    case 3
    with log_owned_v [OF 3 assms(3)] assms(2) show ?thesis by (auto simp: flag_v_def config_ok_v)
  next
    case 4
    then show ?thesis by (rule flag_bind4_Inr) (use assms(2) * in \<open>simp add: config_ok_bind4\<close>)
  next
    case 5
    then show ?thesis by (rule flag_bind6_Inr) (use assms(2) * in \<open>simp add: config_ok_bind6\<close>)
  next
    case 6
    from 6 show ?thesis
      by (rule flag_l_Inr) (use log_owned_l [OF 6 assms(3,4)] assms(2) in \<open>simp add: config_ok_l\<close>)
  next
    case 7
    then show ?thesis by (rule flag_p_Inr) (use assms(2) * in \<open>simp add: config_ok_p\<close>)
  qed
qed

lemma flags_loop_ok:
  assumes "flags_loop env args cfg w = Inr (cfg', w')" "config_ok env cfg" "log_owned w0 cfg w" "world_ok w0"
  shows "config_ok env cfg' \<and> log_owned w0 cfg' w'"
  using assms
proof (induction env args cfg w rule: flags_loop.induct)
  case (2 env arg rest cfg w)
  from "2.prems"(1) obtain k cfg1 w1 where s: "flag_step env arg rest cfg w = Inr (k, cfg1, w1)"
    and l: "flags_loop env (drop k rest) cfg1 w1 = Inr (cfg', w')"
    by (auto split: sum.splits)
  from flag_step_ok [OF s "2.prems"(2-4)] have "config_ok env cfg1" "log_owned w0 cfg1 w1" by simp_all
  with "2.IH" [OF s refl refl l] "2.prems"(4) show ?case by blast
qed simp

lemma setFlags_invariant:
  assumes "setFlags env argv init_config w0 = Inr (rc, cfg, w)" "world_ok w0"
  shows "rc = 0 \<and> config_ok env cfg \<and> log_owned w0 cfg w"
proof -
  have i: "log_owned w0 init_config w0"
    using assms(2) by (simp add: log_owned_def init_config_def log_streams_def)
  from assms(1) flags_loop_ok [OF _ init_config_ok i assms(2), of env "tl argv" cfg w] i init_config_ok [of env]
  show ?thesis by (auto simp: setFlags_def split: if_splits sum.splits)
qed

text \<open>The command line touches streams only: no block, no descriptor, nothing printed.\<close>

definition log_only :: "world \<Rightarrow> world \<Rightarrow> bool" where
  "log_only w w' \<longleftrightarrow>
     w' = w\<lparr>w_next := w_next w', w_streams := w_streams w', w_faults := w_faults w'\<rparr>"

lemma log_only_refl [simp]: "log_only w w"
  by (simp add: log_only_def)

lemma log_only_upd: "log_only w (w\<lparr>w_next := a, w_streams := b, w_faults := c\<rparr>)"
  by (simp add: log_only_def)

lemma log_only_trans: "log_only w w1 \<Longrightarrow> log_only w1 w2 \<Longrightarrow> log_only w w2"
proof -
  assume "log_only w w1" "log_only w1 w2"
  then obtain a b c d e f where "w1 = w\<lparr>w_next := a, w_streams := b, w_faults := c\<rparr>"
    "w2 = w1\<lparr>w_next := d, w_streams := e, w_faults := f\<rparr>"
    unfolding log_only_def by blast
  then show "log_only w w2" by (simp add: log_only_def)
qed

lemma log_onlyD:
  assumes "log_only w w'"
  shows "w_fds w' = w_fds w" "w_blocks w' = w_blocks w" "w_stdout w' = w_stdout w"
    "w_stdout_open w' = w_stdout_open w" "w_detached w' = w_detached w" "w_magic w' = w_magic w"
proof -
  obtain a b c where "w' = w\<lparr>w_next := a, w_streams := b, w_faults := c\<rparr>"
    using assms unfolding log_only_def by blast
  then show "w_fds w' = w_fds w" "w_blocks w' = w_blocks w" "w_stdout w' = w_stdout w"
    "w_stdout_open w' = w_stdout_open w" "w_detached w' = w_detached w" "w_magic w' = w_magic w"
    by simp_all
qed

lemma close_log_only: "log_only w (close_log l w)"
  by (cases l) (simp_all add: close_log_def c_fclose_def raise_fault_def log_only_def)

lemma flag_l_log_only:
  assumes "flag_l env rest cfg w = Inr (k, cfg', w')"
  shows "log_only w w'"
proof -
  from assms obtain h where "c_fopen_append env (hd rest) (close_log (cfg_log cfg) w) = (Some h, w')" by (rule flag_l_Inr)
  then have "log_only (close_log (cfg_log cfg) w) w'" by (auto simp: c_fopen_append_def log_only_def split: if_splits)
  then show ?thesis by (rule log_only_trans [OF close_log_only])
qed

lemma flag_step_log_only: "flag_step env arg rest cfg w = Inr (k, cfg', w') \<Longrightarrow> log_only w w'"
  unfolding flag_step_def
  by (simp split: if_splits)
     (auto simp: flag_v_def close_log_only dest: flag_l_log_only elim: flag_c_Inr flag_bind4_Inr flag_bind6_Inr flag_p_Inr)

lemma flags_loop_log_only: "flags_loop env args cfg w = Inr (cfg', w') \<Longrightarrow> log_only w w'"
proof (induction env args cfg w rule: flags_loop.induct)
  case (2 env arg rest cfg w)
  from "2.prems" obtain k cfg1 w1 where s: "flag_step env arg rest cfg w = Inr (k, cfg1, w1)"
      "flags_loop env (drop k rest) cfg1 w1 = Inr (cfg', w')"
    by (auto split: sum.splits)
  from flag_step_log_only [OF s(1)] "2.IH" [OF s(1) refl refl s(2)] show ?case by (rule log_only_trans)
qed simp

lemma setFlags_log_only: "setFlags env argv cfg w = Inr (rc, cfg', w') \<Longrightarrow> log_only w w'"
  using flags_loop_log_only by (auto simp: setFlags_def split: if_splits sum.splits)

text \<open>Logging never meets a null stream.\<close>

lemma logging_has_target: "config_ok env cfg \<Longrightarrow> logging_on (app_flags cfg) \<longleftrightarrow> cfg_log cfg \<noteq> Log_none"
  by (cases "cfg_log cfg") (auto simp: config_ok_def logging_on_def)

text \<open>A port written in decimal is read back.\<close>

lemma is_digit_takeWhile: "takeWhile is_digit (show_nat n) = show_nat n"
  using show_nat_digits by (simp add: takeWhile_eq_all_conv)

lemma atoi_show_nat: "n < 2 ^ 31 \<Longrightarrow> atoi (show_nat n) = of_nat n"
  by (simp add: atoi_def is_digit_takeWhile)

lemma sint_of_nat_small: "n < 2 ^ 31 \<Longrightarrow> sint (of_nat n :: 32 word) = int n"
  by (simp add: signed_of_nat signed_take_bit_int_eq_self_iff)

lemma show_nat_not_Nil [simp]: "show_nat n \<noteq> []"
  by (subst show_nat.simps) simp

lemma flag_p_reads:
  assumes "n < 2 ^ 31" "1024 < n \<or> st_euid env = 0"
  shows "flag_p env (show_nat n # rest) cfg w = Inr (1, cfg\<lparr>port_addr := of_nat n\<rparr>, w)"
  using assms show_nat_digits [of n]
  by (auto simp: flag_p_def checkPortNumber_def atoi_show_nat sint_of_nat_small Let_def)

section \<open>What the options mean\<close>

text \<open>
  The options as a user thinks of them, how they are written as arguments, when they are valid,
  and what each does to the settings.  A later option overrides an earlier one; \<^verbatim>\<open>-v\<close> and \<^verbatim>\<open>-l\<close>
  replace each other.
\<close>

datatype opt = Opt_c bytes | Opt_v | Opt_bind4 bytes | Opt_bind6 bytes | Opt_l bytes | Opt_p nat

fun opt_args :: "opt \<Rightarrow> bytes list" where
  "opt_args (Opt_c d) = [''-c'', d]"
| "opt_args Opt_v = [''-v'']"
| "opt_args (Opt_bind4 a) = [''-bind4'', a]"
| "opt_args (Opt_bind6 a) = [''-bind6'', a]"
| "opt_args (Opt_l a) = [''-l'', a]"
| "opt_args (Opt_p n) = [''-p'', show_nat n]"

fun opt_ok :: "startup \<Rightarrow> opt \<Rightarrow> bool" where
  "opt_ok env (Opt_c d) = st_is_dir env d"
| "opt_ok env Opt_v = True"
| "opt_ok env (Opt_bind4 a) = (\<not> starts_dash a \<and> st_pton4 env a)"
| "opt_ok env (Opt_bind6 a) = (\<not> starts_dash a \<and> st_pton6 env a)"
| "opt_ok env (Opt_l a) = (\<not> starts_dash a \<and> st_append_ok env a)"
| "opt_ok env (Opt_p n) = (n < 2 ^ 31 \<and> (1024 < n \<or> st_euid env = 0))"

datatype log_choice = No_log | Log_to_stdout | Log_to bytes

record settings =
  set_cgi :: bool
  set_port :: nat
  set_bind4 :: "bytes option"
  set_bind6 :: "bytes option"
  set_log :: log_choice

fun opt_effect :: "opt \<Rightarrow> settings \<Rightarrow> settings" where
  "opt_effect (Opt_c d) = set_cgi_update (\<lambda>_. True)"
| "opt_effect Opt_v = set_log_update (\<lambda>_. Log_to_stdout)"
| "opt_effect (Opt_bind4 a) = set_bind4_update (\<lambda>_. Some a)"
| "opt_effect (Opt_bind6 a) = set_bind6_update (\<lambda>_. Some a)"
| "opt_effect (Opt_l a) = set_log_update (\<lambda>_. Log_to a)"
| "opt_effect (Opt_p n) = set_port_update (\<lambda>_. n)"

definition default_settings :: settings where
  "default_settings = \<lparr>set_cgi = False, set_port = 8080, set_bind4 = None, set_bind6 = None, set_log = No_log\<rparr>"

text \<open>The settings the global variables stand for.\<close>

definition settings_of :: "config \<Rightarrow> settings" where
  "settings_of cfg =
     \<lparr>set_cgi = flag_set (app_flags cfg) C_FLAG, set_port = unat (port_addr cfg),
      set_bind4 = (if flag_set (app_flags cfg) B4_FLAG then bind_addr4 cfg else None),
      set_bind6 = (if flag_set (app_flags cfg) B6_FLAG then bind_addr6 cfg else None),
      set_log = (if flag_set (app_flags cfg) V_FLAG then Log_to_stdout
                 else if flag_set (app_flags cfg) L_FLAG then (case log_addr cfg of Some a \<Rightarrow> Log_to a | None \<Rightarrow> No_log)
                 else No_log)\<rparr>"

lemma settings_of_init: "settings_of init_config = default_settings"
  by (simp add: settings_of_def init_config_def default_settings_def)

lemma starts_dash_flags [simp]:
  "starts_dash ''-c''" "starts_dash ''-v''" "starts_dash ''-bind4''" "starts_dash ''-bind6''" "starts_dash ''-l''" "starts_dash ''-p''"
  by (simp_all add: starts_dash_def)

text \<open>A valid option is consumed with its argument and has its effect.\<close>

lemma flag_step_opt:
  assumes "opt_ok env o1"
  shows "\<exists>cfg' w'. flag_step env (hd (opt_args o1)) (tl (opt_args o1) @ rest) cfg w =
       Inr (length (tl (opt_args o1)), cfg', w') \<and> settings_of cfg' = opt_effect o1 (settings_of cfg)"
proof (cases o1)
  case (Opt_p n)
  with assms flag_p_reads [of n env rest cfg w] show ?thesis
    by (simp add: flag_step_def settings_of_def unat_of_nat take_bit_nat_eq_self)
qed (use assms in \<open>simp_all add: flag_step_def flag_c_def flag_v_def flag_bind4_def flag_bind6_def flag_l_def
    c_fopen_append_def settings_of_def\<close>)

lemma flags_loop_opt:
  assumes "opt_ok env o1"
  shows "\<exists>cfg' w'. flags_loop env (opt_args o1 @ rest) cfg w = flags_loop env rest cfg' w' \<and>
     settings_of cfg' = opt_effect o1 (settings_of cfg)"
proof -
  have a: "opt_args o1 @ rest = hd (opt_args o1) # tl (opt_args o1) @ rest" by (cases o1) simp_all
  from flag_step_opt [OF assms, of rest cfg w] obtain cfg' w' where
    "flag_step env (hd (opt_args o1)) (tl (opt_args o1) @ rest) cfg w = Inr (length (tl (opt_args o1)), cfg', w')"
    "settings_of cfg' = opt_effect o1 (settings_of cfg)" by blast
  moreover have "drop (length (tl (opt_args o1))) (tl (opt_args o1) @ rest) = rest" by simp
  ultimately show ?thesis unfolding a flags_loop.simps by auto
qed

lemma flags_loop_opts:
  assumes "\<forall>x \<in> set opts. opt_ok env x"
  shows "\<exists>cfg' w'. flags_loop env (concat (map opt_args opts) @ rest) cfg w = flags_loop env rest cfg' w' \<and>
     settings_of cfg' = fold opt_effect opts (settings_of cfg)"
  using assms
proof (induction opts arbitrary: cfg w)
  case (Cons x opts)
  from Cons.prems have "opt_ok env x" by simp
  from flags_loop_opt [OF this, of "concat (map opt_args opts) @ rest" cfg w] obtain cfg1 w1 where
    1: "flags_loop env (opt_args x @ concat (map opt_args opts) @ rest) cfg w =
          flags_loop env (concat (map opt_args opts) @ rest) cfg1 w1" "settings_of cfg1 = opt_effect x (settings_of cfg)"
    by blast
  from Cons.IH [of cfg1 w1] Cons.prems 1 show ?case by simp
qed auto

lemma setFlags_loop: "setFlags env (prog # args) cfg w = map_sum id (\<lambda>(c, v). (0, c, v)) (flags_loop env args cfg w)"
  by (cases args) (auto simp: setFlags_def split: sum.split)

lemma setFlags_options:
  assumes "\<forall>x \<in> set opts. opt_ok env x"
  shows "\<exists>cfg w'. setFlags env (prog # concat (map opt_args opts)) init_config w = Inr (0, cfg, w') \<and>
     settings_of cfg = fold opt_effect opts default_settings"
proof -
  from flags_loop_opts [OF assms, of "[]" init_config w] obtain cfg w' where
    "flags_loop env (concat (map opt_args opts)) init_config w = Inr (cfg, w')"
    "settings_of cfg = fold opt_effect opts default_settings"
    by (auto simp: settings_of_init)
  then show ?thesis by (simp add: setFlags_loop)
qed

section \<open>Properties\<close>


definition sample_startup :: startup where
  "sample_startup =
     \<lparr>st_is_dir = (\<lambda>d. d = ''./cgi-bin''), st_pton4 = (\<lambda>a. a = ''127.0.0.1''), st_pton6 = (\<lambda>a. a = ''::1''),
      st_append_ok = (\<lambda>p. p = ''a.log'' \<or> p = ''b.log''), st_euid = 1000, st_magic_ok = True,
      st_daemon_ok = True, st_pid = 42,
      st_sigterm_ok = True, st_sigint_ok = True\<rparr>"

definition sample_argv :: "bytes list" where
  "sample_argv = [''sws'', ''-l'', ''a.log'', ''-v'', ''-l'', ''b.log'', ''-bind4'', ''127.0.0.1'']"

definition sample_config :: config where
  "sample_config = init_config\<lparr>app_flags := L_FLAG OR B4_FLAG, bind_addr4 := Some ''127.0.0.1'',
     log_addr := Some ''b.log'', cfg_log := Log_file 1\<rparr>"


text \<open>
  C31: round trip.  Valid options, written as arguments in any number and order, are read back:
  \<^verbatim>\<open>setFlags\<close> returns 0 and the settings are the defaults with the effects of the options applied
  from left to right.
\<close>

theorem options_roundtrip:
  assumes "\<forall>x \<in> set opts. opt_ok env x"
  shows "\<exists>cfg w'. setFlags env (prog # concat (map opt_args opts)) init_config w = Inr (0, cfg, w') \<and>
     settings_of cfg = fold opt_effect opts default_settings"
  using assms by (rule setFlags_options)

theorem options_roundtrip_witness:
  "list_all (opt_ok sample_startup) [Opt_p 9000, Opt_v, Opt_l ''a.log'', Opt_p 8081] \<and>
   (\<exists>cfg w'. setFlags sample_startup
       [''sws'', ''-p'', ''9000'', ''-v'', ''-l'', ''a.log'', ''-p'', ''8081''] init_config empty_world = Inr (0, cfg, w') \<and>
     settings_of cfg = default_settings\<lparr>set_port := 8081, set_log := Log_to ''a.log''\<rparr>)"
proof -
  have ok: "\<forall>x \<in> set [Opt_p 9000, Opt_v, Opt_l ''a.log'', Opt_p 8081]. opt_ok sample_startup x"
    by (simp add: sample_startup_def starts_dash_def)
  have "show_nat 9000 = ''9000''" "show_nat 8081 = ''8081''" by (simp_all add: show_nat.simps char_of_def bit_0)
  with options_roundtrip [OF ok, of "''sws''" empty_world] ok show ?thesis
    by (simp add: default_settings_def list_all_iff)
qed



end
