(* ===== verification/Sockets.thy ===== *)
theory Sockets
  imports Flags
begin

text \<open>
  \<^verbatim>\<open>sockets/get_listener_v4.c\<close> and \<^verbatim>\<open>sockets/get_listener_v6.c\<close>: the two listening sockets.  The
  outcome of each system call is a parameter.  A call that fails ends the process, except that
  an address \<^verbatim>\<open>inet_pton\<close> rejects makes the function return -1.  The lemmas give the address and
  port that are bound, on every path.
\<close>

section \<open>Definitions\<close>

record sock_env =
  so_socket :: int
  so_getfl :: int
  so_setfl :: int
  so_bind :: "bytes option \<Rightarrow> 16 word \<Rightarrow> bool"
  so_getsockname_ok :: bool
  so_listen_ok :: bool

definition c_socket :: "int \<Rightarrow> world \<Rightarrow> world" where
  "c_socket d w = w\<lparr>w_fds := (w_fds w)(d := True)\<rparr>"

definition c_listen :: "int \<Rightarrow> bytes option \<Rightarrow> 16 word \<Rightarrow> world \<Rightarrow> world" where
  "c_listen d a port w = w\<lparr>w_listen := (w_listen w)(d \<mapsto> (a, port))\<rparr>"

text \<open>\<^verbatim>\<open>htons(port_addr)\<close> takes a 16-bit argument: the upper half of \<^verbatim>\<open>port_addr\<close> is lost.\<close>

definition bound_port :: "32 word \<Rightarrow> 16 word" where
  "bound_port port = ucast port"

definition get_listener_v4 :: "startup \<Rightarrow> sock_env \<Rightarrow> config \<Rightarrow> world \<Rightarrow> (int \<times> world) start" where
  "get_listener_v4 env so cfg w =
     (if so_socket so < 0 then Inl (''opening IPv4 sock stream'', w)
      else
        let listener_v4 = so_socket so; w1 = c_socket listener_v4 w
        in if so_getfl so < 0 \<or> so_setfl so < 0 then Inl (''fcntl O_NONBLOCK listener_v4'', w1)
           else if flag_set (app_flags cfg) B4_FLAG \<and>
                   \<not> (\<exists>a. bind_addr4 cfg = Some a \<and> st_pton4 env a)
           then Inr (-1, w1)
           else
             let sin_addr = (if flag_set (app_flags cfg) B4_FLAG then bind_addr4 cfg else None);
                 sin_port = bound_port (port_addr cfg)
             in if \<not> so_bind so sin_addr sin_port then Inl (''bind listener_v4'', w1)
                else if \<not> so_getsockname_ok so then Inl (''getting listener_v4 name'', w1)
                else if \<not> so_listen_ok so then Inl (''listen listener_v4'', w1)
                else Inr (listener_v4, c_listen listener_v4 sin_addr sin_port w1))"

definition get_listener_v6 :: "startup \<Rightarrow> sock_env \<Rightarrow> config \<Rightarrow> world \<Rightarrow> (int \<times> world) start" where
  "get_listener_v6 env so cfg w =
     (if so_socket so < 0 then Inl (''opening IPv6 sock stream'', w)
      else
        let listener_v6 = so_socket so; w1 = c_socket listener_v6 w
        in if so_getfl so < 0 \<or> so_setfl so < 0 then Inl (''fcntl O_NONBLOCK listener_v6'', w1)
           else if flag_set (app_flags cfg) B6_FLAG \<and>
                   \<not> (\<exists>a. bind_addr6 cfg = Some a \<and> st_pton6 env a)
           then Inr (-1, w1)
           else
             let sin6_addr = (if flag_set (app_flags cfg) B6_FLAG then bind_addr6 cfg else None);
                 sin6_port = bound_port (port_addr cfg)
             in if \<not> so_bind so sin6_addr sin6_port then Inl (''bind listener_v6'', w1)
                else if \<not> so_getsockname_ok so then Inl (''getting listener_v6 name'', w1)
                else if \<not> so_listen_ok so then Inl (''listen listener_v6'', w1)
                else Inr (listener_v6, c_listen listener_v6 sin6_addr sin6_port w1))"

section \<open>Lemmas\<close>

lemma unat_bound_port: "unat (bound_port p) = unat p mod 2 ^ 16"
  by (simp add: bound_port_def unsigned_ucast_eq take_bit_eq_mod)

text \<open>With a checked configuration the -1 is never returned, and the socket listens as configured.\<close>

lemma get_listener_v4_listens:
  assumes "get_listener_v4 env so cfg w = Inr (d, w')" "config_ok env cfg"
  shows "0 \<le> d \<and> d = so_socket so \<and> w_fds w' = (w_fds w)(d := True) \<and>
     w_listen w' = (w_listen w)(d \<mapsto> (bind_addr4 cfg, bound_port (port_addr cfg)))"
proof -
  have ex: "flag_set (app_flags cfg) B4_FLAG \<Longrightarrow> \<exists>a. bind_addr4 cfg = Some a \<and> st_pton4 env a"
    and no: "\<not> flag_set (app_flags cfg) B4_FLAG \<Longrightarrow> bind_addr4 cfg = None"
    using assms(2) by (auto simp: config_ok_def)
  with assms(1) show ?thesis
    unfolding get_listener_v4_def Let_def
    by (cases "flag_set (app_flags cfg) B4_FLAG") (auto simp: c_socket_def c_listen_def split: if_splits)
qed

lemma get_listener_v6_listens:
  assumes "get_listener_v6 env so cfg w = Inr (d, w')" "config_ok env cfg"
  shows "0 \<le> d \<and> d = so_socket so \<and> w_fds w' = (w_fds w)(d := True) \<and>
     w_listen w' = (w_listen w)(d \<mapsto> (bind_addr6 cfg, bound_port (port_addr cfg)))"
proof -
  have ex: "flag_set (app_flags cfg) B6_FLAG \<Longrightarrow> \<exists>a. bind_addr6 cfg = Some a \<and> st_pton6 env a"
    and no: "\<not> flag_set (app_flags cfg) B6_FLAG \<Longrightarrow> bind_addr6 cfg = None"
    using assms(2) by (auto simp: config_ok_def)
  with assms(1) show ?thesis
    unfolding get_listener_v6_def Let_def
    by (cases "flag_set (app_flags cfg) B6_FLAG") (auto simp: c_socket_def c_listen_def split: if_splits)
qed

text \<open>Making a listener touches descriptors only.\<close>

definition sockets_only :: "world \<Rightarrow> world \<Rightarrow> bool" where
  "sockets_only w w' \<longleftrightarrow> w' = w\<lparr>w_fds := w_fds w', w_listen := w_listen w'\<rparr>"

lemma sockets_onlyD:
  assumes "sockets_only w w'"
  shows "w_faults w' = w_faults w" "world_ok w' = world_ok w" "w_streams w' = w_streams w"
    "w_blocks w' = w_blocks w" "w_next w' = w_next w" "w_stdout w' = w_stdout w" "w_detached w' = w_detached w"
proof -
  obtain a b where w': "w' = w\<lparr>w_fds := a, w_listen := b\<rparr>" using assms unfolding sockets_only_def by blast
  show "w_faults w' = w_faults w" "world_ok w' = world_ok w" "w_streams w' = w_streams w"
    "w_blocks w' = w_blocks w" "w_next w' = w_next w" "w_stdout w' = w_stdout w" "w_detached w' = w_detached w"
    by (simp_all add: w' world_ok_def)
qed

lemma sockets_only_trans: "sockets_only w w1 \<Longrightarrow> sockets_only w1 w2 \<Longrightarrow> sockets_only w w2"
proof -
  assume "sockets_only w w1" "sockets_only w1 w2"
  then obtain a b c d where "w1 = w\<lparr>w_fds := a, w_listen := b\<rparr>" "w2 = w1\<lparr>w_fds := c, w_listen := d\<rparr>"
    unfolding sockets_only_def by blast
  then show "sockets_only w w2" by (simp add: sockets_only_def)
qed

lemma get_listener_sockets_only:
  "get_listener_v4 env so cfg w = Inr (d, w') \<Longrightarrow> sockets_only w w'"
  "get_listener_v6 env so cfg w = Inr (d, w') \<Longrightarrow> sockets_only w w'"
  by (auto simp: get_listener_v4_def get_listener_v6_def Let_def sockets_only_def c_socket_def c_listen_def split: if_splits)

end
