(* ===== verification/Event_Loop.thy ===== *)
theory Event_Loop
  imports Do_Write Sockets
begin

text \<open>
  \<^verbatim>\<open>main.c\<close>: start-up, the poll loop and the shutdown.  The state of the loop is the connection
  table, the world, and what waits on each descriptor.  One turn of the \<^verbatim>\<open>for\<close> loop over the slots
  is \<open>slot_step\<close>; the whole \<^verbatim>\<open>for\<close> loop is \<open>sweep\<close>, a partial function, because a loop that
  decrements its index may run forever.  The locale \<open>slot_invariant\<close> shows once that a property
  that every turn keeps is kept by a sweep, that the sweep returns, and that the property holds
  in every reachable state; the locale \<open>loop_invariant\<close> reduces a turn to the four handlers.
  They are interpreted in later theories, on the lifecycle of the connections and on the
  ownership of memory.
\<close>

section \<open>Definitions\<close>

record server =
  sv_table :: table
  sv_world :: world
  sv_in :: "int \<Rightarrow> io_event list"
  sv_accept :: "int \<Rightarrow> accept_event list"
  sv_send :: "int \<Rightarrow> int list"

text \<open>What a handler needs besides the state: the system, the flags and the log stream.\<close>

record loop_env =
  le_sys :: os
  le_flags :: flags
  le_log :: ptr
  le_listeners :: nat

definition revents_at :: "server \<Rightarrow> nat \<Rightarrow> 16 word" where
  "revents_at s i = (case t_pfds (sv_table s) ! i of Some p \<Rightarrow> pfd_revents p | None \<Rightarrow> 0)"

definition state_at :: "server \<Rightarrow> nat \<Rightarrow> client_state" where
  "state_at s i = (case t_clients (sv_table s) ! i of Some c \<Rightarrow> state c | None \<Rightarrow> NUM_CLIENT_STATE)"

definition fd_at :: "server \<Rightarrow> nat \<Rightarrow> int" where
  "fd_at s i = (case t_clients (sv_table s) ! i of Some c \<Rightarrow> fd c | None \<Rightarrow> -1)"

definition has :: "16 word \<Rightarrow> 16 word \<Rightarrow> bool" where
  "has r b \<longleftrightarrow> r AND b \<noteq> 0"

definition accept_slot :: "loop_env \<Rightarrow> nat \<Rightarrow> server \<Rightarrow> server run" where
  "accept_slot env i s =
     (let d = (case t_pfds (sv_table s) ! i of Some p \<Rightarrow> pfd_fd p | None \<Rightarrow> -1)
      in case accept_new_conn (le_sys env) (sv_accept s d) (sv_table s) (sv_world s) of
           Inl w \<Rightarrow> Inl w
         | Inr (es, t, w) \<Rightarrow>
             Inr (s\<lparr>sv_table := t, sv_world := w, sv_accept := (sv_accept s)(d := es)\<rparr>))"

definition read_slot :: "loop_env \<Rightarrow> nat \<Rightarrow> server \<Rightarrow> server" where
  "read_slot env i s =
     (case do_read (le_sys env) (le_flags env) (le_log env) i (sv_table s) (sv_in s (fd_at s i)) (sv_world s) of
        (t, es, w) \<Rightarrow> s\<lparr>sv_table := t, sv_world := w, sv_in := (sv_in s)(fd_at s i := es)\<rparr>)"

definition write_slot :: "nat \<Rightarrow> server \<Rightarrow> server run" where
  "write_slot i s =
     (case do_write i (sv_table s) (sv_send s (fd_at s i)) (sv_world s) of
        Inl w \<Rightarrow> Inl w
      | Inr (t, script, w) \<Rightarrow>
          Inr (s\<lparr>sv_table := t, sv_world := w, sv_send := (sv_send s)(fd_at s i := script)\<rparr>))"

definition close_slot :: "nat \<Rightarrow> server \<Rightarrow> server" where
  "close_slot i s =
     (case close_conn i (sv_table s) (sv_world s) of
        (t, w) \<Rightarrow> s\<lparr>sv_table := t, sv_world := w\<rparr>)"

text \<open>
  The body of the loop over the slots.  The flag tells whether the slot was closed, in which
  case the same index is looked at again.
\<close>

definition slot_step :: "loop_env \<Rightarrow> nat \<Rightarrow> server \<Rightarrow> (bool \<times> server) run" where
  "slot_step env i s =
     (if i < le_listeners env then
        if has (revents_at s i) POLLIN
        then (case accept_slot env i s of Inl w \<Rightarrow> Inl w | Inr s1 \<Rightarrow> Inr (False, s1))
        else Inr (False, s)
      else
        let revents = revents_at s i
        in if revents = 0 then Inr (False, s)
           else if has revents (POLLERR OR POLLHUP OR POLLNVAL) then Inr (True, close_slot i s)
           else
             let s1 = (if has revents POLLIN \<and> state_at s i = READING then read_slot env i s else s)
             in case (if has revents POLLOUT \<and> (state_at s1 i = SENDING_HEADER \<or> state_at s1 i = SENDING_BODY)
                      then write_slot i s1 else Inr s1) of
                  Inl w \<Rightarrow> Inl w
                | Inr s2 \<Rightarrow>
                    if state_at s2 i = CLOSING then Inr (True, close_slot i s2) else Inr (False, s2))"

partial_function (option) sweep :: "loop_env \<Rightarrow> nat \<Rightarrow> server \<Rightarrow> server run option" where
  "sweep env i s =
     (if i < t_count (sv_table s) then
        (case slot_step env i s of
           Inl w \<Rightarrow> Some (Inl w)
         | Inr (closed, s1) \<Rightarrow> sweep env (if closed then i else Suc i) s1)
      else Some (Inr s))"

text \<open>\<^verbatim>\<open>poll\<close> writes the \<^verbatim>\<open>revents\<close> of the first \<^verbatim>\<open>fd_count\<close> entries.\<close>

definition c_poll :: "(nat \<Rightarrow> 16 word) \<Rightarrow> server \<Rightarrow> server" where
  "c_poll revs s =
     s\<lparr>sv_table := (sv_table s)\<lparr>t_pfds :=
         map (\<lambda>i. if i < t_count (sv_table s)
                  then map_option (\<lambda>p. p\<lparr>pfd_revents := revs i\<rparr>) (t_pfds (sv_table s) ! i)
                  else t_pfds (sv_table s) ! i) [0..<length (t_pfds (sv_table s))]\<rparr>\<rparr>"

text \<open>
  One turn of the outer loop: \<^verbatim>\<open>poll\<close> fails with \<^verbatim>\<open>EINTR\<close>, fails otherwise, or reports events.
\<close>

datatype poll_result = Poll_failed errno | Polled "nat \<Rightarrow> 16 word"

definition poll_round :: "loop_env \<Rightarrow> poll_result \<Rightarrow> server \<Rightarrow> server run option" where
  "poll_round env r s =
     (case r of
        Poll_failed e \<Rightarrow> if e = EINTR then Some (Inr s) else Some (Inl (sv_world s))
      | Polled revs \<Rightarrow> sweep env 0 (c_poll revs s))"

text \<open>
  The loop after \<^verbatim>\<open>running\<close> became 0: the slot after the listeners is closed until none is left;
  then the listeners, libmagic, the two arrays and the log, the standard output when that is
  the log.
\<close>

partial_function (option) close_all :: "nat \<Rightarrow> server \<Rightarrow> server option" where
  "close_all nl s = (if nl < t_count (sv_table s) then close_all nl (close_slot nl s) else Some s)"

definition release_log :: "log_target \<Rightarrow> world \<Rightarrow> world" where
  "release_log l w =
     (case l of Log_none \<Rightarrow> w | Log_stdout \<Rightarrow> c_fclose_stdout w | Log_file h \<Rightarrow> c_fclose h w)"

definition shutdown :: "loop_env \<Rightarrow> int \<Rightarrow> int \<Rightarrow> log_target \<Rightarrow> server \<Rightarrow> world option" where
  "shutdown env listener_v4 listener_v6 l s =
     (case close_all (le_listeners env) s of
        None \<Rightarrow> None
      | Some s1 \<Rightarrow>
          let w1 = c_close listener_v6 (c_close listener_v4 (sv_world s1));
              w2 = c_magic_close w1;
              w3 = c_free (Some (t_pfds_at (sv_table s1))) w2;
              w4 = c_free (Some (t_clients_at (sv_table s1))) w3
          in Some (release_log l w4))"

text \<open>Start-up: the listeners that were wanted and could be made fill the first slots.\<close>

definition use_v4 :: "config \<Rightarrow> bool" where
  "use_v4 cfg \<longleftrightarrow> flag_set (app_flags cfg) B4_FLAG \<or> \<not> flag_set (app_flags cfg) B6_FLAG"

definition use_v6 :: "config \<Rightarrow> bool" where
  "use_v6 cfg \<longleftrightarrow> flag_set (app_flags cfg) B6_FLAG \<or> \<not> flag_set (app_flags cfg) B4_FLAG"

definition listener_pfd :: "int \<Rightarrow> pollfd option" where
  "listener_pfd d = Some \<lparr>pfd_fd = d, pfd_events = POLLIN, pfd_revents = 0\<rparr>"

definition init_table :: "nat \<Rightarrow> nat \<Rightarrow> int list \<Rightarrow> table" where
  "init_table pfds clients ls =
     \<lparr>t_pfds_at = pfds, t_clients_at = clients,
      t_pfds = map listener_pfd ls @ replicate (INITIAL_SIZE - length ls) None,
      t_clients = replicate INITIAL_SIZE None, t_count = length ls, t_size = INITIAL_SIZE\<rparr>"

definition start_listeners ::
    "startup \<Rightarrow> sock_env \<Rightarrow> sock_env \<Rightarrow> config \<Rightarrow> nat \<Rightarrow> nat \<Rightarrow> world \<Rightarrow> (int \<times> int \<times> table \<times> world) start"
where
  "start_listeners env so4 so6 cfg pfds clients w =
     (case (if use_v4 cfg then get_listener_v4 env so4 cfg w else Inr (-1, w)) of
        Inl e \<Rightarrow> Inl e
      | Inr (listener_v4, w1) \<Rightarrow>
          (case (if use_v6 cfg then get_listener_v6 env so6 cfg w1 else Inr (-1, w1)) of
             Inl e \<Rightarrow> Inl e
           | Inr (listener_v6, w2) \<Rightarrow>
               let ls = filter (\<lambda>d. d \<noteq> -1) [listener_v4, listener_v6]
               in if ls = [] then Inl (''no listeners could be created; exiting'' @ [LF], w2)
                  else Inr (listener_v4, listener_v6, init_table pfds clients ls, w2)))"

text \<open>
  \<^verbatim>\<open>main\<close> up to the loop: signal handlers, flags, the detachment from the terminal unless \<^verbatim>\<open>-v\<close> was
  given, libmagic, the greeting, the two arrays, the listeners.  The result of \<^verbatim>\<open>daemon\<close> is not
  looked at.
\<close>

definition setup_signal_handler :: "startup \<Rightarrow> world \<Rightarrow> world start" where
  "setup_signal_handler env w =
     (if \<not> st_sigterm_ok env then Inl (''sigaction SIGTERM. '', w)
      else if \<not> st_sigint_ok env then Inl (''sigaction SIGINT. '', w)
      else Inr w)"

definition shutdown_server :: "bool \<Rightarrow> bool" where
  "shutdown_server running = False"

definition log_ptr_of :: "config \<Rightarrow> ptr" where
  "log_ptr_of cfg = (case cfg_log cfg of Log_none \<Rightarrow> None | Log_stdout \<Rightarrow> Some 0 | Log_file h \<Rightarrow> Some h)"

definition greeting :: "startup \<Rightarrow> bytes" where
  "greeting env = ''Simple Server '' @ show_nat (st_pid env) @ [LF]"

definition main_init ::
    "startup \<Rightarrow> os \<Rightarrow> sock_env \<Rightarrow> sock_env \<Rightarrow> bytes list \<Rightarrow> world \<Rightarrow>
       (config \<times> loop_env \<times> int \<times> int \<times> table \<times> world) start"
where
  "main_init env sys so4 so6 argv w =
     (case setup_signal_handler env w of Inl e \<Rightarrow> Inl e | Inr w0 \<Rightarrow>
      case setFlags env argv init_config w0 of
        Inl e \<Rightarrow> Inl e
      | Inr (rc, cfg, w1) \<Rightarrow>
          let w2 = (if rc < 0
                    then c_printf (''incorrect flags'' @ [LF] @ ''Write some nice message here'' @ [LF]) w1
                    else w1);
              w3 = (if flag_set (app_flags cfg) V_FLAG then w2 else c_daemon (st_daemon_ok env) w2);
              w4 = c_magic_open w3
          in if \<not> st_magic_ok env then Inl ([], c_magic_close w4)
             else
               case c_malloc sys (SIZEOF_POLLFD * INITIAL_SIZE) (c_printf (greeting env) w4) of
                 (pfds, w5) \<Rightarrow>
                   (case c_malloc sys (SIZEOF_CLIENT * INITIAL_SIZE) w5 of
                      (clients, w6) \<Rightarrow>
                        if pfds = None \<or> clients = None then Inl (''malloc'', w6)
                        else
                          case start_listeners env so4 so6 cfg (the pfds) (the clients) w6 of
                            Inl e \<Rightarrow> Inl e
                          | Inr (l4, l6, t, w7) \<Rightarrow>
                              Inr (cfg, \<lparr>le_sys = sys, le_flags = app_flags cfg, le_log = log_ptr_of cfg,
                                         le_listeners = t_count t\<rparr>, l4, l6, t, w7)))"

text \<open>
  The outer loop.  One turn brings what the network delivered, what \<^verbatim>\<open>poll\<close> reports, and whether
  a signal arrived before \<^verbatim>\<open>running\<close> is read again.  With no turn left and \<^verbatim>\<open>running\<close> still set the
  server waits in \<^verbatim>\<open>poll\<close>: no value.
\<close>

record turn =
  tn_in :: "int \<Rightarrow> io_event list"
  tn_accept :: "int \<Rightarrow> accept_event list"
  tn_send :: "int \<Rightarrow> int list"
  tn_poll :: poll_result
  tn_signal :: bool

definition deliver :: "turn \<Rightarrow> server \<Rightarrow> server" where
  "deliver t s = s\<lparr>sv_in := tn_in t, sv_accept := tn_accept t, sv_send := tn_send t\<rparr>"

fun main_loop :: "loop_env \<Rightarrow> bool \<Rightarrow> turn list \<Rightarrow> server \<Rightarrow> server run option" where
  "main_loop env running [] s = (if running then None else Some (Inr s))"
| "main_loop env running (t # ts) s =
     (if running then
        (case poll_round env (tn_poll t) (deliver t s) of
           None \<Rightarrow> None
         | Some (Inl w) \<Rightarrow> Some (Inl w)
         | Some (Inr s1) \<Rightarrow> main_loop env (if tn_signal t then shutdown_server running else running) ts s1)
      else Some (Inr s))"

datatype exit_status = EXIT_FAILURE world | EXIT_SUCCESS world

definition start_server :: "table \<Rightarrow> world \<Rightarrow> server" where
  "start_server t w =
     \<lparr>sv_table = t, sv_world = w, sv_in = (\<lambda>_. []), sv_accept = (\<lambda>_. []), sv_send = (\<lambda>_. [])\<rparr>"

definition main ::
    "startup \<Rightarrow> os \<Rightarrow> sock_env \<Rightarrow> sock_env \<Rightarrow> bytes list \<Rightarrow> turn list \<Rightarrow> world \<Rightarrow> exit_status option"
where
  "main env sys so4 so6 argv turns w =
     (case main_init env sys so4 so6 argv w of
        Inl (msg, w1) \<Rightarrow> Some (EXIT_FAILURE w1)
      | Inr (cfg, lenv, listener_v4, listener_v6, t, w1) \<Rightarrow>
          (case main_loop lenv True turns (start_server t w1) of
             None \<Rightarrow> None
           | Some (Inl w2) \<Rightarrow> Some (EXIT_FAILURE w2)
           | Some (Inr s) \<Rightarrow> map_option EXIT_SUCCESS (shutdown lenv listener_v4 listener_v6 (cfg_log cfg) s)))"

section \<open>What the handlers do to the table\<close>

lemma read_slot_table:
  assumes "table_ok nl (sv_table s)" "nl \<le> i" "i < t_count (sv_table s)"
  obtains p c p' c' es w where
    "t_pfds (sv_table s) ! i = Some p" "t_clients (sv_table s) ! i = Some c" "fd_at s i = fd c"
    "read_conn (le_sys env) (le_flags env) (le_log env) c p (sv_in s (fd c)) (sv_world s) = (c', p', es, w)"
    "read_slot env i s = s\<lparr>sv_table := (sv_table s)\<lparr>t_clients := (t_clients (sv_table s))[i := Some c'],
        t_pfds := (t_pfds (sv_table s))[i := Some p']\<rparr>, sv_world := w, sv_in := (sv_in s)(fd c := es)\<rparr>"
proof -
  have "slot_ok (sv_table s) i" using assms by (simp add: table_ok_def)
  then obtain p c where pc: "t_pfds (sv_table s) ! i = Some p" "t_clients (sv_table s) ! i = Some c"
    by (rule slot_okE)
  obtain c' p' es w where r:
    "read_conn (le_sys env) (le_flags env) (le_log env) c p (sv_in s (fd c)) (sv_world s) = (c', p', es, w)"
    using prod_cases4 by blast
  show thesis
    by (rule that [OF pc _ r]) (simp_all add: fd_at_def read_slot_def do_read_def pc r)
qed

lemma write_slot_table:
  assumes "table_ok nl (sv_table s)" "nl \<le> i" "i < t_count (sv_table s)" "write_slot i s = Inr s'"
  obtains c c' script w where "t_clients (sv_table s) ! i = Some c"
    "write_conn c (sv_send s (fd c)) (sv_world s) = Inr (c', script, w)"
    "s' = s\<lparr>sv_table := (sv_table s)\<lparr>t_clients := (t_clients (sv_table s))[i := Some c']\<rparr>, sv_world := w,
            sv_send := (sv_send s)(fd c := script)\<rparr>"
proof -
  have "slot_ok (sv_table s) i" using assms by (simp add: table_ok_def)
  then obtain p c where pc: "t_pfds (sv_table s) ! i = Some p" "t_clients (sv_table s) ! i = Some c"
    by (rule slot_okE)
  with assms(4) obtain c' script w where
    "write_conn c (sv_send s (fd c)) (sv_world s) = Inr (c', script, w)"
    "s' = s\<lparr>sv_table := (sv_table s)\<lparr>t_clients := (t_clients (sv_table s))[i := Some c']\<rparr>, sv_world := w,
            sv_send := (sv_send s)(fd c := script)\<rparr>"
    by (auto simp: write_slot_def do_write_def fd_at_def split: sum.splits)
  with pc show thesis by (intro that)
qed

lemma set_slot_ok:
  assumes "table_ok nl t" "nl \<le> i" "i < t_count t" "pfd_fd p = fd c"
  shows "table_ok nl (t\<lparr>t_clients := (t_clients t)[i := Some c], t_pfds := (t_pfds t)[i := Some p]\<rparr>)"
    "conns nl (t\<lparr>t_clients := (t_clients t)[i := Some c], t_pfds := (t_pfds t)[i := Some p]\<rparr>) =
       (conns nl t)[i - nl := (p, c)]"
proof -
  let ?t = "t\<lparr>t_clients := (t_clients t)[i := Some c], t_pfds := (t_pfds t)[i := Some p]\<rparr>"
  have l: "i < length (t_clients t)" "i < length (t_pfds t)" using assms by (auto simp: table_ok_def)
  have here: "slot_ok ?t i" using l assms(4) by (simp add: slot_ok_def)
  have "slot_ok ?t j" if "slot_ok t j" for j
  proof (cases "j = i")
    case False
    then have "slot_ok ?t j = slot_ok t j" by (intro slot_ok_cong) simp_all
    with that show ?thesis by simp
  qed (simp add: here)
  then have "\<forall>j\<in>{nl..<t_count t}. slot_ok ?t j" using assms(1) by (auto simp: table_ok_def)
  then show "table_ok nl ?t" using assms(1,2) by (auto simp: table_ok_def)
  show "conns nl ?t = (conns nl t)[i - nl := (p, c)]"
  proof (rule nth_equalityI)
    fix k assume "k < length (conns nl ?t)"
    then have "nl + k < t_count t" by (simp add: conns_def)
    with l assms(2) show "conns nl ?t ! k = (conns nl t)[i - nl := (p, c)] ! k"
      by (cases "k = i - nl") (auto simp: conns_def)
  qed (simp add: conns_def)
qed

lemma slot_pair:
  assumes "table_ok nl t" "nl \<le> i" "i < t_count t" "t_pfds t ! i = Some p" "t_clients t ! i = Some c"
  shows "(p, c) \<in> set (conns nl t)" "conns nl t ! (i - nl) = (p, c)" "pfd_fd p = fd c"
proof -
  show "conns nl t ! (i - nl) = (p, c)" using assms by (simp add: conns_def)
  moreover have "i - nl < length (conns nl t)" using assms(2,3) by (simp add: conns_def)
  ultimately show "(p, c) \<in> set (conns nl t)" by (metis nth_mem)
  have "slot_ok t i" using assms(1-3) by (simp add: table_ok_def)
  then show "pfd_fd p = fd c" using assms(4,5) by (simp add: slot_ok_def)
qed

lemma c_poll_conns:
  assumes "table_ok nl (sv_table s)"
  shows "table_ok nl (sv_table (c_poll revs s))"
    "conns nl (sv_table (c_poll revs s)) =
       map (\<lambda>i. ((fst (conns nl (sv_table s) ! (i - nl)))\<lparr>pfd_revents := revs i\<rparr>, snd (conns nl (sv_table s) ! (i - nl))))
         [nl..<t_count (sv_table s)]"
proof -
  let ?t = "sv_table s" and ?u = "sv_table (c_poll revs s)"
  have f: "t_clients ?u = t_clients ?t" "t_count ?u = t_count ?t" "t_size ?u = t_size ?t"
    "length (t_pfds ?u) = length (t_pfds ?t)" by (simp_all add: c_poll_def)
  have n: "t_pfds ?u ! i = map_option (\<lambda>p. p\<lparr>pfd_revents := revs i\<rparr>) (t_pfds ?t ! i)" if "i < t_count ?t" for i
    using that assms by (simp add: c_poll_def table_ok_def)
  have "slot_ok ?u i" if "slot_ok ?t i" "i < t_count ?t" for i
  proof -
    from that(1) obtain p c where "t_pfds ?t ! i = Some p" "t_clients ?t ! i = Some c" "pfd_fd p = fd c"
      by (rule slot_okE)
    then show ?thesis using n [OF that(2)] f(1) by (simp add: slot_ok_def)
  qed
  with assms n f show "table_ok nl ?u" by (auto simp: table_ok_def)
  show "conns nl ?u = map (\<lambda>i. ((fst (conns nl ?t ! (i - nl)))\<lparr>pfd_revents := revs i\<rparr>, snd (conns nl ?t ! (i - nl))))
         [nl..<t_count ?t]"
  proof (unfold conns_def f(2), rule map_cong [OF refl])
    fix i assume i: "i \<in> set [nl..<t_count ?t]"
    then have "slot_ok ?t i" using assms by (simp add: table_ok_def)
    then obtain p c where "t_pfds ?t ! i = Some p" "t_clients ?t ! i = Some c" by (rule slot_okE)
    moreover from i have "i - nl < t_count ?t - nl" by auto
    ultimately show "(the (t_pfds ?u ! i), the (t_clients ?u ! i)) =
      ((fst (map (\<lambda>i. (the (t_pfds ?t ! i), the (t_clients ?t ! i))) [nl..<t_count ?t] ! (i - nl)))\<lparr>pfd_revents := revs i\<rparr>,
        snd (map (\<lambda>i. (the (t_pfds ?t ! i), the (t_clients ?t ! i))) [nl..<t_count ?t] ! (i - nl)))"
      using i n [of i] f(1) by simp
  qed
qed

text \<open>Turns with one event: none, readable, writable.\<close>

lemmas poll_bits = has_def POLLIN_def POLLOUT_def POLLERR_def POLLHUP_def POLLNVAL_def

lemma slot_step_quiet: "revents_at s i = 0 \<Longrightarrow> slot_step env i s = Inr (False, s)"
  by (simp add: slot_step_def has_def)

lemma slot_step_reads:
  assumes "le_listeners env \<le> i" "revents_at s i = POLLIN" "state_at s i = READING"
    and "state_at (read_slot env i s) i \<noteq> CLOSING"
  shows "slot_step env i s = Inr (False, read_slot env i s)"
  using assms by (simp add: slot_step_def poll_bits)

lemma slot_step_writes:
  assumes "le_listeners env \<le> i" "revents_at s i = POLLOUT" "state_at s i = SENDING_HEADER"
    and "write_slot i s = Inr s'" "state_at s' i = CLOSING"
  shows "slot_step env i s = Inr (True, close_slot i s')"
  using assms by (simp add: slot_step_def poll_bits)

lemma sweep_quiet:
  assumes "\<forall>j \<in> {i..<t_count (sv_table s)}. revents_at s j = 0"
  shows "sweep env i s = Some (Inr s)"
  using assms
proof (induction "t_count (sv_table s) - i" arbitrary: i)
  case 0
  then show ?case by (subst sweep.simps) simp
next
  case (Suc n)
  then have i: "i < t_count (sv_table s)" by simp
  then have "slot_step env i s = Inr (False, s)" using Suc.prems by (simp add: slot_step_quiet)
  moreover have "sweep env (Suc i) s = Some (Inr s)" using Suc by simp
  ultimately show ?case using i by (subst sweep.simps) simp
qed

lemma c_poll_slot:
  assumes "table_ok nl (sv_table s)" "i < t_count (sv_table s)" "t_pfds (sv_table s) ! i = Some p"
  shows "t_pfds (sv_table (c_poll revs s)) ! i = Some (p\<lparr>pfd_revents := revs i\<rparr>)" "revents_at (c_poll revs s) i = revs i"
  using assms by (simp_all add: c_poll_def table_ok_def revents_at_def)

lemma c_poll_fields [simp]:
  "t_clients (sv_table (c_poll revs s)) = t_clients (sv_table s)" "t_count (sv_table (c_poll revs s)) = t_count (sv_table s)"
  "sv_world (c_poll revs s) = sv_world s" "sv_send (c_poll revs s) = sv_send s" "sv_in (c_poll revs s) = sv_in s"
  "state_at (c_poll revs s) i = state_at s i" "fd_at (c_poll revs s) i = fd_at s i"
  by (simp_all add: c_poll_def state_at_def fd_at_def)

section \<open>Steps of the server\<close>

text \<open>
  Between two polls the network may change what waits on the descriptors; a round of the loop
  polls and sweeps.
\<close>

inductive main_step :: "loop_env \<Rightarrow> server \<Rightarrow> server \<Rightarrow> bool" for env :: loop_env where
  network: "main_step env s (s\<lparr>sv_in := a, sv_accept := b, sv_send := c\<rparr>)"
| round: "poll_round env p s = Some (Inr s') \<Longrightarrow> main_step env s s'"

inductive reachable :: "loop_env \<Rightarrow> server \<Rightarrow> server \<Rightarrow> bool" for env :: loop_env and s0 :: server where
  start: "reachable env s0 s0"
| step: "reachable env s0 s \<Longrightarrow> main_step env s s' \<Longrightarrow> reachable env s0 s'"

inductive_cases main_stepE: "main_step env s s'"

section \<open>Invariants of the loop\<close>

text \<open>
  A property of the server state that every turn of the loop over the slots keeps, with what a
  turn does to the number of slots.  From this alone: the sweep returns, and the property
  holds wherever the server gets.
\<close>

locale slot_invariant =
  fixes env :: loop_env and I :: "server \<Rightarrow> bool"
  assumes on_turn: "I s \<Longrightarrow> i < t_count (sv_table s) \<Longrightarrow> slot_step env i s = Inr (closed, s') \<Longrightarrow>
      I s' \<and> (if i < le_listeners env then \<not> closed
        else if closed then t_count (sv_table s') = t_count (sv_table s) - 1
        else t_count (sv_table s') = t_count (sv_table s))"
    and on_poll: "I s \<Longrightarrow> I (c_poll revs s)"
    and on_environment: "I s \<Longrightarrow> I (s\<lparr>sv_in := a, sv_accept := b, sv_send := c\<rparr>)"
begin

text \<open>The sweep returns: over the client slots the number of slots still ahead drops at every turn.\<close>

lemma sweep_returns_clients:
  assumes "I s" "le_listeners env \<le> i"
  shows "\<exists>r. sweep env i s = Some r \<and> (\<forall>s'. r = Inr s' \<longrightarrow> I s')"
  using assms
proof (induction "t_count (sv_table s) - i" arbitrary: i s rule: less_induct)
  case less
  show ?case
  proof (cases "i < t_count (sv_table s)")
    case False
    then show ?thesis using less.prems by (subst sweep.simps) simp
  next
    case True
    show ?thesis
    proof (cases "slot_step env i s")
      case (Inl w)
      with True show ?thesis by (subst sweep.simps) simp
    next
      case (Inr r)
      obtain closed s1 where r: "r = (closed, s1)" by (cases r)
      note k = on_turn [OF less.prems(1) True Inr [unfolded r]]
      let ?j = "if closed then i else Suc i"
      have "t_count (sv_table s1) - ?j < t_count (sv_table s) - i"
        using k less.prems(2) True by (auto split: if_splits)
      moreover have "I s1" "le_listeners env \<le> ?j" using k less.prems(2) by auto
      ultimately have "\<exists>r. sweep env ?j s1 = Some r \<and> (\<forall>s'. r = Inr s' \<longrightarrow> I s')" by (rule less.hyps)
      with True Inr r show ?thesis by (subst sweep.simps) simp
    qed
  qed
qed

lemma sweep_returns:
  assumes "I s"
  shows "\<exists>r. sweep env i s = Some r \<and> (\<forall>s'. r = Inr s' \<longrightarrow> I s')"
  using assms
proof (induction "le_listeners env - i" arbitrary: i s)
  case 0
  then show ?case by (intro sweep_returns_clients) simp_all
next
  case (Suc n)
  show ?case
  proof (cases "i < t_count (sv_table s)")
    case False
    then show ?thesis using Suc.prems by (subst sweep.simps) simp
  next
    case True
    show ?thesis
    proof (cases "slot_step env i s")
      case (Inl w)
      with True show ?thesis by (subst sweep.simps) simp
    next
      case (Inr r)
      obtain closed s1 where r: "r = (closed, s1)" by (cases r)
      have "i < le_listeners env" using Suc.hyps(2) by simp
      with on_turn [OF Suc.prems True Inr [unfolded r]] have k: "I s1" "\<not> closed" by simp_all
      have "n = le_listeners env - Suc i" using Suc.hyps(2) by simp
      from Suc.hyps(1) [OF this k(1)] True Inr r k(2) show ?thesis by (subst sweep.simps) simp
    qed
  qed
qed

text \<open>The property holds wherever the server gets.\<close>

lemma poll_round_returns:
  assumes "I s"
  shows "\<exists>r. poll_round env p s = Some r \<and> (\<forall>s'. r = Inr s' \<longrightarrow> I s')"
  using sweep_returns [OF on_poll [OF assms]] assms by (cases p) (auto simp: poll_round_def)

lemma reachable_keeps: "reachable env s0 s \<Longrightarrow> I s0 \<Longrightarrow> I s"
proof (induction rule: reachable.induct)
  case (step s s')
  from step.hyps(2) show ?case
  proof (cases rule: main_step.cases)
    case (network a b c)
    with step show ?thesis using on_environment by simp
  next
    case (round p)
    with step poll_round_returns [of s p] show ?thesis by auto
  qed
qed

text \<open>A signal ends the loop: the turn is finished, and the loop is left with the property.\<close>

lemma deliver_keeps: "I s \<Longrightarrow> I (deliver t s)"
  unfolding deliver_def by (rule on_environment)

lemma main_loop_returns:
  assumes "I s" "\<not> running \<or> (\<exists>t \<in> set ts. tn_signal t)"
  shows "\<exists>r. main_loop env running ts s = Some r \<and> (\<forall>s'. r = Inr s' \<longrightarrow> I s')"
  using assms
proof (induction ts arbitrary: running s)
  case (Cons t ts)
  show ?case
  proof (cases running)
    case True
    obtain r where r: "poll_round env (tn_poll t) (deliver t s) = Some r" "\<forall>s'. r = Inr s' \<longrightarrow> I s'"
      using poll_round_returns [OF deliver_keeps [OF Cons.prems(1)]] by blast
    show ?thesis
    proof (cases r)
      case (Inl w)
      with True r show ?thesis by simp
    next
      case (Inr s1)
      with r have "I s1" by simp
      with Cons.IH [of s1 "\<not> tn_signal t"] Cons.prems(2) True r Inr show ?thesis
        by (cases "tn_signal t") (auto simp: shutdown_server_def)
    qed
  qed (use Cons.prems in simp)
qed simp

lemma main_loop_keeps: "I s \<Longrightarrow> main_loop env running ts s = Some (Inr s') \<Longrightarrow> I s'"
proof (induction ts arbitrary: running s)
  case (Cons t ts)
  show ?case
  proof (cases running)
    case True
    obtain r where r: "poll_round env (tn_poll t) (deliver t s) = Some r" "\<forall>s'. r = Inr s' \<longrightarrow> I s'"
      using poll_round_returns [OF deliver_keeps [OF Cons.prems(1)]] by blast
    with Cons.IH Cons.prems(2) True show ?thesis by (cases r) auto
  qed (use Cons.prems in simp)
qed (simp split: if_splits)

end

text \<open>A turn on the slot of a client: nothing to do, an error, or the read, the write and the close in this order.\<close>

lemma slot_step_client:
  assumes "slot_step env i s = Inr (closed, s')" "le_listeners env \<le> i"
  obtains (kept) "\<not> closed" "s' = s" | (dropped) "closed" "s' = close_slot i s"
  | (worked) s1 s2 where "s1 = s \<or> state_at s i = READING \<and> s1 = read_slot env i s"
      "s2 = s1 \<or> (state_at s1 i = SENDING_HEADER \<or> state_at s1 i = SENDING_BODY) \<and> write_slot i s1 = Inr s2"
      "closed \<longleftrightarrow> state_at s2 i = CLOSING" "s' = (if closed then close_slot i s2 else s2)"
proof -
  define s1 where "s1 = (if has (revents_at s i) POLLIN \<and> state_at s i = READING then read_slot env i s else s)"
  consider "\<not> closed" "s' = s" | "closed" "s' = close_slot i s"
    | s2 where "(if has (revents_at s i) POLLOUT \<and> (state_at s1 i = SENDING_HEADER \<or> state_at s1 i = SENDING_BODY)
          then write_slot i s1 else Inr s1) = Inr s2"
        "(closed, s') = (if state_at s2 i = CLOSING then (True, close_slot i s2) else (False, s2))"
    using assms by (auto simp: slot_step_def Let_def s1_def split: if_splits sum.splits)
  then show thesis
  proof cases
    case (3 s2)
    have "s1 = s \<or> state_at s i = READING \<and> s1 = read_slot env i s" by (simp add: s1_def)
    with 3 show thesis by (intro worked [of s1 s2]) (auto split: if_splits)
  qed (use kept dropped in blast)+
qed

text \<open>
  A property of the server state that every handler keeps.  The handlers are called with the
  table invariant and a slot in range, as the loop calls them.
\<close>

locale loop_invariant =
  fixes env :: loop_env and I :: "server \<Rightarrow> bool"
  assumes has_table: "I s \<Longrightarrow> table_ok (le_listeners env) (sv_table s)"
    and on_accept: "I s \<Longrightarrow> i < le_listeners env \<Longrightarrow> accept_slot env i s = Inr s' \<Longrightarrow> I s'"
    and on_read: "I s \<Longrightarrow> le_listeners env \<le> i \<Longrightarrow> i < t_count (sv_table s) \<Longrightarrow> state_at s i = READING \<Longrightarrow>
      I (read_slot env i s)"
    and on_write: "I s \<Longrightarrow> le_listeners env \<le> i \<Longrightarrow> i < t_count (sv_table s) \<Longrightarrow>
      state_at s i = SENDING_HEADER \<or> state_at s i = SENDING_BODY \<Longrightarrow> write_slot i s = Inr s' \<Longrightarrow> I s'"
    and on_close: "I s \<Longrightarrow> le_listeners env \<le> i \<Longrightarrow> i < t_count (sv_table s) \<Longrightarrow> I (close_slot i s)"
    and on_poll: "I s \<Longrightarrow> I (c_poll revs s)"
    and on_environment: "I s \<Longrightarrow> I (s\<lparr>sv_in := a, sv_accept := b, sv_send := c\<rparr>)"
begin

lemma read_count:
  assumes "I s" "le_listeners env \<le> i" "i < t_count (sv_table s)"
  shows "t_count (sv_table (read_slot env i s)) = t_count (sv_table s)"
  using has_table [OF assms(1)] assms(2,3) by (rule read_slot_table [where env = env]) simp

lemma write_count:
  assumes "I s" "le_listeners env \<le> i" "i < t_count (sv_table s)" "write_slot i s = Inr s'"
  shows "t_count (sv_table s') = t_count (sv_table s)"
  using has_table [OF assms(1)] assms(2-4) by (rule write_slot_table) simp

lemma close_count:
  assumes "I s" "le_listeners env \<le> i" "i < t_count (sv_table s)"
  shows "t_count (sv_table (close_slot i s)) = t_count (sv_table s) - 1"
proof -
  obtain t w where c: "close_conn i (sv_table s) (sv_world s) = (t, w)" by (cases "close_conn i (sv_table s) (sv_world s)")
  from close_conn_table(2) [OF has_table [OF assms(1)] assms(2,3) c] show ?thesis by (simp add: close_slot_def c)
qed

text \<open>One turn: the property is kept; a client slot is closed and the count drops, or it stays.\<close>

lemma slot_step_keeps:
  assumes "I s" "i < t_count (sv_table s)" "slot_step env i s = Inr (closed, s')"
  shows "I s' \<and> (if i < le_listeners env then \<not> closed
     else if closed then t_count (sv_table s') = t_count (sv_table s) - 1
     else t_count (sv_table s') = t_count (sv_table s))"
proof (cases "i < le_listeners env")
  case True
  with assms on_accept [OF assms(1) True] show ?thesis
    by (auto simp: slot_step_def split: if_splits sum.splits)
next
  case False
  then have i: "le_listeners env \<le> i" by simp
  with assms(3) show ?thesis
  proof (cases rule: slot_step_client)
    case dropped
    then show ?thesis using assms(1,2) i on_close close_count False by simp
  next
    case (worked s1 s2)
    have 1: "I s1" "t_count (sv_table s1) = t_count (sv_table s)"
      using assms(1,2) i on_read read_count worked(1) by auto
    have 2: "I s2" "t_count (sv_table s2) = t_count (sv_table s)"
      using on_write [OF 1(1) i] write_count [OF 1(1) i] 1 worked(2) assms(2) by auto
    then show ?thesis using on_close [of s2 i] close_count [of s2 i] i assms(2) False worked(4) by simp
  qed (use assms(1) False in simp)
qed

text \<open>The loop of the shutdown returns, with no connection left.\<close>

lemma close_all_returns:
  assumes "I s"
  shows "\<exists>s'. close_all (le_listeners env) s = Some s' \<and> I s' \<and> t_count (sv_table s') = le_listeners env"
  using assms
proof (induction "t_count (sv_table s)" arbitrary: s rule: less_induct)
  case less
  show ?case
  proof (cases "le_listeners env < t_count (sv_table s)")
    case True
    let ?s = "close_slot (le_listeners env) s"
    have "I ?s" "t_count (sv_table ?s) < t_count (sv_table s)"
      using on_close [OF less.prems order_refl True] close_count [OF less.prems order_refl True] True by simp_all
    with less.hyps [of ?s] True show ?thesis by (subst close_all.simps) simp
  next
    case False
    moreover have "le_listeners env \<le> t_count (sv_table s)" using has_table [OF less.prems] by (simp add: table_ok_def)
    ultimately show ?thesis using less.prems by (subst close_all.simps) simp
  qed
qed

end

text \<open>The second contract gives the first.\<close>

sublocale loop_invariant \<subseteq> turns: slot_invariant env I
  by unfold_locales (use slot_step_keeps on_poll on_environment in blast)+

section \<open>The state the loop starts from\<close>

lemma init_table_ok:
  assumes "ls \<noteq> []" "length ls \<le> INITIAL_SIZE"
  shows "table_ok (length ls) (init_table pfds clients ls)" "conns (length ls) (init_table pfds clients ls) = []"
  using assms by (auto simp: table_ok_def init_table_def conns_def nth_append listener_pfd_def)

lemma start_listeners_ok:
  assumes "start_listeners env so4 so6 cfg pfds clients w = Inr (l4, l6, t, w')" "config_ok env cfg"
  shows "\<exists>ls. t = init_table pfds clients ls \<and> ls = filter (\<lambda>d. d \<noteq> -1) [l4, l6] \<and> ls \<noteq> [] \<and>
     l4 = (if use_v4 cfg then so_socket so4 else -1) \<and> l6 = (if use_v6 cfg then so_socket so6 else -1) \<and>
     (l4 \<noteq> -1) = use_v4 cfg \<and> (l6 \<noteq> -1) = use_v6 cfg \<and>
     Collect (w_fds w') = Collect (w_fds w) \<union> set ls \<and> sockets_only w w' \<and>
     (use_v6 cfg \<longrightarrow> w_listen w' l6 = Some (bind_addr6 cfg, bound_port (port_addr cfg))) \<and>
     (use_v4 cfg \<longrightarrow> l4 \<noteq> l6 \<longrightarrow> w_listen w' l4 = Some (bind_addr4 cfg, bound_port (port_addr cfg)))"
proof -
  from assms(1) obtain w1 where
    a: "(if use_v4 cfg then get_listener_v4 env so4 cfg w else Inr (-1, w)) = Inr (l4, w1)" and
    b: "(if use_v6 cfg then get_listener_v6 env so6 cfg w1 else Inr (-1, w1)) = Inr (l6, w')" and
    c: "filter (\<lambda>d. d \<noteq> -1) [l4, l6] \<noteq> []" "t = init_table pfds clients (filter (\<lambda>d. d \<noteq> -1) [l4, l6])"
    unfolding start_listeners_def Let_def by (auto split: sum.splits if_splits)
  have s0: "sockets_only v v" for v by (simp add: sockets_only_def)
  have v4: "l4 = (if use_v4 cfg then so_socket so4 else -1) \<and> (l4 \<noteq> -1) = use_v4 cfg \<and> sockets_only w w1 \<and>
      Collect (w_fds w1) = Collect (w_fds w) \<union> (if use_v4 cfg then {l4} else {}) \<and>
      (use_v4 cfg \<longrightarrow> w_listen w1 l4 = Some (bind_addr4 cfg, bound_port (port_addr cfg)))"
    using a get_listener_v4_listens [OF _ assms(2), of so4 w l4 w1] get_listener_sockets_only(1) s0
    by (cases "use_v4 cfg") auto
  have v6: "l6 = (if use_v6 cfg then so_socket so6 else -1) \<and> (l6 \<noteq> -1) = use_v6 cfg \<and> sockets_only w1 w' \<and>
      Collect (w_fds w') = Collect (w_fds w1) \<union> (if use_v6 cfg then {l6} else {}) \<and>
      (use_v6 cfg \<longrightarrow> w_listen w' l6 = Some (bind_addr6 cfg, bound_port (port_addr cfg))) \<and>
      (\<forall>d. d \<noteq> l6 \<longrightarrow> w_listen w' d = w_listen w1 d)"
    using b get_listener_v6_listens [OF _ assms(2), of so6 w1 l6 w'] get_listener_sockets_only(2) s0
    by (cases "use_v6 cfg") auto
  have "sockets_only w w'" using v4 v6 sockets_only_trans by blast
  with v4 v6 c show ?thesis by (auto split: if_splits)
qed

text \<open>The world in which the listeners are made: what \<^verbatim>\<open>main\<close> did after the flags.\<close>

definition booted :: "startup \<Rightarrow> config \<Rightarrow> world \<Rightarrow> world" where
  "booted env cfg w =
     (let w1 = c_printf (greeting env)
            (c_magic_open (if flag_set (app_flags cfg) V_FLAG then w else c_daemon (st_daemon_ok env) w));
          n = w_next w
      in w1\<lparr>w_next := Suc (Suc n),
            w_blocks := (w_blocks w)
              (n \<mapsto> \<lparr>b_size = SIZEOF_POLLFD * INITIAL_SIZE, b_data = []\<rparr>,
               Suc n \<mapsto> \<lparr>b_size = SIZEOF_CLIENT * INITIAL_SIZE, b_data = []\<rparr>)\<rparr>)"

lemma start_prints_fields [world_simps]:
  "w_next (c_printf d w) = w_next w" "w_next (c_daemon b w) = w_next w" "w_next (c_magic_open w) = w_next w"
  "w_blocks (c_printf d w) = w_blocks w" "w_blocks (c_daemon b w) = w_blocks w" "w_blocks (c_magic_open w) = w_blocks w"
  "w_streams (c_printf d w) = w_streams w" "w_streams (c_daemon b w) = w_streams w" "w_streams (c_magic_open w) = w_streams w"
  "w_fds (c_printf d w) = w_fds w" "w_fds (c_daemon b w) = w_fds w" "w_fds (c_magic_open w) = w_fds w"
  "w_faults (c_printf d w) = w_faults w" "w_faults (c_daemon b w) = w_faults w" "w_faults (c_magic_open w) = w_faults w"
  by (simp_all add: c_printf_def c_daemon_def c_magic_open_def)

lemma booted_fields:
  "w_next (booted env cfg w) = Suc (Suc (w_next w))" "w_streams (booted env cfg w) = w_streams w"
  "w_fds (booted env cfg w) = w_fds w" "w_faults (booted env cfg w) = w_faults w"
  "w_blocks (booted env cfg w) = (w_blocks w)
     (w_next w \<mapsto> \<lparr>b_size = SIZEOF_POLLFD * INITIAL_SIZE, b_data = []\<rparr>,
      Suc (w_next w) \<mapsto> \<lparr>b_size = SIZEOF_CLIENT * INITIAL_SIZE, b_data = []\<rparr>)"
  by (simp_all add: booted_def Let_def world_simps)

lemma booted_ok: "world_ok w \<Longrightarrow> world_ok (booted env cfg w)"
  by (simp add: world_ok_def booted_fields)

lemma main_init_booted:
  assumes "setFlags env argv init_config w = Inr (0, cfg, w1)" "setup_signal_handler env w = Inr w"
    and "st_magic_ok env" "os_alloc sys (w_next w1)" "os_alloc sys (Suc (w_next w1))"
  shows "main_init env sys so4 so6 argv w =
     (case start_listeners env so4 so6 cfg (w_next w1) (Suc (w_next w1)) (booted env cfg w1) of
        Inl e \<Rightarrow> Inl e
      | Inr (l4, l6, t, w2) \<Rightarrow>
          Inr (cfg, \<lparr>le_sys = sys, le_flags = app_flags cfg, le_log = log_ptr_of cfg, le_listeners = t_count t\<rparr>, l4, l6, t, w2))"
  unfolding main_init_def assms(1,2) sum.case prod.case booted_def Let_def
  using assms(3-5) by (cases "flag_set (app_flags cfg) V_FLAG") (simp_all add: Let_def c_malloc_def world_simps)

lemma main_init_stages:
  assumes "main_init env sys so4 so6 argv w = Inr (cfg, lenv, l4, l6, t, w')"
  obtains w1 where "setFlags env argv init_config w = Inr (0, cfg, w1)"
    "start_listeners env so4 so6 cfg (w_next w1) (Suc (w_next w1)) (booted env cfg w1) = Inr (l4, l6, t, w')"
    "lenv = \<lparr>le_sys = sys, le_flags = app_flags cfg, le_log = log_ptr_of cfg, le_listeners = t_count t\<rparr>"
proof -
  from assms obtain w0 rc w1 where s: "setup_signal_handler env w = Inr w0" "setFlags env argv init_config w0 = Inr (rc, cfg, w1)"
    unfolding main_init_def by (auto simp: Let_def split: sum.splits if_splits prod.splits)
  have w0: "w0 = w" using s(1) by (auto simp: setup_signal_handler_def split: if_splits)
  have rc: "rc = 0" using s(2) by (auto simp: setFlags_def split: if_splits sum.splits)
  have boot: "st_magic_ok env" "os_alloc sys (w_next w1)" "os_alloc sys (Suc (w_next w1))"
    using assms unfolding main_init_def s(1) sum.case s(2) prod.case
    by (auto simp: Let_def c_malloc_def rc world_simps split: if_splits)
  from assms have "start_listeners env so4 so6 cfg (w_next w1) (Suc (w_next w1)) (booted env cfg w1) = Inr (l4, l6, t, w')"
    "lenv = \<lparr>le_sys = sys, le_flags = app_flags cfg, le_log = log_ptr_of cfg, le_listeners = t_count t\<rparr>"
    unfolding main_init_booted [OF s(2) [unfolded w0 rc] s(1) [unfolded w0] boot] by (auto split: sum.splits)
  with s(2) show thesis unfolding w0 rc by (rule that)
qed

text \<open>The two arrays a table stands on: block and size.\<close>

definition arrays :: "table \<Rightarrow> (nat \<times> nat) list" where
  "arrays t = [(t_pfds_at t, SIZEOF_POLLFD * t_size t), (t_clients_at t, SIZEOF_CLIENT * t_size t)]"

lemma main_init_ok:
  assumes "main_init env sys so4 so6 argv w = Inr (cfg, lenv, l4, l6, t, w')" "world_ok w"
  shows "config_ok env cfg \<and> lenv = \<lparr>le_sys = sys, le_flags = app_flags cfg, le_log = log_ptr_of cfg, le_listeners = t_count t\<rparr> \<and>
     table_ok (t_count t) t \<and> conns (t_count t) t = [] \<and>
     Collect (w_fds w') = Collect (w_fds w) \<union> ({l4, l6} - {-1}) \<and> world_ok w' \<and> w_faults w' = w_faults w"
    and "\<exists>w1. log_owned w cfg w1 \<and> w_streams w' = w_streams w1 \<and> w_blocks w' = w_blocks (booted env cfg (w1\<lparr>w_blocks := w_blocks w\<rparr>)) \<and>
      arrays t = [(w_next w1, SIZEOF_POLLFD * INITIAL_SIZE), (Suc (w_next w1), SIZEOF_CLIENT * INITIAL_SIZE)]"
proof -
  from assms(1) obtain w1 where i: "setFlags env argv init_config w = Inr (0, cfg, w1)"
    "start_listeners env so4 so6 cfg (w_next w1) (Suc (w_next w1)) (booted env cfg w1) = Inr (l4, l6, t, w')"
    "lenv = \<lparr>le_sys = sys, le_flags = app_flags cfg, le_log = log_ptr_of cfg, le_listeners = t_count t\<rparr>"
    by (rule main_init_stages)
  note f = setFlags_invariant [OF i(1) assms(2)] and g = log_onlyD [OF setFlags_log_only [OF i(1)]]
  have "config_ok env cfg" using f by simp
  from start_listeners_ok [OF i(2) this] obtain ls where ls: "t = init_table (w_next w1) (Suc (w_next w1)) ls"
    "ls = filter (\<lambda>d. d \<noteq> -1) [l4, l6]" "ls \<noteq> []"
    "Collect (w_fds w') = Collect (w_fds (booted env cfg w1)) \<union> set ls" "sockets_only (booted env cfg w1) w'" by auto
  have "world_ok (booted env cfg w1)" using f by (intro booted_ok) (simp add: log_owned_def)
  then have w': "world_ok w'" "w_faults w' = w_faults w"
    using sockets_onlyD [OF ls(5)] f by (simp_all add: log_owned_def booted_fields)
  have "length ls \<le> INITIAL_SIZE" using ls(2) by (simp add: INITIAL_SIZE_def)
  from init_table_ok [OF ls(3) this] ls(1,2,4) f w' i(3) g(1)
  show "config_ok env cfg \<and> lenv = \<lparr>le_sys = sys, le_flags = app_flags cfg, le_log = log_ptr_of cfg, le_listeners = t_count t\<rparr> \<and>
     table_ok (t_count t) t \<and> conns (t_count t) t = [] \<and>
     Collect (w_fds w') = Collect (w_fds w) \<union> ({l4, l6} - {-1}) \<and> world_ok w' \<and> w_faults w' = w_faults w"
    by (auto simp: init_table_def booted_fields)
  show "\<exists>w1. log_owned w cfg w1 \<and> w_streams w' = w_streams w1 \<and> w_blocks w' = w_blocks (booted env cfg (w1\<lparr>w_blocks := w_blocks w\<rparr>)) \<and>
      arrays t = [(w_next w1, SIZEOF_POLLFD * INITIAL_SIZE), (Suc (w_next w1), SIZEOF_CLIENT * INITIAL_SIZE)]"
    using f g(2) sockets_onlyD [OF ls(5)] by (intro exI [of _ w1]) (simp add: booted_fields arrays_def ls(1) init_table_def)
qed

text \<open>
  Without \<^verbatim>\<open>-v\<close> the server detaches from its terminal before it greets, so the greeting is seen only
  with \<^verbatim>\<open>-v\<close>, or when the detachment, whose result is not looked at, has failed.
\<close>

lemma main_init_output:
  assumes "main_init env sys so4 so6 argv w = Inr (cfg, lenv, l4, l6, t, w')" "world_ok w" "w_stdout_open w" "\<not> w_detached w"
  shows "w_detached w' \<longleftrightarrow> \<not> flag_set (app_flags cfg) V_FLAG \<and> st_daemon_ok env"
    "w_stdout w' = w_stdout w @ (if w_detached w' then [] else greeting env)"
proof -
  from assms(1) obtain w1 where i: "setFlags env argv init_config w = Inr (0, cfg, w1)"
    "start_listeners env so4 so6 cfg (w_next w1) (Suc (w_next w1)) (booted env cfg w1) = Inr (l4, l6, t, w')"
    by (rule main_init_stages)
  have "config_ok env cfg" using setFlags_invariant [OF i(1) assms(2)] by simp
  from start_listeners_ok [OF i(2) this] have "sockets_only (booted env cfg w1) w'" by blast
  note s = sockets_onlyD(6,7) [OF this] and g = log_onlyD(3-5) [OF setFlags_log_only [OF i(1)]]
  show d: "w_detached w' \<longleftrightarrow> \<not> flag_set (app_flags cfg) V_FLAG \<and> st_daemon_ok env"
    unfolding s using g assms(4) by (auto simp: booted_def Let_def c_printf_def c_magic_open_def c_daemon_def)
  show "w_stdout w' = w_stdout w @ (if w_detached w' then [] else greeting env)"
    unfolding d unfolding s using g assms(3,4) by (auto simp: booted_def Let_def c_printf_def c_magic_open_def c_daemon_def)
qed

section \<open>Properties\<close>


definition sample_sockets :: "int \<Rightarrow> sock_env" where
  "sample_sockets d =
     \<lparr>so_socket = d, so_getfl = 0, so_setfl = 0, so_bind = (\<lambda>_ _. True), so_getsockname_ok = True, so_listen_ok = True\<rparr>"

definition sample_listening :: "16 word \<Rightarrow> world" where
  "sample_listening port =
     c_listen 4 None port (c_socket 4 (c_listen 3 None port (c_socket 3
       (booted sample_startup init_config empty_world))))"

definition sample_loop_env :: loop_env where
  "sample_loop_env = \<lparr>le_sys = sample_os, le_flags = 0, le_log = None, le_listeners = 2\<rparr>"

lemma sample_listens:
  assumes "app_flags cfg = 0" "bound_port (port_addr cfg) = port"
  shows "start_listeners sample_startup (sample_sockets 3) (sample_sockets 4) cfg 0 (Suc 0) (booted sample_startup init_config empty_world) =
     Inr (3, 4, init_table 0 1 [3, 4], sample_listening port)"
  by (simp add: start_listeners_def get_listener_v4_def get_listener_v6_def use_v4_def use_v6_def assms
      sample_sockets_def sample_listening_def Let_def)

lemma sample_boots:
  assumes "setFlags sample_startup argv init_config empty_world = Inr (0, cfg, empty_world)"
  shows "main_init sample_startup sample_os so4 so6 argv empty_world =
     (case start_listeners sample_startup so4 so6 cfg 0 (Suc 0) (booted sample_startup cfg empty_world) of
        Inl e \<Rightarrow> Inl e
      | Inr (l4, l6, t, w2) \<Rightarrow>
          Inr (cfg, \<lparr>le_sys = sample_os, le_flags = app_flags cfg, le_log = log_ptr_of cfg, le_listeners = t_count t\<rparr>, l4, l6, t, w2))"
proof -
  have "setup_signal_handler sample_startup empty_world = Inr empty_world" "st_magic_ok sample_startup" "w_next empty_world = 0"
    by (simp_all add: setup_signal_handler_def sample_startup_def empty_world_def)
  with main_init_booted [OF assms, of sample_os so4 so6] show ?thesis by simp
qed

lemma booted_port: "booted env (cfg\<lparr>port_addr := p\<rparr>) w = booted env cfg w"
  by (simp add: booted_def Let_def)

lemma sample_main_init:
  "main_init sample_startup sample_os (sample_sockets 3) (sample_sockets 4) [''sws''] empty_world =
     Inr (init_config, sample_loop_env, 3, 4, init_table 0 1 [3, 4], sample_listening 8080)"
proof -
  have "setFlags sample_startup [''sws''] init_config empty_world = Inr (0, init_config, empty_world)" by (simp add: setFlags_def)
  moreover have "app_flags init_config = 0" "bound_port (port_addr init_config) = 8080" "log_ptr_of init_config = None"
    by (simp_all add: init_config_def bound_port_def log_ptr_of_def)
  ultimately show ?thesis by (simp add: sample_boots sample_listens sample_loop_env_def init_table_def)
qed

lemma sample_world_ok: "world_ok empty_world"
  by (simp add: world_ok_def empty_world_def)


text \<open>
  C34: the port is cut to 16 bits.  With \<^verbatim>\<open>-p n\<close> as the last option, every listener is bound to
  \<open>n mod 65536\<close>: the check for low ports looks at \<open>n\<close>, so that 65616, given by a user who is not
  root, binds port 80.
\<close>

theorem port_truncated:
  assumes "main_init env sys so4 so6 (prog # concat (map opt_args (opts @ [Opt_p n]))) w = Inr (cfg, lenv, l4, l6, t, w')"
    and "\<forall>x \<in> set (opts @ [Opt_p n]). opt_ok env x" "world_ok w" "so_socket so4 \<noteq> so_socket so6"
  shows "\<forall>d \<in> {l4, l6} - {-1}. \<exists>a port. w_listen w' d = Some (a, port) \<and> unat port = n mod 2 ^ 16"
proof -
  from assms(1) obtain w1 where i: "setFlags env (prog # concat (map opt_args (opts @ [Opt_p n]))) init_config w = Inr (0, cfg, w1)"
    "start_listeners env so4 so6 cfg (w_next w1) (Suc (w_next w1)) (booted env cfg w1) = Inr (l4, l6, t, w')"
    by (rule main_init_stages)
  have c: "config_ok env cfg" using setFlags_invariant [OF i(1) assms(3)] by simp
  have "settings_of cfg = fold opt_effect (opts @ [Opt_p n]) default_settings"
    using setFlags_options [OF assms(2), of prog w] i(1) by auto
  then have "set_port (settings_of cfg) = n" by simp
  then have "unat (port_addr cfg) = n" by (simp add: settings_of_def)
  with start_listeners_ok [OF i(2) c] assms(4) show ?thesis
    by (cases "use_v4 cfg"; cases "use_v6 cfg") (auto simp: unat_bound_port)
qed

lemma sample_main_init_port:
  "main_init sample_startup sample_os (sample_sockets 3) (sample_sockets 4)
       (''sws'' # concat (map opt_args ([] @ [Opt_p 65616]))) empty_world =
     Inr (init_config\<lparr>port_addr := 65616\<rparr>, sample_loop_env, 3, 4, init_table 0 1 [3, 4], sample_listening 80)"
proof -
  have "flag_p sample_startup [show_nat 65616] init_config empty_world =
      Inr (1, init_config\<lparr>port_addr := 65616\<rparr>, empty_world)"
    using flag_p_reads [of 65616 sample_startup "[]" init_config empty_world] by simp
  then have "setFlags sample_startup [''sws'', ''-p'', show_nat 65616] init_config empty_world =
      Inr (0, init_config\<lparr>port_addr := 65616\<rparr>, empty_world)"
    by (simp add: setFlags_def flag_step_def)
  moreover have "app_flags init_config = 0" "bound_port 65616 = 80" "log_ptr_of (init_config\<lparr>port_addr := 65616\<rparr>) = None"
    by (simp_all add: init_config_def bound_port_def log_ptr_of_def)
  ultimately show ?thesis by (simp add: sample_boots booted_port sample_listens sample_loop_env_def init_table_def)
qed

theorem port_truncated_witness:
  "st_euid sample_startup \<noteq> 0 \<and>
   main_init sample_startup sample_os (sample_sockets 3) (sample_sockets 4)
       (''sws'' # concat (map opt_args ([] @ [Opt_p 65616]))) empty_world =
     Inr (init_config\<lparr>port_addr := 65616\<rparr>, sample_loop_env, 3, 4, init_table 0 1 [3, 4], sample_listening 80) \<and>
   (\<exists>a port. w_listen (sample_listening 80) 3 = Some (a, port) \<and> unat port = 80)"
proof -
  have ne: "so_socket (sample_sockets 3) \<noteq> so_socket (sample_sockets 4)" by (simp add: sample_sockets_def)
  have ok: "\<forall>x \<in> set ([] @ [Opt_p 65616]). opt_ok sample_startup x" by simp
  have m: "65616 mod 2 ^ 16 = (80 :: nat)" by simp
  have l: "\<exists>a port. w_listen (sample_listening 80) 3 = Some (a, port) \<and> unat port = 80"
    by (rule bspec [OF port_truncated [OF sample_main_init_port ok sample_world_ok ne, unfolded m]]) simp
  have "st_euid sample_startup \<noteq> 0" by (simp add: sample_startup_def)
  then show ?thesis by (intro conjI sample_main_init_port l)
qed

end
