(* ===== verification/Lifecycle.thy ===== *)
theory Lifecycle
  imports Event_Loop
begin

text \<open>
  The lifecycle of a connection, as an invariant of the poll loop: \<^verbatim>\<open>READING\<close> with no response
  staged and waiting for input, \<^verbatim>\<open>SENDING_HEADER\<close> waiting for output with nothing sent yet,
  \<^verbatim>\<open>PROCESSING\<close> only after an oversized request, \<^verbatim>\<open>CLOSING\<close> never between rounds.  Nothing is assumed of
  the operating system here.
\<close>

section \<open>Fields the handlers leave alone\<close>

lemma handle_dir_index_frame:
  "handle_dir_index h c rp w = (rc, c', rp', w') \<Longrightarrow> conn_part c' = conn_part (c\<lparr>file_ptr := file_ptr c'\<rparr>)"
  by (auto simp: handle_dir_index_def conn_part_def Let_def split: option.splits)

lemma resolve_dir_frame:
  assumes "resolve_dir sys lp d st c rp w = (rc, c', rp', w')"
  shows "conn_part c' = conn_part (c\<lparr>file_ptr := file_ptr c'\<rparr>)"
  using assms
  by (auto simp: resolve_dir_def split: prod.splits sum.splits dest: handle_dir_index_frame)

lemma resolve_path_frame:
  assumes "resolve_path sys fl c req rp w = (rc, c', rp', w')"
  shows "conn_part c' = conn_part (c\<lparr>file_ptr := file_ptr c'\<rparr>)"
proof -
  have "conn_part c' = conn_part (c\<lparr>file_ptr := file_ptr c'\<rparr>)"
    if "resolve_open sys fl lp h st c rp1 w1 = (rc, c', rp', w')" for lp h st rp1 w1
    using that by (auto simp: resolve_open_def Let_def split: if_splits dest: resolve_dir_frame)
      (simp_all add: conn_part_def)
  with assms show ?thesis
    unfolding resolve_path_eq
    by (auto split: prod.splits sum.splits option.splits simp: conn_part_def)
qed

lemma build_by_type_frame:
  "build_by_type sys fl c rp req w = (rc, c', w') \<Longrightarrow> conn_part c' = conn_part c"
  by (auto simp: build_by_type_def split: if_splits
      dest: build_response_cgi_frame build_response_dir_frame build_response_file_frame)

lemma error_reply_frame: "error_reply sys c req w = (c', w') \<Longrightarrow> conn_part c' = conn_part c"
  by (auto simp: error_reply_def build_error_response_def split: prod.splits dest: write_error_response_frame)

lemma build_okay_frame:
  assumes "build_okay_response sys fl c rp req w = (rc, c', w')"
  shows "conn_part c' = conn_part c"
proof -
  obtain st c1 w1 where b: "build_by_type sys fl (c\<lparr>resp_val := RESP_200\<rparr>) rp req w = (st, c1, w1)"
    by (cases "build_by_type sys fl (c\<lparr>resp_val := RESP_200\<rparr>) rp req w")
  have f: "conn_part c1 = conn_part c" using build_by_type_frame [OF b] by simp
  show ?thesis
  proof (cases "st < 0")
    case True
    define c2 where "c2 = c1\<lparr>resp_val := (if resp_val c1 = RESP_200 then RESP_500 else resp_val c1),
                        output_length := 0, header_len := 0, body_len := 0, file_size := 0\<rparr>"
    have "conn_part c2 = conn_part c1" by (simp add: c2_def conn_part_def)
    moreover obtain rc3 c3 w3 where e: "write_error_response sys c2 req (c_free (out_buf c1) w1) = (rc3, c3, w3)"
      by (cases "write_error_response sys c2 req (c_free (out_buf c1) w1)")
    moreover have "c' = c3"
      using assms b True e unfolding build_okay_response_def
      by (simp add: build_error_response_def Let_def flip: c2_def)
    ultimately show ?thesis using write_error_response_frame [OF e] f by simp
  next
    case False
    with assms b f show ?thesis by (simp add: build_okay_response_def)
  qed
qed

lemma serve_request_frame:
  assumes "serve_request sys fl c le w = (c', rp, le', w')"
  shows "conn_part c' = conn_part (c\<lparr>file_ptr := file_ptr c'\<rparr>)"
proof -
  obtain rc req resp le1 w1 where p:
    "parse_request sys fl (Some (block_data w (in_buf c))) (header_len c) zero_Request (resp_val c) le w =
      (rc, req, resp, le1, w1)" using prod_cases5 by blast
  obtain rc2 c2 rp2 w2 where r: "resolve_path sys fl (c\<lparr>resp_val := resp\<rparr>) req zero_ResolvedPath w1 = (rc2, c2, rp2, w2)"
    using prod_cases4 by blast
  have k: "conn_part c2 = conn_part (c\<lparr>resp_val := resp, file_ptr := file_ptr c2\<rparr>)"
    using resolve_path_frame [OF r] by simp
  consider "rc \<noteq> 0" | "rc = 0" "rc2 \<noteq> 0" | "rc = 0" "rc2 = 0" by blast
  then show ?thesis
  proof cases
    case 1
    obtain c3 w3 where e: "error_reply sys (c\<lparr>resp_val := resp\<rparr>) req w1 = (c3, w3)"
      by (cases "error_reply sys (c\<lparr>resp_val := resp\<rparr>) req w1")
    have "c' = c3" using serve_request_bad [OF p 1 e] assms by simp
    then show ?thesis using error_reply_frame [OF e] by (simp add: conn_part_def)
  next
    case 2
    obtain c3 w3 where e: "error_reply sys c2 req w2 = (c3, w3)" by (cases "error_reply sys c2 req w2")
    have "c' = c3" using serve_request_refused [OF p [unfolded 2(1)] r 2(2) e] assms by simp
    then show ?thesis using conn_part_via [OF error_reply_frame [OF e] k] by simp
  next
    case 3
    obtain rc3 c3 w3 where e: "build_okay_response sys fl c2 rp2 req w2 = (rc3, c3, w3)"
      by (cases "build_okay_response sys fl c2 rp2 req w2")
    have "c' = c3" using serve_request_built [OF p [unfolded 3(1)] r [unfolded 3(2)] e] assms by simp
    then show ?thesis using conn_part_via [OF build_okay_frame [OF e] k] by simp
  qed
qed

section \<open>The handlers on one connection\<close>

definition life :: "pollfd \<times> Client \<Rightarrow> bool" where
  "life x \<longleftrightarrow>
     (case x of (p, c) \<Rightarrow>
        length (client_addr c) < INET6_ADDRSTRLEN \<and>
        (case state c of
           READING \<Rightarrow> pfd_events p = POLLIN \<and> out_buf c = None \<and> output_sent c = 0 \<and> file_ptr c = None
         | PROCESSING \<Rightarrow> pfd_events p = POLLIN \<and> out_buf c = None \<and> resp_val c = RESP_414
         | SENDING_HEADER \<Rightarrow> pfd_events p = POLLOUT \<and> output_sent c = 0
         | CLOSING \<Rightarrow> True
         | _ \<Rightarrow> False))"

lemma copy_in_fields:
  assumes "copy_in c d w = (c', w')"
  shows "rest_part c' = rest_part c \<and> state c' = state c \<and> resp_val c' = resp_val c"
  using assms by (auto simp: copy_in_def split: option.splits)

lemma append_data_fields:
  assumes "append_data sys c d w = (c', w')" "state c = READING"
  shows "rest_part c' = rest_part c \<and>
    (state c' = READING \<or> state c' = CLOSING \<or> state c' = PROCESSING \<and> resp_val c' = RESP_414)"
  using assms by (auto simp: append_data_def Let_def split: if_splits option.splits prod.splits dest!: copy_in_fields)

lemma recv_loop_fields:
  assumes "recv_loop sys c es w = (g, c', es', w')" "state c = READING"
  shows "rest_part c' = rest_part c \<and>
    (if g then state c' = READING \<or> state c' = CLOSING
     else state c' = CLOSING \<or> state c' = PROCESSING \<and> resp_val c' = RESP_414)"
  using assms
proof (induction "io_weight es" arbitrary: c es w rule: less_induct)
  case less
  show ?case
  proof (cases rule: recv_loop_turn [of sys c es w])
    case (interrupted es1)
    with less show ?thesis by metis
  next
    case (arrived d es1 c1 w1)
    note f = append_data_fields [OF arrived(2) less.prems(2)]
    show ?thesis
    proof (cases "state c1 = READING")
      case True
      with arrived(6) less.prems(1) have "recv_loop sys c1 es1 w1 = (g, c', es', w')" by simp
      from less.hyps [OF arrived(5) this True] f show ?thesis by simp
    next
      case False
      with arrived(6) less.prems(1) f show ?thesis by auto
    qed
  qed (use less.prems in auto)
qed

lemma handle_request_fields:
  assumes "handle_request sys fl log c p w = (c', p', w')"
  shows "(c', p', w') = (c, p, w) \<or>
    state c' = SENDING_HEADER \<and> p' = p\<lparr>pfd_events := POLLOUT\<rparr> \<and> fd c' = fd c \<and>
    output_sent c' = output_sent c \<and> client_addr c' = client_addr c \<and>
    in_buf c' = in_buf c \<and> input_length c' = input_length c \<and> input_capacity c' = input_capacity c"
proof (cases "strnstr (block_data w (in_buf c)) (CRLF @ CRLF) (input_length c)")
  case None
  have "handle_request sys fl log c p w = (c, p, w)"
    unfolding handle_request_def None by simp
  with assms show ?thesis by simp
next
  case k: (Some k)
  show ?thesis
  proof (cases "in_buf c = None \<or> input_length c = 0")
    case True
    have "handle_request sys fl log c p w = (c, p, w)"
      unfolding handle_request_def if_P [OF True] by (rule refl)
    with assms show ?thesis by simp
  next
    case False
  let ?c = "c\<lparr>header_len := k + 4\<rparr>"
  obtain le w1 where l: "start_log fl ?c w = (le, w1)" by (cases "start_log fl ?c w")
  obtain c2 rp le2 w2 where s: "serve_request sys fl ?c le w1 = (c2, rp, le2, w2)" using prod_cases4 by blast
  obtain rp1 w4 where x: "close_resolve_path_ptr rp (log_reply fl log c2 le2 w2) = (rp1, w4)"
    by (cases "close_resolve_path_ptr rp (log_reply fl log c2 le2 w2)")
  have "(c', p', w') = (c2\<lparr>state := SENDING_HEADER\<rparr>, p\<lparr>pfd_events := POLLOUT\<rparr>, w4)"
    using assms l s x unfolding handle_request_def if_not_P [OF False] unfolding k by simp
  then show ?thesis using serve_request_frame [OF s] by (simp add: conn_part_def)
  qed
qed

lemma read_conn_life:
  assumes "read_conn sys fl log c p es w = (c', p', es', w')" "life (p, c)" "state c = READING" "pfd_fd p = fd c"
  shows "life (p', c')" "pfd_fd p' = fd c'" "fd c' = fd c"
proof -
  obtain g c1 es1 w1 where r: "recv_loop sys c es w = (g, c1, es1, w1)" using prod_cases4 by blast
  note f = recv_loop_fields [OF r assms(3)]
  have l: "length (client_addr c) < INET6_ADDRSTRLEN" "pfd_events p = POLLIN" "out_buf c = None"
    "output_sent c = 0" "file_ptr c = None" using assms(2,3) by (simp_all add: life_def)
  have c1: "fd c1 = fd c" "client_addr c1 = client_addr c" "out_buf c1 = None" "output_sent c1 = 0" "file_ptr c1 = None"
    using f l by (simp_all add: rest_part_def)
  have "life (p', c') \<and> pfd_fd p' = fd c' \<and> fd c' = fd c"
  proof (cases g)
    case True
    obtain c2 p2 w2 where h: "handle_request sys fl log c1 p w1 = (c2, p2, w2)" by (cases "handle_request sys fl log c1 p w1")
    have e: "c' = c2" "p' = p2" using assms(1) r True h by (simp_all add: read_conn_def)
    from handle_request_fields [OF h] show ?thesis
      using e f True c1 l assms(4) by (auto simp: life_def)
  next
    case False
    with assms(1) r have "c' = c1" "p' = p" by (simp_all add: read_conn_def)
    with f False c1 l assms(4) show ?thesis by (auto simp: life_def)
  qed
  then show "life (p', c')" "pfd_fd p' = fd c'" "fd c' = fd c" by auto
qed

lemma write_conn_life:
  assumes "write_conn c script w = Inr (c', script', w')" "length (client_addr c) < INET6_ADDRSTRLEN"
  shows "life (p, c') \<and> state c' = CLOSING \<and> fd c' = fd c"
proof (cases "out_buf c = None \<or> output_length c = 0")
  case True
  with assms show ?thesis by (auto simp: write_conn_def life_def split: option.splits)
next
  case False
  then obtain q where q: "out_buf c = Some q" "output_length c \<noteq> 0" by auto
  let ?w = "fault_if (length (block_data w (Some q)) < output_length c) (HeapOverrun q) w"
  from assms(1) q obtain c1 w1 where s: "send_loop c script ?w = Inr (c1, script', w1)" "c' = c1\<lparr>state := CLOSING\<rparr>"
    by (auto simp: write_conn_def split: sum.splits)
  from send_loop_result [where c = c and script = script and w = ?w] s(1)
  have "c1 = c\<lparr>output_sent := max (output_sent c) (output_length c)\<rparr>" by simp
  with s(2) assms(2) show ?thesis by (simp add: life_def)
qed

lemma fresh_life: "fresh_client c \<Longrightarrow> life (\<lparr>pfd_fd = fd c, pfd_events = POLLIN, pfd_revents = 0\<rparr>, c)"
  by (simp add: fresh_client_def life_def)

section \<open>The invariant of the loop\<close>

definition life_inv :: "nat \<Rightarrow> server \<Rightarrow> bool" where
  "life_inv nl s \<longleftrightarrow> table_ok nl (sv_table s) \<and> (\<forall>x \<in> set (conns nl (sv_table s)). life x)"

lemma set_list_update: "\<forall>x \<in> set xs. P x \<Longrightarrow> P y \<Longrightarrow> \<forall>x \<in> set (xs[i := y]). P x"
  using set_update_subset_insert [of xs i y] by blast

lemma life_inv_accept:
  assumes "life_inv nl s" "accept_slot env i s = Inr s'"
  shows "life_inv nl s'"
proof -
  from assms(2) obtain d es t w where
    a: "accept_new_conn (le_sys env) (sv_accept s d) (sv_table s) (sv_world s) = Inr (es, t, w)" and t: "sv_table s' = t"
    by (auto simp: accept_slot_def Let_def split: sum.splits)
  have ok: "table_ok nl (sv_table s)" using assms(1) by (simp add: life_inv_def)
  from accept_new_conn_adds [OF a ok] obtain new where n: "table_ok nl t" "conns nl t = conns nl (sv_table s) @ new"
    "\<forall>(p, c) \<in> set new. fresh_client c \<and> p = \<lparr>pfd_fd = fd c, pfd_events = POLLIN, pfd_revents = 0\<rparr>" by blast
  then have "\<forall>x \<in> set new. life x" using fresh_life by (auto split: prod.splits)
  with n assms(1) show ?thesis by (auto simp: life_inv_def t)
qed

lemma life_inv_read:
  assumes "life_inv nl s" "nl \<le> i" "i < t_count (sv_table s)" "state_at s i = READING"
  shows "life_inv nl (read_slot env i s)"
proof -
  have ok: "table_ok nl (sv_table s)" using assms(1) by (simp add: life_inv_def)
  from ok assms(2,3) show ?thesis
  proof (rule read_slot_table [where env = env])
    fix p c p' c' es w
    assume pc: "t_pfds (sv_table s) ! i = Some p" "t_clients (sv_table s) ! i = Some c"
      and r: "read_conn (le_sys env) (le_flags env) (le_log env) c p (sv_in s (fd c)) (sv_world s) = (c', p', es, w)"
      and s': "read_slot env i s = s\<lparr>sv_table := (sv_table s)\<lparr>t_clients := (t_clients (sv_table s))[i := Some c'],
        t_pfds := (t_pfds (sv_table s))[i := Some p']\<rparr>, sv_world := w, sv_in := (sv_in s)(fd c := es)\<rparr>"
    note m = slot_pair [OF ok assms(2,3) pc]
    have "life (p, c)" "state c = READING" using m(1) assms(1,4) pc by (auto simp: life_inv_def state_at_def)
    note l = read_conn_life [OF r this m(3)]
    have "\<forall>x \<in> set (conns nl (sv_table s)). life x" using assms(1) by (simp add: life_inv_def)
    note u = set_list_update [OF this l(1), of "i - nl"]
    show ?thesis
      unfolding s' life_inv_def using set_slot_ok [OF ok assms(2,3) l(2)] u by simp
  qed
qed

lemma life_inv_write:
  assumes "life_inv nl s" "nl \<le> i" "i < t_count (sv_table s)" "write_slot i s = Inr s'"
  shows "life_inv nl s' \<and> state_at s' i = CLOSING"
proof -
  have ok: "table_ok nl (sv_table s)" using assms(1) by (simp add: life_inv_def)
  from ok assms(2-4) show ?thesis
  proof (rule write_slot_table)
    fix c c' script w
    assume c: "t_clients (sv_table s) ! i = Some c" and r: "write_conn c (sv_send s (fd c)) (sv_world s) = Inr (c', script, w)"
      and s': "s' = s\<lparr>sv_table := (sv_table s)\<lparr>t_clients := (t_clients (sv_table s))[i := Some c']\<rparr>, sv_world := w,
            sv_send := (sv_send s)(fd c := script)\<rparr>"
    have "slot_ok (sv_table s) i" using ok assms(2,3) by (simp add: table_ok_def)
    then obtain p where p: "t_pfds (sv_table s) ! i = Some p" by (rule slot_okE)
    note m = slot_pair [OF ok assms(2,3) p c]
    have "length (client_addr c) < INET6_ADDRSTRLEN" using m(1) assms(1) by (auto simp: life_inv_def life_def)
    note l = write_conn_life [OF r this, of p]
    have same: "(t_pfds (sv_table s))[i := Some p] = t_pfds (sv_table s)" using p by (metis list_update_id)
    have "pfd_fd p = fd c'" using l m(3) by simp
    note q = set_slot_ok [OF ok assms(2,3) this, unfolded same]
    have "\<forall>x \<in> set (conns nl (sv_table s)). life x" using assms(1) by (simp add: life_inv_def)
    note u = set_list_update [OF this, of "(p, c')" "i - nl"]
    have "i < length (t_clients (sv_table s))" using ok assms(3) by (simp add: table_ok_def)
    then have "state_at s' i = CLOSING" using l by (simp add: s' state_at_def)
    then show ?thesis unfolding s' life_inv_def using q u l by simp
  qed
qed

lemma life_inv_close:
  assumes "life_inv nl s" "nl \<le> i" "i < t_count (sv_table s)"
  shows "life_inv nl (close_slot i s)"
proof -
  have ok: "table_ok nl (sv_table s)" using assms(1) by (simp add: life_inv_def)
  obtain t w where c: "close_conn i (sv_table s) (sv_world s) = (t, w)" by (cases "close_conn i (sv_table s) (sv_world s)")
  have "set (conns nl t) \<subseteq> set (conns nl (sv_table s))"
    using mset_conns_close [OF ok assms(2,3), of "sv_world s"] c
    by (metis fst_conv set_mset_add_mset_insert set_mset_mset subset_insertI)
  with close_conn_table(1) [OF ok assms(2,3) c] assms(1) show ?thesis by (auto simp: life_inv_def close_slot_def c)
qed

lemma life_revents [simp]: "life (p\<lparr>pfd_revents := r\<rparr>, c) = life (p, c)"
  by (cases "state c") (simp_all add: life_def)

lemma life_inv_poll:
  assumes "life_inv nl s"
  shows "life_inv nl (c_poll revs s)"
proof -
  have ok: "table_ok nl (sv_table s)" using assms by (simp add: life_inv_def)
  note c = c_poll_conns [OF ok, of revs]
  have "life ((fst (conns nl (sv_table s) ! (i - nl)))\<lparr>pfd_revents := revs i\<rparr>, snd (conns nl (sv_table s) ! (i - nl)))"
    if "nl \<le> i" "i < t_count (sv_table s)" for i
  proof -
    have "i - nl < length (conns nl (sv_table s))" using that by (simp add: conns_def)
    then have "life (conns nl (sv_table s) ! (i - nl))" using assms by (simp add: life_inv_def)
    then show ?thesis by simp
  qed
  with c show ?thesis by (auto simp: life_inv_def)
qed

interpretation lifecycle: loop_invariant env "life_inv (le_listeners env)" for env
proof (unfold_locales, goal_cases)
  case (1 s)
  then show ?case by (simp add: life_inv_def)
next
  case (2 s i s')
  then show ?case by (blast intro: life_inv_accept)
next
  case (3 s i)
  then show ?case by (blast intro: life_inv_read)
next
  case (4 s i s')
  then show ?case by (blast dest: life_inv_write)
next
  case (5 s i)
  then show ?case by (blast intro: life_inv_close)
next
  case (6 s revs)
  then show ?case by (rule life_inv_poll)
next
  case (7 s a b c)
  then show ?case by (simp add: life_inv_def)
qed

section \<open>No connection waits to be closed between rounds\<close>

text \<open>
  A turn may set a connection to \<^verbatim>\<open>CLOSING\<close>, and then closes it before it ends.  This is no
  invariant of the single handlers, so it is shown for whole turns.
\<close>

definition settled :: "nat \<Rightarrow> server \<Rightarrow> bool" where
  "settled nl s \<longleftrightarrow> life_inv nl s \<and> (\<forall>x \<in> set (conns nl (sv_table s)). state (snd x) \<noteq> CLOSING)"

lemma read_slot_conns:
  assumes "life_inv nl s" "nl \<le> i" "i < t_count (sv_table s)" "state_at s i = READING"
  shows "\<exists>x. conns nl (sv_table (read_slot env i s)) = (conns nl (sv_table s))[i - nl := x]"
proof -
  have ok: "table_ok nl (sv_table s)" using assms(1) by (simp add: life_inv_def)
  from ok assms(2,3) show ?thesis
  proof (rule read_slot_table [where env = env])
    fix p c p' c' es w
    assume pc: "t_pfds (sv_table s) ! i = Some p" "t_clients (sv_table s) ! i = Some c"
      and r: "read_conn (le_sys env) (le_flags env) (le_log env) c p (sv_in s (fd c)) (sv_world s) = (c', p', es, w)"
      and s': "read_slot env i s = s\<lparr>sv_table := (sv_table s)\<lparr>t_clients := (t_clients (sv_table s))[i := Some c'],
        t_pfds := (t_pfds (sv_table s))[i := Some p']\<rparr>, sv_world := w, sv_in := (sv_in s)(fd c := es)\<rparr>"
    note m = slot_pair [OF ok assms(2,3) pc]
    have "life (p, c)" "state c = READING" using m(1) assms(1,4) pc by (auto simp: life_inv_def state_at_def)
    from set_slot_ok(2) [OF ok assms(2,3) read_conn_life(2) [OF r this m(3)]] show ?thesis by (auto simp: s')
  qed
qed

lemma write_slot_conns:
  assumes "life_inv nl s" "nl \<le> i" "i < t_count (sv_table s)" "write_slot i s = Inr s'"
  shows "\<exists>x. conns nl (sv_table s') = (conns nl (sv_table s))[i - nl := x]"
proof -
  have ok: "table_ok nl (sv_table s)" using assms(1) by (simp add: life_inv_def)
  from ok assms(2-4) show ?thesis
  proof (rule write_slot_table)
    fix c c' script w
    assume c: "t_clients (sv_table s) ! i = Some c" and r: "write_conn c (sv_send s (fd c)) (sv_world s) = Inr (c', script, w)"
      and s': "s' = s\<lparr>sv_table := (sv_table s)\<lparr>t_clients := (t_clients (sv_table s))[i := Some c']\<rparr>, sv_world := w,
            sv_send := (sv_send s)(fd c := script)\<rparr>"
    have "slot_ok (sv_table s) i" using ok assms(2,3) by (simp add: table_ok_def)
    then obtain p where p: "t_pfds (sv_table s) ! i = Some p" by (rule slot_okE)
    note m = slot_pair [OF ok assms(2,3) p c]
    have "length (client_addr c) < INET6_ADDRSTRLEN" using m(1) assms(1) by (auto simp: life_inv_def life_def)
    with write_conn_life [OF r this, of p] m(3) have "pfd_fd p = fd c'" by simp
    moreover have "(t_pfds (sv_table s))[i := Some p] = t_pfds (sv_table s)" using p by (metis list_update_id)
    ultimately show ?thesis using set_slot_ok(2) [OF ok assms(2,3), of p c'] by (auto simp: s')
  qed
qed

lemma state_at_conns:
  assumes "table_ok nl (sv_table s)" "nl \<le> i" "i < t_count (sv_table s)"
  shows "state_at s i = state (snd (conns nl (sv_table s) ! (i - nl)))"
proof -
  have "slot_ok (sv_table s) i" using assms by (simp add: table_ok_def)
  then obtain p c where pc: "t_pfds (sv_table s) ! i = Some p" "t_clients (sv_table s) ! i = Some c" by (rule slot_okE)
  from slot_pair(2) [OF assms pc] pc(2) show ?thesis by (simp add: state_at_def)
qed

lemma settled_close_changed:
  assumes "life_inv nl s2" "nl \<le> i" "i < t_count (sv_table s2)"
    and "conns nl (sv_table s2) = xs[i - nl := x]" "i - nl < length xs" "\<forall>y \<in> set xs. state (snd y) \<noteq> CLOSING"
  shows "\<forall>y \<in> set (conns nl (sv_table (close_slot i s2))). state (snd y) \<noteq> CLOSING"
proof -
  let ?t = "fst (close_conn i (sv_table s2) (sv_world s2))" and ?rest = "take (i - nl) xs @ drop (Suc (i - nl)) xs"
  have ok: "table_ok nl (sv_table s2)" using assms(1) by (simp add: life_inv_def)
  have "add_mset x (mset (conns nl ?t)) = mset (xs[i - nl := x])"
    using mset_conns_close [OF ok assms(2,3), of "sv_world s2"] assms(4,5) by simp
  also have "\<dots> = add_mset x (mset ?rest)" using upd_conv_take_nth_drop [OF assms(5), of x] by simp
  finally have "mset (conns nl ?t) = mset ?rest" by simp
  then have "set (conns nl ?t) = set ?rest" by (rule mset_eq_setD)
  then have "set (conns nl ?t) \<subseteq> set xs" by (auto dest: in_set_takeD in_set_dropD)
  with assms(6) show ?thesis by (auto simp: close_slot_def case_prod_unfold)
qed

text \<open>A turn on a client slot: nothing, an immediate close, or one slot changed and perhaps closed.\<close>

lemma read_turn:
  assumes "life_inv (le_listeners env) s" "le_listeners env \<le> i" "i < t_count (sv_table s)"
    and "s1 = s \<or> state_at s i = READING \<and> s1 = read_slot env i s"
  shows "life_inv (le_listeners env) s1" "t_count (sv_table s1) = t_count (sv_table s)"
    "\<exists>x. conns (le_listeners env) (sv_table s1) = (conns (le_listeners env) (sv_table s))[i - le_listeners env := x]"
  using assms(4)
proof (atomize (full), elim disjE conjE, goal_cases)
  case 1
  have "xs = xs[i - le_listeners env := xs ! (i - le_listeners env)]" for xs :: "(pollfd \<times> Client) list" by simp
  with 1 assms(1) show ?case by blast
next
  case 2
  with life_inv_read [OF assms(1-3)] lifecycle.read_count [OF assms(1-3)] read_slot_conns [OF assms(1-3)] show ?case by simp
qed

lemma client_turn:
  assumes "life_inv (le_listeners env) s" "le_listeners env \<le> i" "i < t_count (sv_table s)"
    and "slot_step env i s = Inr (closed, s')"
  obtains (kept) "s' = s" | (dropped) "s' = close_slot i s"
  | (worked) s2 x where "life_inv (le_listeners env) s2" "t_count (sv_table s2) = t_count (sv_table s)"
      "conns (le_listeners env) (sv_table s2) = (conns (le_listeners env) (sv_table s))[i - le_listeners env := x]"
      "s' = (if state_at s2 i = CLOSING then close_slot i s2 else s2)"
  using assms(4,2)
proof (cases rule: slot_step_client)
  case (worked s1 s2)
  let ?nl = "le_listeners env" and ?xs = "conns (le_listeners env) (sv_table s)"
  note r = read_turn [OF assms(1-3) worked(1)]
  from worked(2) show thesis
  proof
    assume "s2 = s1"
    with r worked(3,4) that(3) show thesis by blast
  next
    assume "(state_at s1 i = SENDING_HEADER \<or> state_at s1 i = SENDING_BODY) \<and> write_slot i s1 = Inr s2"
    then have w: "write_slot i s1 = Inr s2" by simp
    have i1: "i < t_count (sv_table s1)" using r(2) assms(3) by simp
    obtain x where "conns ?nl (sv_table s2) = ?xs[i - ?nl := x]"
      using write_slot_conns [OF r(1) assms(2) i1 w] r(3) by (metis list_update_overwrite)
    with life_inv_write [OF r(1) assms(2) i1 w] lifecycle.write_count [OF r(1) assms(2) i1 w] r(2) worked(3,4) show thesis
      by (intro that(3) [of s2]) simp_all
  qed
qed (use that in blast)+

lemma settled_client_turn:
  assumes "life_inv (le_listeners env) s" "le_listeners env \<le> i" "i < t_count (sv_table s)"
    and "slot_step env i s = Inr (closed, s')"
    and nc: "\<forall>y \<in> set (conns (le_listeners env) (sv_table s)). state (snd y) \<noteq> CLOSING"
  shows "\<forall>y \<in> set (conns (le_listeners env) (sv_table s')). state (snd y) \<noteq> CLOSING"
proof -
  let ?nl = "le_listeners env" and ?xs = "conns (le_listeners env) (sv_table s)"
  have k: "i - ?nl < length ?xs" using assms(2,3) by (simp add: conns_def)
  from assms(1-4) show ?thesis
  proof (cases rule: client_turn)
    case dropped
    have "?xs = ?xs[i - ?nl := ?xs ! (i - ?nl)]" by simp
    from settled_close_changed [OF assms(1-3) this k nc] show ?thesis unfolding dropped .
  next
    case (worked s2 x)
    have i2: "i < t_count (sv_table s2)" using worked(2) assms(3) by simp
    show ?thesis
    proof (cases "state_at s2 i = CLOSING")
      case True
      with worked(4) settled_close_changed [OF worked(1) assms(2) i2 worked(3) k nc] show ?thesis by simp
    next
      case False
      have "table_ok ?nl (sv_table s2)" using worked(1) by (simp add: life_inv_def)
      with False state_at_conns [OF _ assms(2) i2] worked(3) k have "state (snd x) \<noteq> CLOSING" by simp
      with nc have "\<forall>y \<in> set (?xs[i - ?nl := x]). state (snd y) \<noteq> CLOSING" by (rule set_list_update)
      moreover have "s' = s2" using worked(4) False by simp
      ultimately show ?thesis using worked(3) by metis
    qed
  qed (use nc in simp)
qed

lemma settled_turn:
  assumes "settled (le_listeners env) s" "i < t_count (sv_table s)" "slot_step env i s = Inr (closed, s')"
  shows "settled (le_listeners env) s'"
proof -
  let ?nl = "le_listeners env"
  have lf: "life_inv ?nl s" and nc: "\<forall>y \<in> set (conns ?nl (sv_table s)). state (snd y) \<noteq> CLOSING"
    and ok: "table_ok ?nl (sv_table s)"
    using assms(1) by (simp_all add: settled_def life_inv_def)
  have "\<forall>y \<in> set (conns ?nl (sv_table s')). state (snd y) \<noteq> CLOSING"
  proof (cases "i < ?nl")
    case True
    then consider "s' = s" | d es w where
      "accept_new_conn (le_sys env) (sv_accept s d) (sv_table s) (sv_world s) = Inr (es, sv_table s', w)"
      using assms(3) by (auto simp: slot_step_def accept_slot_def Let_def split: if_splits sum.splits)
    then show ?thesis
    proof cases
      case 2
      from accept_new_conn_adds [OF 2 ok] nc show ?thesis by (fastforce simp: fresh_client_def)
    qed (use nc in simp)
  qed (use settled_client_turn [OF lf _ assms(2,3) nc] in simp)
  with lifecycle.slot_step_keeps [OF lf assms(2,3)] show ?thesis by (simp add: settled_def)
qed

interpretation settling: slot_invariant env "settled (le_listeners env)" for env
proof (unfold_locales, goal_cases)
  case (1 s i closed s')
  then have "life_inv (le_listeners env) s" by (simp add: settled_def)
  from lifecycle.slot_step_keeps [OF this 1(2,3)] settled_turn [OF 1] show ?case by blast
next
  case (2 s revs)
  then have l: "life_inv (le_listeners env) s" and ok: "table_ok (le_listeners env) (sv_table s)"
    by (simp_all add: settled_def life_inv_def)
  have "\<forall>x \<in> set (conns (le_listeners env) (sv_table s)). state (snd x) \<noteq> CLOSING" using 2 by (simp add: settled_def)
  then have "state (snd (conns (le_listeners env) (sv_table s) ! (i - le_listeners env))) \<noteq> CLOSING"
    if "le_listeners env \<le> i" "i < t_count (sv_table s)" for i
    using that by (simp add: conns_def)
  with life_inv_poll [OF l] c_poll_conns(2) [OF ok, of revs] show ?case by (auto simp: settled_def)
next
  case (3 s a b c)
  then show ?case by (simp add: settled_def life_inv_def)
qed

lemma life_states:
  assumes "life (p, c)" "state c \<noteq> CLOSING"
  shows "state c = READING \<and> pfd_events p = POLLIN \<and> out_buf c = None \<or>
     state c = SENDING_HEADER \<and> pfd_events p = POLLOUT \<and> output_sent c = 0 \<or>
     state c = PROCESSING \<and> pfd_events p = POLLIN \<and> out_buf c = None \<and> resp_val c = RESP_414"
  using assms by (cases "state c") (simp_all add: life_def)

text \<open>The started server has no connection yet.\<close>

lemma started_settled:
  assumes "main_init env sys so4 so6 argv w = Inr (cfg, lenv, l4, l6, t, w')" "world_ok w"
  shows "settled (le_listeners lenv) (start_server t w')"
  using main_init_ok [OF assms] by (simp add: settled_def life_inv_def start_server_def)

end
