(* ===== verification/Leak_Frames.thy ===== *)
theory Leak_Frames
  imports Heap_Frames
begin

text \<open>
  What the request pipeline leaves behind.  \<open>blocks_within w p w'\<close> says that every heap block that
  is live after a step was live before or is the one \<open>p\<close> points to, \<open>streams_within\<close> the same of
  streams.  Without CGI a handled request leaves no block but the response; with CGI enabled it
  leaves no stream at all.  In the two other cases the code forgets an object: the buffer with
  the script's output, and the stream of a script that it refuses to run.
\<close>

section \<open>Definitions\<close>

definition blocks_within :: "world \<Rightarrow> ptr \<Rightarrow> world \<Rightarrow> bool" where
  "blocks_within w p w' \<longleftrightarrow> (\<forall>i. w_blocks w i = None \<longrightarrow> Some i \<noteq> p \<longrightarrow> w_blocks w' i = None)"

definition streams_within :: "world \<Rightarrow> ptr \<Rightarrow> world \<Rightarrow> bool" where
  "streams_within w h w' \<longleftrightarrow> (\<forall>i. w_streams w i = None \<longrightarrow> Some i \<noteq> h \<longrightarrow> w_streams w' i = None)"

lemmas within_defs = blocks_within_def streams_within_def

section \<open>The primitives\<close>

lemma within_refl [simp]: "blocks_within w p w" "streams_within w h w"
  by (auto simp: within_defs)

lemma within_trans:
  "blocks_within w None w1 \<Longrightarrow> blocks_within w1 p w2 \<Longrightarrow> blocks_within w p w2"
  "streams_within w h w1 \<Longrightarrow> streams_within w1 None w2 \<Longrightarrow> streams_within w h w2"
  by (auto simp: within_defs)

lemma c_malloc_within:
  assumes "c_malloc sys n w = (p, w')"
  shows "blocks_within w p w'" "w_streams w' = w_streams w"
  using assms by (auto simp: c_malloc_def Let_def within_defs split: if_splits)

lemma dead_simps:
  "(w_blocks (c_mwrite i d w) j = None) = (w_blocks w j = None)"
  "(w_blocks (c_memcpy i off d w) j = None) = (w_blocks w j = None)"
  "(w_blocks (c_free p w) j = None) = (p = Some j \<or> w_blocks w j = None)"
  by (auto simp: c_mwrite_def c_memcpy_def c_free_def world_simps simp del: not_None_eq split: option.split)

lemma c_fread_dead:
  assumes "c_fread h n w = (d, w')"
  shows "(w_streams w' j = None) = (w_streams w j = None)" "w_blocks w' = w_blocks w"
  using assms by (auto simp: c_fread_def Let_def world_simps split: option.splits if_splits)

lemma copy_stream_dead:
  "(w_streams (copy_stream h p w) j = None) = (w_streams w j = None) \<and>
   (w_blocks (copy_stream h p w) j = None) = (w_blocks w j = None)"
proof (induction h p w rule: copy_stream.induct)
  case (1 h p w)
  obtain d w1 where r: "c_fread h 8192 w = (d, w1)" by (cases "c_fread h 8192 w")
  note f = c_fread_dead [OF r]
  show ?case
  proof (cases "d = []")
    case True
    with f show ?thesis by (subst (1 2) copy_stream.simps) (simp add: r)
  next
    case False
    with f "1.IH" [OF r [symmetric] False] show ?thesis
      by (subst (1 2) copy_stream.simps) (simp add: r world_simps dead_simps)
  qed
qed

section \<open>The builders\<close>

lemma write_error_within:
  assumes "write_error_response sys c req w = (rc, c', w')"
  shows "blocks_within w (out_buf c') w'" "w_streams w' = w_streams w"
  using assms by (auto simp: write_error_response_def c_memstream_eq Let_def within_defs split: if_splits)

lemma error_reply_within:
  assumes "error_reply sys c req w = (c', w')"
  shows "blocks_within w (out_buf c') w'" "w_streams w' = w_streams w"
proof -
  obtain rc c1 w1 where e: "write_error_response sys c req w = (rc, c1, w1)"
    by (cases "write_error_response sys c req w")
  with assms have "c' = c1" "w' = w1" by (auto simp: error_reply_def build_error_response_def)
  with write_error_within [OF e] show "blocks_within w (out_buf c') w'" "w_streams w' = w_streams w" by simp_all
qed

lemma build_file_within:
  assumes "build_response_file sys c rp req w = (rc, c', w')"
  shows "blocks_within w (out_buf c') w'" "streams_within w None w'"
proof -
  obtain p w1 where m: "c_open_memstream sys w = (p, w1)" by (cases "c_open_memstream sys w")
  note a = c_malloc_within [OF m [unfolded c_open_memstream_def], unfolded within_defs]
  show "blocks_within w (out_buf c') w'" "streams_within w None w'"
    using assms a m unfolding build_response_file_def within_defs
    by (auto simp: Let_def dead_simps copy_stream_dead world_simps simp del: not_None_eq split: if_splits option.splits)
qed

lemma build_dir_within:
  assumes "build_response_dir sys c rp req w = (rc, c', w')"
  shows "blocks_within w (out_buf c') w'" "w_streams w' = w_streams w"
proof -
  obtain dl w1 where m: "c_open_memstream sys w = (dl, w1)" by (cases "c_open_memstream sys w")
  note a = c_malloc_within [OF m [unfolded c_open_memstream_def], unfolded within_defs]
  let ?w2 = "c_mwrite (the dl) (dir_items (drop 1 (req_path req)) (the (os_opendir sys (drop 1 (req_path req))))) w1"
  obtain p w3 where n: "c_open_memstream sys ?w2 = (p, w3)" by (cases "c_open_memstream sys ?w2")
  note b = c_malloc_within [OF n [unfolded c_open_memstream_def], unfolded within_defs]
  have "blocks_within w (out_buf c') w' \<and> w_streams w' = w_streams w"
    using assms a b m n unfolding build_response_dir_def within_defs
    by (cases "os_opendir sys (drop 1 (req_path req))"; cases dl; cases "os_gmtime sys (last_mod rp)"; cases p)
       (auto simp: Let_def dead_simps world_simps simp del: not_None_eq split: if_splits)
  then show "blocks_within w (out_buf c') w'" "w_streams w' = w_streams w" by simp_all
qed

lemma cgi_read_streams: "w_streams (snd (cgi_read sys p n cap es w)) = w_streams w"
proof (induction sys p n cap es w rule: cgi_read.induct)
  case (1 sys p n cap es w)
  obtain q cap' w1 where g: "cgi_grow sys p n cap w = (q, cap', w1)" by (rule prod_cases3)
  have w1: "w_streams w1 = w_streams w"
    using g c_realloc_fields(2) [of sys "Some p" "cap * 2" w] by (auto simp: cgi_grow_def split: if_splits prod.splits)
  show ?case
    using "1.IH" g w1
    by (subst cgi_read.simps) (auto simp: world_simps split: option.split prod.split io_result.split)
qed

lemma cgi_assemble_streams: "w_streams (snd (snd (cgi_assemble sys c req b k w))) = w_streams w"
  by (auto simp: cgi_assemble_def Let_def world_simps c_malloc_within(2) split: option.splits prod.splits)

lemma cgi_collect_streams: "w_streams (snd (snd (cgi_collect sys c req d run w))) = w_streams w"
proof -
  obtain p w1 where m: "c_malloc sys 8192 w = (p, w1)" by (cases "c_malloc sys 8192 w")
  show ?thesis
  proof (cases p)
    case None
    with m c_malloc_within(2) [OF m] show ?thesis by (simp add: cgi_collect_def world_simps)
  next
    case (Some b)
    obtain r w2 where r: "cgi_read sys b 0 8192 (cgi_output run) w1 = (r, w2)"
      by (cases "cgi_read sys b 0 8192 (cgi_output run) w1")
    with cgi_read_streams [of sys b 0 8192 "cgi_output run" w1] c_malloc_within(2) [OF m]
    have "w_streams w2 = w_streams w" by simp
    with m Some r show ?thesis
      by (cases r) (auto simp: cgi_collect_def Let_def world_simps cgi_assemble_streams)
  qed
qed

lemma build_cgi_streams:
  assumes "build_response_cgi sys fl c rp req w = (rc, c', w')"
  shows "w_streams w' = w_streams w"
  using arg_cong [OF assms, of "\<lambda>r. w_streams (snd (snd r))"]
  by (simp add: build_response_cgi_def Let_def c_pipe_def world_simps cgi_collect_streams split: if_splits option.splits prod.splits)

lemma build_by_type_within:
  assumes "build_by_type sys fl c rp req w = (rc, c', w')"
  shows "\<not> flag_set fl C_FLAG \<Longrightarrow> blocks_within w (out_buf c') w'" "streams_within w None w'"
proof -
  show "blocks_within w (out_buf c') w'" if "\<not> flag_set fl C_FLAG"
    using assms that build_dir_within(1) build_file_within(1)
    by (auto simp: build_by_type_def build_response_cgi_def split: if_splits)
  have "w_streams w' = w_streams w \<Longrightarrow> streams_within w None w'" by (simp add: within_defs)
  then show "streams_within w None w'"
    using assms build_dir_within(2) build_file_within(2) build_cgi_streams
    by (fastforce simp: build_by_type_def split: if_splits)
qed

lemma build_okay_within:
  assumes "build_okay_response sys fl c rp req w = (rc, c', w')"
  shows "\<not> flag_set fl C_FLAG \<Longrightarrow> blocks_within w (out_buf c') w'" "streams_within w None w'"
proof -
  obtain st c1 w1 where b: "build_by_type sys fl (c\<lparr>resp_val := RESP_200\<rparr>) rp req w = (st, c1, w1)"
    by (cases "build_by_type sys fl (c\<lparr>resp_val := RESP_200\<rparr>) rp req w")
  note w1 = build_by_type_within [OF b]
  define c2 where "c2 = c1\<lparr>resp_val := (if resp_val c1 = RESP_200 then RESP_500 else resp_val c1),
                      output_length := 0, header_len := 0, body_len := 0, file_size := 0\<rparr>"
  obtain rc3 c3 w3 where e: "write_error_response sys c2 req (c_free (out_buf c1) w1) = (rc3, c3, w3)"
    by (cases "write_error_response sys c2 req (c_free (out_buf c1) w1)")
  note w3 = write_error_within [OF e]
  have r: "st < 0 \<and> c' = c3 \<and> w' = w3 \<or> \<not> st < 0 \<and> c' = c1 \<and> w' = w1"
    using assms b e unfolding build_okay_response_def
    by (cases "st < 0") (simp_all add: build_error_response_def Let_def c2_def)
  show "blocks_within w (out_buf c') w'" if "\<not> flag_set fl C_FLAG"
    using r w1(1) [OF that] w3(1) unfolding within_defs dead_simps by metis
  show "streams_within w None w'" using r w1(2) w3(2) by (auto simp: within_defs world_simps simp del: not_None_eq)
qed

section \<open>The handler\<close>

lemma resolve_within:
  assumes "stat_works sys" "world_ok w" "resolve_path sys fl c req rp0 w = (rc, c', rp, w')"
  shows "blocks_within w None w'" "flag_set fl C_FLAG \<Longrightarrow> streams_within w (rp_file_ptr rp) w'"
proof -
  have "blocks_within w None w' \<and> (flag_set fl C_FLAG \<longrightarrow> streams_within w (rp_file_ptr rp) w')"
    using assms(2,1,3) by (cases rule: resolve_path_cases) (auto simp: within_defs only_streams_def)
  then show "blocks_within w None w'" "flag_set fl C_FLAG \<Longrightarrow> streams_within w (rp_file_ptr rp) w'" by simp_all
qed

lemma serve_request_within:
  assumes sane: "sane_os sys" and ok: "world_ok w"
    and len: "header_len c \<le> MAX_REQUEST_SIZE" and log: "log_ok le"
      "le_offset le + length (os_now sys) + header_len c < LOG_BUF_SIZE"
    and s: "serve_request sys fl c le w = (c', rp, le', w')"
  shows "\<not> flag_set fl C_FLAG \<Longrightarrow> blocks_within w (out_buf c') w'"
    "flag_set fl C_FLAG \<Longrightarrow> streams_within w (rp_file_ptr rp) w'"
proof -
  obtain rc req resp le1 w1 where p1:
    "parse_request sys fl (Some (block_data w (in_buf c))) (header_len c) zero_Request (resp_val c) le w =
      (rc, req, resp, le1, w1)" using prod_cases5 by blast
  have w1: "w1 = w"
    using parse_request_bounds [OF len log, of fl "Some (block_data w (in_buf c))" zero_Request "resp_val c" w]
    by (simp add: p1 Let_def result_defs)
  note p = p1 [unfolded w1]
  have st: "stat_works sys" using sane by (simp add: sane_os_def)
  obtain rc2 c2 rp2 w2 where r: "resolve_path sys fl (c\<lparr>resp_val := resp\<rparr>) req zero_ResolvedPath w = (rc2, c2, rp2, w2)"
    using prod_cases4 by blast
  note rw = resolve_within [OF st ok r]
  obtain c3 w3 where b: "error_reply sys (c\<lparr>resp_val := resp\<rparr>) req w = (c3, w3)" by (rule prod.exhaust)
  obtain c4 w4 where f: "error_reply sys c2 req w2 = (c4, w4)" by (rule prod.exhaust)
  obtain rc5 c5 w5 where g: "build_okay_response sys fl c2 rp2 req w2 = (rc5, c5, w5)" by (rule prod_cases3)
  consider "rc \<noteq> 0" | "rc = 0" "rc2 \<noteq> 0" | "rc = 0" "rc2 = 0" by blast
  then have "(\<not> flag_set fl C_FLAG \<longrightarrow> blocks_within w (out_buf c') w') \<and>
    (flag_set fl C_FLAG \<longrightarrow> streams_within w (rp_file_ptr rp) w')"
  proof cases
    case 1
    have "c' = c3" "w' = w3" using s unfolding serve_request_bad [OF p 1 b] by simp_all
    with error_reply_within [OF b] show ?thesis by (simp add: within_defs)
  next
    case 2
    have "c' = c4" "w' = w4" "rp = rp2" using s unfolding serve_request_refused [OF p [unfolded 2(1)] r 2(2) f] by simp_all
    with error_reply_within [OF f] rw show ?thesis by (simp add: within_defs)
  next
    case 3
    have "c' = c5" "w' = w5" "rp = rp2"
      using s unfolding serve_request_built [OF p [unfolded 3(1)] r [unfolded 3(2)] g] by simp_all
    with build_okay_within [OF g] rw within_trans show ?thesis by blast
  qed
  then show "\<not> flag_set fl C_FLAG \<Longrightarrow> blocks_within w (out_buf c') w'"
    "flag_set fl C_FLAG \<Longrightarrow> streams_within w (rp_file_ptr rp) w'" by simp_all
qed

lemma log_reply_streams:
  "w_blocks (log_reply fl p c le w) = w_blocks w" "w_streams (log_reply fl p c le w) = w_streams w"
  by (auto simp: log_reply_def log_append_def do_logging_def Let_def world_simps split: option.split prod.split)

lemma handle_request_within:
  assumes sane: "sane_os sys" and ok: "world_ok w" and addr: "length (client_addr c) < INET6_ADDRSTRLEN"
    and inp: "input_ok c e w" and h: "handle_request sys fl log_ptr c p w = (c', p', w')"
  shows "\<not> flag_set fl C_FLAG \<Longrightarrow> blocks_within w (out_buf c') w'" "flag_set fl C_FLAG \<Longrightarrow> streams_within w None w'"
proof -
  have "(\<not> flag_set fl C_FLAG \<longrightarrow> blocks_within w (out_buf c') w') \<and> (flag_set fl C_FLAG \<longrightarrow> streams_within w None w')"
  proof (cases "strnstr e (CRLF @ CRLF) (length e)")
    case None
    then have "handle_request sys fl log_ptr c p w = (c, p, w)"
      using inp by (auto simp: handle_request_def input_ok_def holds_def block_data_def split: option.splits)
    with h show ?thesis by simp
  next
    case (Some k)
    let ?c = "c\<lparr>header_len := k + 4\<rparr>"
    from inp Some addr obtain l where l: "log_ok l" "le_offset l \<le> INET6_ADDRSTRLEN" "k + 4 \<le> MAX_REQUEST_SIZE"
      and u: "handle_request sys fl log_ptr c p w =
         (case serve_request sys fl ?c l w of (c2, rp, le, w2) \<Rightarrow>
            (c2\<lparr>state := SENDING_HEADER\<rparr>, p\<lparr>pfd_events := POLLOUT\<rparr>,
             snd (close_resolve_path_ptr rp (log_reply fl log_ptr c2 le w2))))"
      by (rule handle_request_unfold [where fl = fl]) blast
    obtain c2 rp le2 w2 where s: "serve_request sys fl ?c l w = (c2, rp, le2, w2)" using prod_cases4 by blast
    have hl: "header_len ?c \<le> MAX_REQUEST_SIZE" using l(3) by simp
    have room: "le_offset l + length (os_now sys) + header_len ?c < LOG_BUF_SIZE"
      using log_has_room [OF sane l(2,3)] by simp
    note sw = serve_request_within [OF sane ok hl l(1) room s]
    have "c' = c2\<lparr>state := SENDING_HEADER\<rparr>" "w' = snd (close_resolve_path_ptr rp (log_reply fl log_ptr c2 le2 w2))"
      using h unfolding u s by simp_all
    then show ?thesis
      using sw log_reply_streams by (cases "rp_file_ptr rp") (auto simp: within_defs close_resolve_path_ptr_def world_simps)
  qed
  then show "\<not> flag_set fl C_FLAG \<Longrightarrow> blocks_within w (out_buf c') w'" "flag_set fl C_FLAG \<Longrightarrow> streams_within w None w'"
    by simp_all
qed

end
