(* ===== verification/Heap_Safety.thy ===== *)
theory Heap_Safety
  imports Lifecycle Leak_Frames
begin

text \<open>
  Ownership of memory, streams and descriptors, as a second invariant of the poll loop.  The
  table owns its two arrays, which have the size its capacity asks for; every live connection
  owns its two buffers, which are large enough for what the connection says it holds; no block
  is owned twice.  Identifiers are in order, every open descriptor, live block and open stream
  was there before the loop or has its owner, and the only faults ever raised are those of two
  known defects, the second \<^verbatim>\<open>fclose\<close> of a served file's stream and the doubling of an \<^verbatim>\<open>int\<close>.
  Allocations may fail at any time.  The record \<open>outside\<close> names what was there before; a server
  that runs CGI scripts forgets blocks and one that does not forgets streams, so in these cases
  the record exempts them.
\<close>

section \<open>What a set of connections owns\<close>

definition owned :: "Client \<Rightarrow> nat list" where
  "owned c = (case in_buf c of Some p \<Rightarrow> [p] | None \<Rightarrow> []) @ (case out_buf c of Some q \<Rightarrow> [q] | None \<Rightarrow> [])"

definition client_heap :: "Client \<Rightarrow> world \<Rightarrow> bool" where
  "client_heap c w \<longleftrightarrow>
     (\<exists>e. input_ok c e w) \<and>
     (\<forall>q. out_buf c = Some q \<longrightarrow> (\<exists>b. w_blocks w q = Some b \<and> output_length c \<le> length (b_data b)))"

definition benign :: "fault \<Rightarrow> bool" where
  "benign f \<longleftrightarrow> (\<exists>h. f = DoubleFclose h) \<or> f = SignedOverflow"

record outside =
  o_fds :: "int \<Rightarrow> bool"
  o_blocks :: "nat set"
  o_streams :: "nat set"

definition exempt :: "outside \<Rightarrow> bool \<Rightarrow> bool" where
  "exempt base cgi \<longleftrightarrow> (if cgi then o_blocks base = UNIV else o_streams base = UNIV)"

definition array_live :: "world \<Rightarrow> nat \<times> nat \<Rightarrow> bool" where
  "array_live w a \<longleftrightarrow> (\<exists>b. w_blocks w (fst a) = Some b \<and> b_size b = snd a)"

definition heap_ok :: "outside \<Rightarrow> (nat \<times> nat) list \<Rightarrow> Client list \<Rightarrow> world \<Rightarrow> bool" where
  "heap_ok base as cs w \<longleftrightarrow>
     world_ok w \<and> (\<forall>c \<in> set cs. client_heap c w) \<and> (\<forall>a \<in> set as. array_live w a) \<and>
     distinct (map fst as @ concat (map owned cs)) \<and>
     (\<forall>f \<in> set (w_faults w). benign f) \<and> (\<forall>d. w_fds w d \<longrightarrow> o_fds base d \<or> d \<in> fd ` set cs) \<and>
     (\<forall>i. i \<notin> o_blocks base \<longrightarrow> i \<notin> set (map fst as @ concat (map owned cs)) \<longrightarrow> w_blocks w i = None) \<and>
     (\<forall>i. i \<notin> o_streams base \<longrightarrow> w_streams w i = None)"

lemma client_heap_live: "client_heap c w \<Longrightarrow> j \<in> set (owned c) \<Longrightarrow> w_blocks w j \<noteq> None"
  by (cases "in_buf c"; cases "out_buf c") (auto simp: client_heap_def owned_def input_ok_def holds_def)

lemma client_heap_cong:
  assumes "client_heap c w" "\<forall>j \<in> set (owned c). w_blocks w' j = w_blocks w j"
  shows "client_heap c w'"
  using assms by (auto simp: client_heap_def owned_def input_ok_def holds_def split: option.splits)

lemma client_heap_fields:
  assumes "in_buf c' = in_buf c" "input_length c' = input_length c" "input_capacity c' = input_capacity c"
    "out_buf c' = out_buf c" "output_length c' = output_length c"
  shows "client_heap c' w = client_heap c w" "owned c' = owned c"
  unfolding client_heap_def owned_def assms(4,5) input_ok_cong [OF assms(1-3)] unfolding assms(1) by simp_all

lemma heap_ok_perm:
  assumes "mset cs = mset cs'"
  shows "heap_ok base as cs w = heap_ok base as cs' w"
proof -
  have "mset (concat (map owned cs)) = mset (concat (map owned cs'))"
    using arg_cong [OF assms, of "\<lambda>m. \<Sum>\<^sub># (image_mset (\<lambda>c. mset (owned c)) m)"]
    by (simp add: mset_concat comp_def flip: mset_map sum_mset_sum_list)
  then have "mset (map fst as @ concat (map owned cs)) = mset (map fst as @ concat (map owned cs'))" by simp
  then have d: "distinct (map fst as @ concat (map owned cs)) = distinct (map fst as @ concat (map owned cs'))"
    by (rule mset_eq_imp_distinct_iff)
  show ?thesis unfolding heap_ok_def d using mset_eq_setD [OF assms] by simp
qed

text \<open>
  One connection at work: its blocks stay its own or are new, all others are left alone.  With
  CGI disabled every block it gives up is free, with CGI enabled every stream it opened is closed.
\<close>

definition blocks_passed :: "Client \<Rightarrow> world \<Rightarrow> Client \<Rightarrow> world \<Rightarrow> bool" where
  "blocks_passed c w c' w' \<longleftrightarrow>
     (\<forall>j. j \<notin> set (owned c') \<longrightarrow> w_blocks w j = None \<or> j \<in> set (owned c) \<longrightarrow> w_blocks w' j = None)"

definition own_step :: "bool \<Rightarrow> Client \<Rightarrow> world \<Rightarrow> Client \<Rightarrow> world \<Rightarrow> bool" where
  "own_step cgi c w c' w' \<longleftrightarrow>
     world_ok w' \<and> client_heap c' w' \<and> distinct (owned c') \<and> fd c' = fd c \<and>
     (\<forall>j \<in> set (owned c'). j \<in> set (owned c) \<or> w_next w \<le> j) \<and>
     (\<forall>j < w_next w. j \<notin> set (owned c) \<longrightarrow> w_blocks w' j = w_blocks w j) \<and>
     w_faults w' = w_faults w \<and> (\<forall>d. w_fds w' d \<longrightarrow> w_fds w d) \<and>
     (if cgi then streams_within w None w'
      else blocks_passed c w c' w')"

lemma heap_ok_live:
  assumes "heap_ok base as cs w" "j \<in> set (map fst as @ concat (map owned cs))"
  shows "w_blocks w j \<noteq> None" "j < w_next w"
proof -
  from assms(2) consider a where "a \<in> set as" "j = fst a" | d where "d \<in> set cs" "j \<in> set (owned d)" by auto
  then show live: "w_blocks w j \<noteq> None"
  proof cases
    case (1 a)
    then have "array_live w a" using assms(1) by (simp add: heap_ok_def)
    with 1 show ?thesis by (auto simp: array_live_def)
  next
    case (2 d)
    then have "client_heap d w" using assms(1) by (simp add: heap_ok_def)
    with 2 show ?thesis by (simp add: client_heap_live)
  qed
  have "world_ok w" using assms(1) by (simp add: heap_ok_def)
  with live show "j < w_next w" using world_ok_live(2) by blast
qed

lemma heap_ok_step:
  assumes "heap_ok base as (c # cs) w" "own_step cgi c w c' w'" "exempt base cgi"
  shows "heap_ok base as (c' # cs) w'"
proof -
  let ?o = "set (map fst as @ concat (map owned cs))"
  have live: "j < w_next w" if "j \<in> ?o" for j
    by (rule heap_ok_live(2) [OF assms(1)]) (use that in auto)
  have other: "j \<notin> set (owned c)" if "j \<in> ?o" for j using that assms(1) by (auto simp: heap_ok_def)
  have same: "w_blocks w' j = w_blocks w j" if "j \<in> ?o" for j
    using live [OF that] other [OF that] assms(2) by (simp add: own_step_def)
  have "client_heap d w'" if "d \<in> set cs" for d
  proof (rule client_heap_cong)
    show "client_heap d w" using assms(1) that by (simp add: heap_ok_def)
    have "set (owned d) \<subseteq> ?o" using that by auto
    with same show "\<forall>j \<in> set (owned d). w_blocks w' j = w_blocks w j" by blast
  qed
  moreover have "array_live w' a" if "a \<in> set as" for a
    using assms(1) that same [of "fst a"] by (auto simp: heap_ok_def array_live_def)
  moreover have "j \<notin> ?o" if "j \<in> set (owned c')" for j
  proof
    assume "j \<in> ?o"
    with live [OF this] other [OF this] assms(2) that show False by (auto simp: own_step_def)
  qed
  then have "set (owned c') \<inter> ?o = {}" by blast
  then have "distinct (map fst as @ concat (map owned (c' # cs)))"
    using assms(1,2) by (auto simp: heap_ok_def own_step_def)
  moreover have "w_blocks w' i = None" if "i \<notin> o_blocks base" "i \<notin> set (owned c')" "i \<notin> ?o" for i
  proof -
    have "\<not> cgi" using assms(3) that(1) by (auto simp: exempt_def)
    moreover have "w_blocks w i = None \<or> i \<in> set (owned c)" using assms(1) that by (auto simp: heap_ok_def)
    ultimately show ?thesis using assms(2) that(2) by (auto simp: own_step_def blocks_passed_def)
  qed
  moreover have "w_streams w' i = None" if "i \<notin> o_streams base" for i
    using assms that by (auto simp: heap_ok_def own_step_def exempt_def within_defs split: if_splits)
  moreover have "world_ok w'" "client_heap c' w'" "\<forall>f \<in> set (w_faults w'). benign f"
    "\<forall>d. w_fds w' d \<longrightarrow> o_fds base d \<or> d \<in> fd ` set (c' # cs)"
    using assms(1,2) by (auto simp: heap_ok_def own_step_def)
  ultimately show ?thesis unfolding heap_ok_def by simp
qed

text \<open>Closing frees exactly the two buffers.\<close>

lemma c_free_live:
  "p = None \<or> w_blocks w (the p) \<noteq> None \<Longrightarrow>
     w_blocks (c_free p w) = (\<lambda>i. if p = Some i then None else w_blocks w i) \<and> w_faults (c_free p w) = w_faults w"
  by (cases p) (auto simp: c_free_def)

lemma release_client_frees:
  assumes "client_heap c w" "distinct (owned c)"
  shows "w_blocks (release_client c w) = (\<lambda>i. if i \<in> set (owned c) then None else w_blocks w i) \<and>
     set (w_faults (release_client c w)) \<subseteq> set (w_faults w) \<union> {f. benign f} \<and>
     w_next (release_client c w) = w_next w \<and> w_fds (release_client c w) = (w_fds w)(fd c := False) \<and>
     (\<forall>i. w_streams w i = None \<longrightarrow> w_streams (release_client c w) i = None)"
proof -
  define w2 where "w2 = (case file_ptr c of Some h \<Rightarrow> c_fclose h (c_close (fd c) w) | None \<Rightarrow> c_close (fd c) w)"
  have w2: "w_blocks w2 = w_blocks w" "w_next w2 = w_next w" "w_fds w2 = (w_fds w)(fd c := False)"
    "set (w_faults w2) \<subseteq> set (w_faults w) \<union> {f. benign f}" "\<forall>i. w_streams w i = None \<longrightarrow> w_streams w2 i = None"
    by (auto simp: w2_def world_simps benign_def split: option.split)
  have r: "release_client c w = c_free (out_buf c) (c_free (in_buf c) w2)"
    unfolding release_client_def Let_def w2_def ..
  have i: "in_buf c = None \<or> w_blocks w2 (the (in_buf c)) \<noteq> None"
    using client_heap_live [OF assms(1)] by (cases "in_buf c") (auto simp: owned_def w2)
  note f1 = c_free_live [OF i]
  have "out_buf c = None \<or> w_blocks (c_free (in_buf c) w2) (the (out_buf c)) \<noteq> None"
    using f1 client_heap_live [OF assms(1)] assms(2)
    by (cases "out_buf c"; cases "in_buf c") (auto simp: owned_def w2)
  note f2 = c_free_live [OF this]
  have "w_blocks (release_client c w) = (\<lambda>i. if i \<in> set (owned c) then None else w_blocks w i)"
    unfolding r using f1 f2 w2(1) by (cases "out_buf c"; cases "in_buf c") (auto simp: owned_def)
  then show ?thesis unfolding r using f1 f2 w2 by (simp add: world_simps)
qed

lemma heap_ok_close:
  assumes "heap_ok base as (c # cs) w"
  shows "heap_ok base as cs (release_client c w)"
proof -
  have h: "client_heap c w" "distinct (owned c)" using assms by (simp_all add: heap_ok_def)
  note r = release_client_frees [OF h]
  have "world_ok (release_client c w)" using assms r by (auto simp: heap_ok_def world_ok_def)
  moreover have "client_heap d (release_client c w)" if "d \<in> set cs" for d
  proof (rule client_heap_cong)
    show "client_heap d w" using assms that by (simp add: heap_ok_def)
    show "\<forall>j \<in> set (owned d). w_blocks (release_client c w) j = w_blocks w j"
      using r assms that by (auto simp: heap_ok_def)
  qed
  moreover have "array_live (release_client c w) a" if "a \<in> set as" for a
    using r assms that by (auto simp: heap_ok_def array_live_def)
  moreover have "\<forall>f \<in> set (w_faults (release_client c w)). benign f" using r assms by (auto simp: heap_ok_def)
  moreover have "\<forall>d. w_fds (release_client c w) d \<longrightarrow> o_fds base d \<or> d \<in> fd ` set cs"
    using r assms by (auto simp: heap_ok_def)
  moreover have "w_blocks (release_client c w) i = None" if "i \<notin> o_blocks base" "i \<notin> set (map fst as @ concat (map owned cs))" for i
    using r assms that by (simp add: heap_ok_def)
  moreover have "w_streams (release_client c w) i = None" if "i \<notin> o_streams base" for i
    using r assms that by (simp add: heap_ok_def)
  moreover have "distinct (map fst as @ concat (map owned cs))" using assms by (auto simp: heap_ok_def)
  ultimately show ?thesis unfolding heap_ok_def by blast
qed

section \<open>The handlers\<close>

definition env_ok :: "loop_env \<Rightarrow> bool" where
  "env_ok env \<longleftrightarrow> sane_os (le_sys env) \<and> (logging_on (le_flags env) \<longrightarrow> le_log env \<noteq> None)"

lemma input_ok_blocks:
  assumes "input_ok c e w" "\<forall>p. in_buf c = Some p \<longrightarrow> w_blocks w' p = w_blocks w p"
  shows "input_ok c e w'"
  using assms by (auto simp: input_ok_def holds_def split: option.splits)

lemma recv_own_step:
  assumes "recv_loop sys c es w = (g, c1, es1, w1)" "input_ok c e w" "world_ok w" "state c = READING" "out_buf c = None"
  shows "own_step cgi c w c1 w1 \<and> (\<exists>e1. input_ok c1 e1 w1) \<and> rest_part c1 = rest_part c \<and> w_next w \<le> w_next w1"
proof -
  from recv_loop_post [OF assms(2-4), of sys es] obtain e1 where
    r: "rest_part c1 = rest_part c" "moved (in_buf c) (in_buf c1) w w1" "input_ok c1 e1 w1"
    by (auto simp: recv_post_def assms(1))
  have o: "out_buf c1 = None" "fd c1 = fd c" using r(1) assms(5) by (simp_all add: rest_part_def)
  have m: "in_buf c1 = in_buf c \<or> (\<exists>j. in_buf c1 = Some j \<and> w_next w \<le> j)"
    "\<And>i. Some i \<noteq> in_buf c \<Longrightarrow> Some i \<noteq> in_buf c1 \<Longrightarrow> w_blocks w1 i = w_blocks w i"
    "world_ok w1" "w_faults w1 = w_faults w" "w_fds w1 = w_fds w" "w_next w \<le> w_next w1" "w_streams w1 = w_streams w"
    "in_buf c1 \<noteq> in_buf c \<Longrightarrow> in_buf c = Some i \<Longrightarrow> w_blocks w1 i = None" for i
    using r(2) by (auto simp: moved_def same_rest_def)
  have own: "j \<in> set (owned c1) \<longleftrightarrow> in_buf c1 = Some j" "j \<in> set (owned c) \<longleftrightarrow> in_buf c = Some j" for j
    by (auto simp: owned_def assms(5) o split: option.split)
  have "blocks_passed c w c1 w1"
    unfolding blocks_passed_def own using m(2,8) by metis
  have b: "w_blocks w1 j = w_blocks w j" if "j < w_next w" "j \<notin> set (owned c)" for j
  proof (rule m(2))
    show "Some j \<noteq> in_buf c" using that(2) by (auto simp: owned_def)
    with m(1) that(1) show "Some j \<noteq> in_buf c1" by auto
  qed
  have "\<forall>j \<in> set (owned c1). j \<in> set (owned c) \<or> w_next w \<le> j" "distinct (owned c1)"
    using m(1) o assms(5) by (auto simp: owned_def split: option.splits)
  moreover have "client_heap c1 w1" using r(3) o by (auto simp: client_heap_def)
  ultimately show ?thesis using m(3-7) b o r \<open>blocks_passed c w c1 w1\<close> by (auto simp: own_step_def within_defs)
qed

lemma own_step_trans:
  assumes "own_step cgi c w c1 w1" "own_step cgi c1 w1 c2 w2" "w_next w \<le> w_next w1"
  shows "own_step cgi c w c2 w2"
proof -
  have "w_blocks w2 j = w_blocks w j" if "j < w_next w" "j \<notin> set (owned c)" for j
  proof -
    have "j \<notin> set (owned c1)" using assms(1) that by (auto simp: own_step_def)
    with assms that show ?thesis by (simp add: own_step_def)
  qed
  moreover have "j \<in> set (owned c) \<or> w_next w \<le> j" if "j \<in> set (owned c2)" for j
    using assms(1,2) that le_trans [OF assms(3), of j] unfolding own_step_def by blast
  moreover have "if cgi then streams_within w None w2
      else blocks_passed c w c2 w2"
    using assms(1,2) within_trans(2) [of w None w1 w2] by (cases cgi) (simp_all add: own_step_def blocks_passed_def, blast)
  ultimately show ?thesis using assms by (simp add: own_step_def)
qed

lemma handle_own_step:
  assumes "sane_os sys" "logging_on fl \<Longrightarrow> log_ptr \<noteq> None" "world_ok w" "out_buf c = None" "input_ok c e w"
    and "length (client_addr c) < INET6_ADDRSTRLEN" "handle_request sys fl log_ptr c p w = (c', p', w')"
  shows "own_step (flag_set fl C_FLAG) c w c' w'"
proof -
  have h: "handled (w_next w) w (c', p', w')"
    unfolding assms(7) [symmetric] by (rule handle_request_handled [OF assms(1,3,4) order_refl assms(6,5)]) (rule assms(2))
  have f: "in_buf c' = in_buf c" "input_length c' = input_length c" "input_capacity c' = input_capacity c" "fd c' = fd c"
    using handle_request_fields [OF assms(7)] by auto
  have i: "\<And>q. in_buf c = Some q \<Longrightarrow> q < w_next w"
    using assms(3,5) by (auto simp: input_ok_def holds_def dest: world_ok_live(2))
  have "input_ok c' e w'"
    unfolding input_ok_cong [OF f(1-3)]
    by (rule input_ok_blocks [OF assms(5)]) (use h i in \<open>auto simp: handled_def\<close>)
  then have "client_heap c' w'"
    using h by (auto simp: client_heap_def handled_def out_from_def)
  moreover have "\<forall>q. out_buf c' = Some q \<longrightarrow> w_next w \<le> q" using h by (auto simp: handled_def out_from_def)
  then have "distinct (owned c') \<and> (\<forall>j \<in> set (owned c'). j \<in> set (owned c) \<or> w_next w \<le> j)"
    using f(1) i by (cases "in_buf c"; cases "out_buf c'") (auto simp: owned_def)
  moreover have "if flag_set fl C_FLAG then streams_within w None w'
      else blocks_passed c w c' w'"
    using handle_request_within [OF assms(1,3,6,5,7)] f(1) assms(4)
    by (auto simp: within_defs owned_def blocks_passed_def split: option.splits)
  ultimately show ?thesis using h f(4) by (simp add: own_step_def handled_def)
qed

lemma read_own_step:
  assumes "env_ok env" "world_ok w" "client_heap c w" "life (p, c)" "state c = READING"
    and "read_conn (le_sys env) (le_flags env) (le_log env) c p es w = (c', p', es', w')"
  shows "own_step (flag_set (le_flags env) C_FLAG) c w c' w'"
proof -
  have l: "out_buf c = None" "length (client_addr c) < INET6_ADDRSTRLEN" using assms(4,5) by (simp_all add: life_def)
  from assms(3) obtain e where e: "input_ok c e w" by (auto simp: client_heap_def)
  obtain g c1 es1 w1 where r: "recv_loop (le_sys env) c es w = (g, c1, es1, w1)" using prod_cases4 by blast
  from recv_own_step [OF r e assms(2,5) l(1)] obtain e1 where
    s: "own_step (flag_set (le_flags env) C_FLAG) c w c1 w1" "input_ok c1 e1 w1" "rest_part c1 = rest_part c" "w_next w \<le> w_next w1" by blast
  have c1: "out_buf c1 = None" "length (client_addr c1) < INET6_ADDRSTRLEN" using s(3) l by (simp_all add: rest_part_def)
  show ?thesis
  proof (cases g)
    case True
    obtain c2 p2 w2 where h: "handle_request (le_sys env) (le_flags env) (le_log env) c1 p w1 = (c2, p2, w2)"
      using prod_cases3 by blast
    have "own_step (flag_set (le_flags env) C_FLAG) c1 w1 c2 w2"
      using assms(1) s(1) by (intro handle_own_step [OF _ _ _ c1(1) s(2) c1(2) h]) (simp_all add: env_ok_def own_step_def)
    from own_step_trans [OF s(1) this s(4)] assms(6) r True h show ?thesis by (simp add: read_conn_def)
  next
    case False
    with assms(6) r s(1) show ?thesis by (simp add: read_conn_def)
  qed
qed

lemma write_own_step:
  assumes "world_ok w" "client_heap c w" "distinct (owned c)" "write_conn c script w = Inr (c', script', w')"
  shows "own_step cgi c w c' w'"
proof (cases "out_buf c = None \<or> output_length c = 0")
  case True
  with assms(4) have "c' = c\<lparr>state := CLOSING\<rparr>" "w' = w" by (auto simp: write_conn_def split: option.splits)
  with assms client_heap_fields [of c' c] show ?thesis by (simp add: own_step_def blocks_passed_def)
next
  case False
  then obtain q where q: "out_buf c = Some q" "output_length c \<noteq> 0" by auto
  then obtain b where "w_blocks w q = Some b" "output_length c \<le> length (b_data b)"
    using assms(2) by (auto simp: client_heap_def)
  then have nf: "\<not> length (block_data w (Some q)) < output_length c" by (simp add: block_data_def)
  from assms(4) q nf obtain c1 w1 where s: "send_loop c script w = Inr (c1, script', w1)" "c' = c1\<lparr>state := CLOSING\<rparr>"
    "w' = c_shutdown (fd c1) w1"
    by (auto simp: write_conn_def split: sum.splits)
  from send_loop_result [where c = c and script = script and w = w] s(1)
  have c1: "c1 = c\<lparr>output_sent := max (output_sent c) (output_length c)\<rparr>" and
    w1: "w1 = put_wire (fd c) (take (output_length c - output_sent c) (drop (output_sent c) (block_data w (out_buf c)))) w"
    by simp_all
  have f: "client_heap c' w = client_heap c w" "owned c' = owned c"
    by (rule client_heap_fields; simp add: s(2) c1)+
  have "w_blocks w' = w_blocks w" "w_next w' = w_next w" "w_streams w' = w_streams w" "w_faults w' = w_faults w"
    "w_fds w' = w_fds w"
    by (simp_all add: s(3) w1 c_shutdown_def put_wire_def)
  with assms f client_heap_cong [of c' w w'] show ?thesis
    by (auto simp: own_step_def s(2) c1 world_ok_def blocks_passed_def within_defs)
qed

text \<open>Accepting: an array that grows moves to a new block, and the old one is free.\<close>

lemma heap_ok_realloc:
  assumes "heap_ok base ((a, n) # as) cs w" "c_realloc sys (Some a) m w = (Some a', w')"
  shows "heap_ok base ((a', m) # as) cs w'"
proof -
  let ?o = "set (map fst as @ concat (map owned cs))"
  have live: "w_blocks w j \<noteq> None" if "j \<in> ?o" for j
    by (rule heap_ok_live(1) [OF assms(1)]) (use that in auto)
  obtain b where b: "w_blocks w a = Some b" using assms(1) by (auto simp: heap_ok_def array_live_def)
  have ok: "world_ok w" "a \<notin> ?o" using assms(1) by (auto simp: heap_ok_def)
  have "a' = w_next w" using assms(2) by (auto simp: c_realloc_def Let_def split: if_splits option.splits)
  then have new: "a' = w_next w" "a' \<notin> ?o" using live [of a'] world_ok_fresh(2) [OF ok(1) order_refl] by blast+
  have w': "w' = w\<lparr>w_next := Suc (w_next w),
      w_blocks := (w_blocks w)(a := None, a' \<mapsto> \<lparr>b_size = m, b_data = take m (b_data b)\<rparr>)\<rparr>"
    using assms(2) b new(1) by (auto simp: c_realloc_def Let_def split: if_splits)
  have same: "w_blocks w' j = w_blocks w j" if "j \<in> ?o" for j using that ok(2) new(2) by (auto simp: w')
  have "client_heap d w'" if "d \<in> set cs" for d
  proof (rule client_heap_cong)
    show "client_heap d w" using assms(1) that by (simp add: heap_ok_def)
    have "set (owned d) \<subseteq> ?o" using that by auto
    with same show "\<forall>j \<in> set (owned d). w_blocks w' j = w_blocks w j" by blast
  qed
  moreover have "array_live w' x" if "x \<in> set as" for x
    using assms(1) that same [of "fst x"] by (auto simp: heap_ok_def array_live_def)
  moreover have "array_live w' (a', m)" "world_ok w'" using ok(1) new(1) by (auto simp: array_live_def w' world_ok_def)
  moreover have "distinct (map fst ((a', m) # as) @ concat (map owned cs))" using assms(1) new(2) by (simp add: heap_ok_def)
  moreover have "w_blocks w' i = None" if "i \<notin> o_blocks base" "i \<notin> set (map fst ((a', m) # as) @ concat (map owned cs))" for i
    using assms(1) that by (auto simp: heap_ok_def w')
  moreover have "w_streams w' = w_streams w" "w_faults w' = w_faults w" "w_fds w' = w_fds w" by (simp_all add: w')
  ultimately show ?thesis using assms(1) unfolding heap_ok_def by simp
qed

lemma heap_ok_swap: "heap_ok base [x, y] cs w = heap_ok base [y, x] cs w"
  by (auto simp: heap_ok_def)

lemma heap_ok_fault:
  "heap_ok base as cs w \<Longrightarrow> heap_ok base as cs (fault_if b SignedOverflow w)"
  by (auto simp: heap_ok_def fault_if_def raise_fault_def benign_def world_ok_def array_live_def client_heap_def input_ok_def
      holds_def split: option.splits)

lemma grow_lists_heap:
  assumes "grow_lists sys t w = Inr (t', w')" "heap_ok base (arrays t) cs w"
  shows "heap_ok base (arrays t') cs w'"
proof (cases "t_count t = t_size t")
  case False
  with assms show ?thesis by (simp add: grow_lists_def)
next
  case True
  let ?n = "t_size t * 2"
  let ?w0 = "fault_if (INT_MAX < ?n) SignedOverflow w"
  from assms(1) True obtain p w1 q where r: "c_realloc sys (Some (t_pfds_at t)) (SIZEOF_POLLFD * ?n) ?w0 = (Some p, w1)"
    "c_realloc sys (Some (t_clients_at t)) (SIZEOF_CLIENT * ?n) w1 = (Some q, w')"
    and t': "t_pfds_at t' = p" "t_clients_at t' = q" "t_size t' = ?n"
    by (auto simp: grow_lists_def Let_def split: prod.splits option.splits)
  have "heap_ok base [(p, SIZEOF_POLLFD * ?n), (t_clients_at t, SIZEOF_CLIENT * t_size t)] cs w1"
    by (rule heap_ok_realloc [OF _ r(1)]) (use heap_ok_fault [OF assms(2)] in \<open>simp add: arrays_def\<close>)
  then have "heap_ok base [(t_clients_at t, SIZEOF_CLIENT * t_size t), (p, SIZEOF_POLLFD * ?n)] cs w1"
    using heap_ok_swap by blast
  from heap_ok_realloc [OF this r(2)] heap_ok_swap show ?thesis unfolding arrays_def t' by blast
qed

text \<open>A connection that has just been accepted owns its descriptor and nothing else.\<close>

lemma heap_ok_accepted:
  assumes "heap_ok base as cs w"
  shows "heap_ok (base\<lparr>o_fds := (o_fds base)(newfd := True)\<rparr>) as cs (c_accept newfd w)"
  using assms
  by (auto simp: heap_ok_def c_accept_def world_ok_def array_live_def client_heap_def input_ok_def holds_def split: option.splits)

lemma heap_ok_refused:
  assumes "heap_ok base as cs w"
  shows "heap_ok base as cs (c_close newfd (c_accept newfd w))"
  using assms
  by (auto simp: heap_ok_def c_accept_def c_close_def world_ok_def array_live_def client_heap_def input_ok_def holds_def
      split: option.splits)

lemma heap_ok_extend:
  assumes "heap_ok (base\<lparr>o_fds := (o_fds base)(fd c := True)\<rparr>) as cs w" "fresh_client c"
  shows "heap_ok base as (cs @ [c]) w"
proof -
  have "owned c = []" "client_heap c w"
    using assms(2) by (auto simp: fresh_client_def owned_def client_heap_def input_ok_def)
  with assms(1) show ?thesis by (auto simp: heap_ok_def split: if_splits)
qed

section \<open>The invariant of the loop\<close>

definition clients :: "nat \<Rightarrow> table \<Rightarrow> Client list" where
  "clients nl t = map snd (conns nl t)"

definition heap_inv :: "outside \<Rightarrow> loop_env \<Rightarrow> server \<Rightarrow> bool" where
  "heap_inv base env s \<longleftrightarrow>
     env_ok env \<and> exempt base (flag_set (le_flags env) C_FLAG) \<and> life_inv (le_listeners env) s \<and>
     heap_ok base (arrays (sv_table s)) (clients (le_listeners env) (sv_table s)) (sv_world s)"

lemma arrays_update [simp]: "arrays (update_client i f t) = arrays t"
  by (simp add: arrays_def)

lemma accept_new_conn_heap:
  assumes "accept_new_conn sys es t w = Inr (es', t', w')" "table_ok nl t" "heap_ok base (arrays t) (clients nl t) w"
  shows "heap_ok base (arrays t') (clients nl t') w'"
  using assms
proof (induction sys es t w rule: accept_new_conn.induct)
  case (3 sys newfd ok peer es t w)
  show ?case
  proof (cases ok)
    case False
    with "3.IH"(1) [OF refl] "3.prems" heap_ok_refused show ?thesis by (simp add: Let_def)
  next
    case True
    with "3.prems" obtain idx t1 w2 where a: "add_to_lists sys newfd t (c_accept newfd w) = Inr (idx, t1, w2)"
      by (auto simp: Let_def split: sum.splits)
    let ?t2 = "update_client idx (\<lambda>c. c\<lparr>client_addr := peer_name peer\<rparr>) t1"
    have r: "accept_new_conn sys es ?t2 w2 = Inr (es', t', w')" using "3.prems"(1) True a by (simp add: Let_def)
    note o = accept_one [OF a "3.prems"(2), where peer = peer]
    from o(2) obtain p c where c: "conns nl ?t2 = conns nl t @ [(p, c)]" "fresh_client c" "fd c = newfd" by blast
    let ?base = "base\<lparr>o_fds := (o_fds base)(fd c := True)\<rparr>"
    from a obtain t0 where g: "grow_lists sys t (c_accept newfd w) = Inr (t0, w2)" "arrays t1 = arrays t0"
      by (auto simp: add_to_lists_def Let_def arrays_def split: sum.splits)
    have "heap_ok ?base (arrays ?t2) (clients nl t) w2"
      using grow_lists_heap [OF g(1) heap_ok_accepted [OF "3.prems"(3)]] g(2) c(3) by simp
    from heap_ok_extend [OF this c(2)] have "heap_ok base (arrays ?t2) (clients nl ?t2) w2" by (simp add: clients_def c(1))
    from "3.IH"(2) [OF refl _ a refl refl r o(1) this] True show ?thesis by simp
  qed
qed (auto split: if_splits)

lemma heap_inv_accept:
  assumes "heap_inv base env s" "accept_slot env i s = Inr s'"
  shows "heap_inv base env s'"
proof -
  let ?nl = "le_listeners env"
  from assms(2) obtain d es t w where
    a: "accept_new_conn (le_sys env) (sv_accept s d) (sv_table s) (sv_world s) = Inr (es, t, w)" and
    s': "sv_table s' = t" "sv_world s' = w"
    by (auto simp: accept_slot_def Let_def split: sum.splits)
  have l: "life_inv ?nl s'" using assms by (auto simp: heap_inv_def intro: life_inv_accept)
  have "table_ok ?nl (sv_table s)" using assms(1) by (simp add: heap_inv_def life_inv_def)
  from accept_new_conn_heap [OF a this] assms(1) l show ?thesis by (simp add: heap_inv_def s')
qed

text \<open>The connection of a slot can be put in front, for the lemmas above.\<close>

lemma front:
  assumes "k < length xs"
  obtains rest where "mset xs = mset (xs ! k # rest)" "\<And>y. mset (xs[k := y]) = mset (y # rest)"
proof
  let ?rest = "take k xs @ drop (Suc k) xs"
  have "mset xs = mset (take k xs @ xs ! k # drop (Suc k) xs)" using id_take_nth_drop [OF assms] by simp
  then show "mset xs = mset (xs ! k # ?rest)" by simp
  fix y
  show "mset (xs[k := y]) = mset (y # ?rest)" using upd_conv_take_nth_drop [OF assms, of y] by simp
qed

lemma heap_ok_slot:
  assumes "heap_ok base as xs w" "k < length xs" "own_step cgi (xs ! k) w c' w'" "exempt base cgi"
  shows "heap_ok base as (xs[k := c']) w'"
proof -
  from front [OF assms(2)] obtain rest where
    r: "mset xs = mset (xs ! k # rest)" "\<And>y. mset (xs[k := y]) = mset (y # rest)" by metis
  have "heap_ok base as (xs ! k # rest) w" using assms(1) heap_ok_perm [OF r(1)] by simp
  from heap_ok_step [OF this assms(3,4)] show ?thesis unfolding heap_ok_perm [OF r(2)] .
qed

lemma heap_inv_slot:
  assumes "heap_inv base env s" "le_listeners env \<le> i" "i < t_count (sv_table s)"
    and "t_clients (sv_table s) ! i = Some c" "t_pfds (sv_table s) ! i = Some p"
  shows "client_heap c (sv_world s)" "distinct (owned c)" "life (p, c)" "world_ok (sv_world s)"
    "i - le_listeners env < length (clients (le_listeners env) (sv_table s))"
    "clients (le_listeners env) (sv_table s) ! (i - le_listeners env) = c"
proof -
  let ?nl = "le_listeners env"
  have ok: "table_ok ?nl (sv_table s)" using assms(1) by (simp add: heap_inv_def life_inv_def)
  note m = slot_pair [OF ok assms(2,3,5,4)]
  have l: "i - ?nl < length (conns ?nl (sv_table s))" using assms(2,3) by (simp add: conns_def)
  then show k: "i - ?nl < length (clients ?nl (sv_table s))" "clients ?nl (sv_table s) ! (i - ?nl) = c"
    using m(2) by (simp_all add: clients_def)
  have c: "c \<in> set (clients ?nl (sv_table s))" using k nth_mem by force
  then show "client_heap c (sv_world s)" "world_ok (sv_world s)" using assms(1) by (simp_all add: heap_inv_def heap_ok_def)
  from split_list [OF c] assms(1) show "distinct (owned c)" by (auto simp: heap_inv_def heap_ok_def)
  show "life (p, c)" using m(1) assms(1) by (auto simp: heap_inv_def life_inv_def)
qed

lemma clients_update:
  "map snd (xs[k := (p, c)]) = (map snd xs)[k := c]"
  by (simp add: map_update)

lemma heap_inv_read:
  assumes "heap_inv base env s" "le_listeners env \<le> i" "i < t_count (sv_table s)" "state_at s i = READING"
  shows "heap_inv base env (read_slot env i s)"
proof -
  let ?nl = "le_listeners env"
  have ok: "table_ok ?nl (sv_table s)" and lf: "life_inv ?nl s" using assms(1) by (simp_all add: heap_inv_def life_inv_def)
  from ok assms(2,3) show ?thesis
  proof (rule read_slot_table [where env = env])
    fix p c p' c' es w
    assume pc: "t_pfds (sv_table s) ! i = Some p" "t_clients (sv_table s) ! i = Some c"
      and r: "read_conn (le_sys env) (le_flags env) (le_log env) c p (sv_in s (fd c)) (sv_world s) = (c', p', es, w)"
      and s': "read_slot env i s = s\<lparr>sv_table := (sv_table s)\<lparr>t_clients := (t_clients (sv_table s))[i := Some c'],
        t_pfds := (t_pfds (sv_table s))[i := Some p']\<rparr>, sv_world := w, sv_in := (sv_in s)(fd c := es)\<rparr>"
    note h = heap_inv_slot [OF assms(1-3) pc(2,1)]
    have st: "state c = READING" using assms(4) pc by (simp add: state_at_def)
    have e: "env_ok env" using assms(1) by (simp add: heap_inv_def)
    note own = read_own_step [OF e h(4,1,3) st r]
    have "pfd_fd p = fd c" by (rule slot_pair(3) [OF ok assms(2,3) pc])
    note l = read_conn_life [OF r h(3) st this]
    have "heap_ok base (arrays (sv_table s)) ((clients ?nl (sv_table s))[i - ?nl := c']) w"
      using assms(1) own h(5,6) by (intro heap_ok_slot [where w = "sv_world s" and cgi = "flag_set (le_flags env) C_FLAG"]) (simp_all add: heap_inv_def)
    then have "heap_ok base (arrays (sv_table (read_slot env i s))) (clients ?nl (sv_table (read_slot env i s))) (sv_world (read_slot env i s))"
      using set_slot_ok(2) [OF ok assms(2,3) l(2)] by (simp add: s' clients_def clients_update arrays_def)
    then show ?thesis using assms(1) life_inv_read [OF lf assms(2-4)] by (simp add: heap_inv_def)
  qed
qed

lemma heap_inv_write:
  assumes "heap_inv base env s" "le_listeners env \<le> i" "i < t_count (sv_table s)" "write_slot i s = Inr s'"
  shows "heap_inv base env s'"
proof -
  let ?nl = "le_listeners env"
  have ok: "table_ok ?nl (sv_table s)" and lf: "life_inv ?nl s" using assms(1) by (simp_all add: heap_inv_def life_inv_def)
  from ok assms(2-4) show ?thesis
  proof (rule write_slot_table)
    fix c c' script w
    assume c: "t_clients (sv_table s) ! i = Some c" and r: "write_conn c (sv_send s (fd c)) (sv_world s) = Inr (c', script, w)"
      and s': "s' = s\<lparr>sv_table := (sv_table s)\<lparr>t_clients := (t_clients (sv_table s))[i := Some c']\<rparr>, sv_world := w,
            sv_send := (sv_send s)(fd c := script)\<rparr>"
    have "slot_ok (sv_table s) i" using ok assms(2,3) by (simp add: table_ok_def)
    then obtain p where p: "t_pfds (sv_table s) ! i = Some p" by (rule slot_okE)
    note h = heap_inv_slot [OF assms(1-3) c p]
    note own = write_own_step [OF h(4,1,2) r, of "flag_set (le_flags env) C_FLAG"]
    have same: "(t_pfds (sv_table s))[i := Some p] = t_pfds (sv_table s)" using p by (metis list_update_id)
    have "pfd_fd p = fd c'" using slot_pair(3) [OF ok assms(2,3) p c] own by (simp add: own_step_def)
    note q = set_slot_ok(2) [OF ok assms(2,3) this, unfolded same]
    have "heap_ok base (arrays (sv_table s)) ((clients ?nl (sv_table s))[i - ?nl := c']) w"
      using assms(1) own h(5,6) by (intro heap_ok_slot [where w = "sv_world s" and cgi = "flag_set (le_flags env) C_FLAG"]) (simp_all add: heap_inv_def)
    then have "heap_ok base (arrays (sv_table s')) (clients ?nl (sv_table s')) (sv_world s')"
      using q by (simp add: s' clients_def clients_update arrays_def)
    then show ?thesis using assms(1) life_inv_write [OF lf assms(2-4)] by (simp add: heap_inv_def)
  qed
qed

lemma heap_inv_close:
  assumes "heap_inv base env s" "le_listeners env \<le> i" "i < t_count (sv_table s)"
  shows "heap_inv base env (close_slot i s)"
proof -
  let ?nl = "le_listeners env" and ?t = "sv_table s" and ?w = "sv_world s"
  have ok: "table_ok ?nl ?t" and lf: "life_inv ?nl s" using assms(1) by (simp_all add: heap_inv_def life_inv_def)
  let ?c = "snd (conns ?nl ?t ! (i - ?nl))" and ?t' = "fst (close_conn i ?t ?w)"
  have "image_mset snd (add_mset (conns ?nl ?t ! (i - ?nl)) (mset (conns ?nl ?t'))) = image_mset snd (mset (conns ?nl ?t))"
    using mset_conns_close [OF ok assms(2,3), of ?w] by simp
  then have "mset (clients ?nl ?t) = mset (?c # clients ?nl ?t')" by (simp add: clients_def)
  then have "heap_ok base (arrays ?t) (?c # clients ?nl ?t') ?w"
    using heap_ok_perm assms(1) unfolding heap_inv_def by blast
  moreover have "arrays ?t' = arrays ?t" by (simp add: close_conn_def arrays_def Let_def)
  ultimately have "heap_ok base (arrays ?t') (clients ?nl ?t') (snd (close_conn i ?t ?w))"
    unfolding close_conn_world [OF ok assms(2,3)] using heap_ok_close by metis
  then show ?thesis using assms(1) life_inv_close [OF lf assms(2,3)]
    by (simp add: heap_inv_def close_slot_def case_prod_unfold)
qed

lemma clients_poll:
  assumes "table_ok nl (sv_table s)"
  shows "clients nl (sv_table (c_poll revs s)) = clients nl (sv_table s)"
  unfolding clients_def c_poll_conns(2) [OF assms]
  by (rule nth_equalityI) (auto simp: conns_def)

interpretation ownership: loop_invariant env "heap_inv base env" for env base
proof (unfold_locales, goal_cases)
  case (1 s)
  then show ?case by (simp add: heap_inv_def life_inv_def)
next
  case (2 s i s')
  then show ?case by (blast intro: heap_inv_accept)
next
  case (3 s i)
  then show ?case by (blast intro: heap_inv_read)
next
  case (4 s i s')
  then show ?case by (blast intro: heap_inv_write)
next
  case (5 s i)
  then show ?case by (blast intro: heap_inv_close)
next
  case (6 s revs)
  then have ok: "table_ok (le_listeners env) (sv_table s)" and l: "life_inv (le_listeners env) s"
    by (simp_all add: heap_inv_def life_inv_def)
  have "sv_world (c_poll revs s) = sv_world s" "arrays (sv_table (c_poll revs s)) = arrays (sv_table s)"
    by (simp_all add: c_poll_def arrays_def)
  with 6 clients_poll [OF ok] life_inv_poll [OF l] show ?case by (simp add: heap_inv_def)
next
  case (7 s a b c)
  then show ?case by (simp add: heap_inv_def life_inv_def)
qed

section \<open>From start-up to exit\<close>

text \<open>What was there before \<^verbatim>\<open>main\<close>: with the descriptors of the listeners and the stream of the log.\<close>

definition before_loop :: "world \<Rightarrow> world \<Rightarrow> bool \<Rightarrow> outside" where
  "before_loop w w1 cgi =
     \<lparr>o_fds = w_fds w1, o_blocks = (if cgi then UNIV else dom (w_blocks w)),
      o_streams = (if cgi then dom (w_streams w1) else UNIV)\<rparr>"

lemma started_owned:
  assumes "main_init env sys so4 so6 argv w = Inr (cfg, lenv, l4, l6, t, w')" "world_ok w" "sane_os sys"
    and "\<forall>f \<in> set (w_faults w). benign f"
  shows "heap_inv (before_loop w w' (flag_set (le_flags lenv) C_FLAG)) lenv (start_server t w')"
proof -
  note m = main_init_ok(1) [OF assms(1,2)]
  let ?base = "before_loop w w' (flag_set (le_flags lenv) C_FLAG)"
  have "logging_on (app_flags cfg) \<Longrightarrow> log_ptr_of cfg \<noteq> None"
    using m logging_has_target by (cases "cfg_log cfg") (auto simp: log_ptr_of_def)
  then have "env_ok lenv" using m assms(3) by (simp add: env_ok_def)
  moreover have "life_inv (le_listeners lenv) (start_server t w')"
    using started_settled [OF assms(1,2)] by (simp add: settled_def)
  moreover have "clients (le_listeners lenv) t = []" using m by (simp add: clients_def)
  moreover have "exempt ?base (flag_set (le_flags lenv) C_FLAG)" by (simp add: exempt_def before_loop_def)
  moreover from main_init_ok(2) [OF assms(1,2)] obtain w1 where
    b: "w_blocks w' = w_blocks (booted env cfg (w1\<lparr>w_blocks := w_blocks w\<rparr>))"
    "arrays t = [(w_next w1, SIZEOF_POLLFD * INITIAL_SIZE), (Suc (w_next w1), SIZEOF_CLIENT * INITIAL_SIZE)]" by blast
  have "heap_ok ?base (arrays t) [] w'"
    using m assms(4) by (auto simp: heap_ok_def b booted_fields array_live_def before_loop_def)
  ultimately show ?thesis by (simp add: heap_inv_def start_server_def)
qed

lemma main_after_start:
  assumes "main env sys so4 so6 argv turns w = Some (EXIT_SUCCESS w2)"
  obtains cfg lenv l4 l6 t w1 s s1 where
    "main_init env sys so4 so6 argv w = Inr (cfg, lenv, l4, l6, t, w1)"
    "main_loop lenv True turns (start_server t w1) = Some (Inr s)"
    "close_all (le_listeners lenv) s = Some s1"
    "w2 = release_log (cfg_log cfg) (c_free (Some (t_clients_at (sv_table s1))) (c_free (Some (t_pfds_at (sv_table s1)))
       (c_magic_close (c_close l6 (c_close l4 (sv_world s1))))))"
  using assms by (auto simp: main_def shutdown_def Let_def split: sum.splits option.splits)

lemma reached_owned:
  assumes "main_init env sys so4 so6 argv w = Inr (cfg, lenv, l4, l6, t, w1)" "world_ok w" "sane_os sys" "w_faults w = []"
    and "reachable lenv (start_server t w1) s"
  shows "heap_inv (before_loop w w1 (flag_set (le_flags lenv) C_FLAG)) lenv s"
proof -
  have "heap_inv (before_loop w w1 (flag_set (le_flags lenv) C_FLAG)) lenv (start_server t w1)"
    by (rule started_owned [OF assms(1-3)]) (simp add: assms(4))
  then show ?thesis by (rule ownership.turns.reachable_keeps [OF assms(5)])
qed

text \<open>The end of \<^verbatim>\<open>main\<close>, with no connection left: both arrays are freed, and the log is closed.\<close>

lemma release_log_fields:
  "w_fds (release_log l w) = w_fds w" "w_blocks (release_log l w) = w_blocks w" "w_magic (release_log l w) = w_magic w"
  "dom (w_streams (release_log l w)) = dom (w_streams w) - log_streams l"
  "set (w_faults (release_log l w)) \<subseteq> set (w_faults w) \<union> {f. benign f}"
  by (cases l; auto simp: release_log_def c_fclose_stdout_def c_fclose_def raise_fault_def log_streams_def benign_def)+

lemma exit_world:
  fixes a b :: int and l :: log_target
  assumes "heap_ok base (arrays t) [] w"
  defines "w' \<equiv> release_log l (c_free (Some (t_clients_at t)) (c_free (Some (t_pfds_at t)) (c_magic_close (c_close a (c_close b w)))))"
  shows "w_fds w' d \<Longrightarrow> o_fds base d \<and> d \<noteq> a \<and> d \<noteq> b" "\<not> w_magic w'" "dom (w_blocks w') \<subseteq> o_blocks base"
    "dom (w_streams w') \<subseteq> o_streams base - log_streams l" "\<forall>f \<in> set (w_faults w'). benign f"
proof -
  let ?p = "t_pfds_at t" and ?q = "t_clients_at t"
  obtain v where v: "c_free (Some ?q) (c_free (Some ?p) (c_magic_close (c_close a (c_close b w)))) = v" by blast
  have live: "w_blocks w ?p \<noteq> None" "w_blocks w ?q \<noteq> None" "?p \<noteq> ?q"
    using assms(1) by (auto simp: heap_ok_def arrays_def array_live_def)
  then have v': "v = w\<lparr>w_fds := (w_fds w)(b := False, a := False), w_magic := False,
      w_blocks := (w_blocks w)(?p := None, ?q := None)\<rparr>"
    by (auto simp: v [symmetric] c_free_def c_magic_close_def c_close_def)
  have w': "w' = release_log l v" by (simp add: w'_def v)
  note r = release_log_fields [of l v, folded w']
  have h: "o_fds base d" if "w_fds w d" for d using assms(1) that by (auto simp: heap_ok_def)
  show "w_fds w' d \<Longrightarrow> o_fds base d \<and> d \<noteq> a \<and> d \<noteq> b" using h [of d] by (auto simp: r(1) v' split: if_splits)
  show "\<not> w_magic w'" by (simp add: r(3) v')
  have "w_blocks w i = None" if "i \<notin> o_blocks base" "i \<noteq> ?p" "i \<noteq> ?q" for i
    using assms(1) that by (auto simp: heap_ok_def arrays_def)
  then show "dom (w_blocks w') \<subseteq> o_blocks base" by (auto simp: r(2) v' split: if_splits) fastforce
  have "dom (w_streams w) \<subseteq> o_streams base" using assms(1) by (auto simp: heap_ok_def)
  then show "dom (w_streams w') \<subseteq> o_streams base - log_streams l" unfolding r(4) v' by auto
  have "\<forall>f \<in> set (w_faults v). benign f" using assms(1) by (simp add: heap_ok_def v')
  then show "\<forall>f \<in> set (w_faults w'). benign f" using r(5) by blast
qed

end
