(* ===== verification/Service.thy ===== *)
theory Service
  imports Heap_Safety
begin

text \<open>
  One request through the poll loop.  A turn that finds a slot readable and its request complete
  stages the reply; a turn that finds it writable sends the reply, closes the connection and
  takes it out of the table.  Then the two defects the loop shows: the stream of a served file
  is closed twice, and a slot in \<^verbatim>\<open>PROCESSING\<close> is never touched again.
\<close>

section \<open>The turn that reads\<close>

lemma slot_connection:
  assumes "heap_inv base env s" "le_listeners env \<le> i" "i < t_count (sv_table s)" "t_clients (sv_table s) ! i = Some c"
  obtains p where "t_pfds (sv_table s) ! i = Some p" "pfd_fd p = fd c" "life (p, c)"
proof -
  have ok: "table_ok (le_listeners env) (sv_table s)" using assms(1) by (simp add: heap_inv_def life_inv_def)
  then have "slot_ok (sv_table s) i" using assms(2,3) by (simp add: table_ok_def)
  then obtain p where p: "t_pfds (sv_table s) ! i = Some p" by (rule slot_okE)
  show thesis
    by (rule that [OF p slot_pair(3) [OF ok assms(2,3) p assms(4)] heap_inv_slot(3) [OF assms p]])
qed

lemma turn_stages_reply:
  assumes inv: "heap_inv base env s" and al: "\<forall>i. os_alloc (le_sys env) i"
    and i: "le_listeners env \<le> i" "i < t_count (sv_table s)"
    and c: "t_clients (sv_table s) ! i = Some c" "state c = READING" "input_ok c e (sv_world s)"
    and ev: "revents_at s i = POLLIN" "recv_ending (sv_in s (fd c)) = Idle"
      "length e + length (recv_bytes (sv_in s (fd c))) \<le> MAX_REQUEST_SIZE"
      "strnstr (e @ recv_bytes (sv_in s (fd c))) (CRLF @ CRLF) (length (e @ recv_bytes (sv_in s (fd c)))) = Some k"
  obtains s1 c1 where "slot_step env i s = Inr (False, s1)" "heap_inv base env s1"
    "t_count (sv_table s1) = t_count (sv_table s)" "t_clients (sv_table s1) ! i = Some c1"
    "state c1 = SENDING_HEADER" "fd c1 = fd c" "output_sent c1 = 0" "answered (sv_world s1) c1"
    "staged (sv_world s1) c1 (reply_bytes (le_sys env) (le_flags env) c (e @ recv_bytes (sv_in s (fd c))) (k + 4))"
    "w_wire (sv_world s1) = w_wire (sv_world s)" "sv_send s1 = sv_send s"
    "clients (le_listeners env) (sv_table s1) = (clients (le_listeners env) (sv_table s))[i - le_listeners env := c1]"
proof -
  have ok: "table_ok (le_listeners env) (sv_table s)" and env: "env_ok env" and w: "world_ok (sv_world s)"
    using inv by (simp_all add: heap_inv_def life_inv_def heap_ok_def)
  from inv i c(1) obtain p where p: "t_pfds (sv_table s) ! i = Some p" "pfd_fd p = fd c" "life (p, c)"
    by (rule slot_connection)
  have l: "out_buf c = None" "output_sent c = 0" "length (client_addr c) < INET6_ADDRSTRLEN"
    using p(3) c(2) by (simp_all add: life_def)
  have sane: "sane_os (le_sys env)" "logging_on (le_flags env) \<Longrightarrow> le_log env \<noteq> None" using env by (simp_all add: env_ok_def)
  obtain c1 es1 w1 where r:
    "read_conn (le_sys env) (le_flags env) (le_log env) c p (sv_in s (fd c)) (sv_world s) = (c1, p\<lparr>pfd_events := POLLOUT\<rparr>, es1, w1)"
    "state c1 = SENDING_HEADER" "fd c1 = fd c" "output_sent c1 = 0" "answered w1 c1"
    "staged w1 c1 (reply_bytes (le_sys env) (le_flags env) c (e @ recv_bytes (sv_in s (fd c))) (k + 4))"
    "w_wire w1 = w_wire (sv_world s)"
    using request_read [OF sane(1) al w c(2) l c(3) ev(2-4), of "le_flags env" "le_log env" p] sane(2) by blast
  have s1: "read_slot env i s = s\<lparr>sv_table := (sv_table s)\<lparr>t_clients := (t_clients (sv_table s))[i := Some c1],
        t_pfds := (t_pfds (sv_table s))[i := Some (p\<lparr>pfd_events := POLLOUT\<rparr>)]\<rparr>, sv_world := w1, sv_in := (sv_in s)(fd c := es1)\<rparr>"
    using r(1) c(1) p(1) by (simp add: read_slot_def do_read_def fd_at_def)
  have n: "i < length (t_clients (sv_table s))" using ok i by (simp add: table_ok_def)
  have st: "state_at s i = READING" using c by (simp add: state_at_def)
  have step: "slot_step env i s = Inr (False, read_slot env i s)"
    by (rule slot_step_reads [OF i(1) ev(1) st]) (use n r(2) in \<open>simp add: s1 state_at_def\<close>)
  have "pfd_fd (p\<lparr>pfd_events := POLLOUT\<rparr>) = fd c1" using p(2) r(3) by simp
  from set_slot_ok(2) [OF ok i this]
  have cl: "clients (le_listeners env) (sv_table (read_slot env i s)) = (clients (le_listeners env) (sv_table s))[i - le_listeners env := c1]"
    by (simp add: s1 clients_def clients_update)
  show thesis
    by (rule that [OF step heap_inv_read [OF inv i st] _ _ r(2-4) _ _ _ _ cl]) (use n r in \<open>simp_all add: s1\<close>)
qed

section \<open>The turn that writes\<close>

lemma release_client_wire: "w_wire (release_client c w) = w_wire w"
  by (simp add: release_client_def Let_def world_simps split: option.split)

lemma close_slot_client:
  assumes inv: "heap_inv base env s" and i: "le_listeners env \<le> i" "i < t_count (sv_table s)"
    and c: "t_clients (sv_table s) ! i = Some c"
  shows "sv_world (close_slot i s) = release_client c (sv_world s)"
    "w_fds (sv_world (close_slot i s)) = (w_fds (sv_world s))(fd c := False)"
    "mset (clients (le_listeners env) (sv_table s)) = add_mset c (mset (clients (le_listeners env) (sv_table (close_slot i s))))"
proof -
  have ok: "table_ok (le_listeners env) (sv_table s)" using inv by (simp add: heap_inv_def life_inv_def)
  from inv i c obtain p where p: "t_pfds (sv_table s) ! i = Some p" by (rule slot_connection)
  have nth: "snd (conns (le_listeners env) (sv_table s) ! (i - le_listeners env)) = c"
    using slot_pair(2) [OF ok i p c] by simp
  show w: "sv_world (close_slot i s) = release_client c (sv_world s)"
    using close_conn_world [OF ok i, of "sv_world s"] nth by (simp add: close_slot_def case_prod_unfold)
  show "w_fds (sv_world (close_slot i s)) = (w_fds (sv_world s))(fd c := False)"
    using release_client_frees heap_inv_slot(1,2) [OF inv i c p] by (simp add: w)
  show "mset (clients (le_listeners env) (sv_table s)) = add_mset c (mset (clients (le_listeners env) (sv_table (close_slot i s))))"
    using arg_cong [OF mset_conns_close [OF ok i, of "sv_world s"], of "image_mset snd"] nth
    by (simp add: clients_def close_slot_def case_prod_unfold)
qed

lemma turn_sends_reply:
  assumes inv: "heap_inv base env s" and i: "le_listeners env \<le> i" "i < t_count (sv_table s)"
    and c: "t_clients (sv_table s) ! i = Some c" "state c = SENDING_HEADER" "output_sent c = 0"
      "staged (sv_world s) c d" "d \<noteq> []"
    and ev: "revents_at s i = POLLOUT" "\<forall>x \<in> set (sv_send s (fd c)). 0 < x"
  obtains s2 where "slot_step env i s = Inr (True, s2)" "heap_inv base env s2"
    "w_wire (sv_world s2) = (w_wire (sv_world s))(fd c := w_wire (sv_world s) (fd c) @ d)"
    "\<not> w_fds (sv_world s2) (fd c)"
    "mset (clients (le_listeners env) (sv_table s)) = add_mset c (mset (clients (le_listeners env) (sv_table s2)))"
proof -
  let ?nl = "le_listeners env" and ?k = "i - le_listeners env" and ?xs = "clients (le_listeners env) (sv_table s)"
  have ok: "table_ok ?nl (sv_table s)" using inv by (simp add: heap_inv_def life_inv_def)
  from inv i c(1) obtain p where p: "t_pfds (sv_table s) ! i = Some p" "pfd_fd p = fd c" by (rule slot_connection)
  obtain c2 script w2 where w: "write_conn c (sv_send s (fd c)) (sv_world s) = Inr (c2, script, w2)"
    "w2 = c_shutdown (fd c) (put_wire (fd c) d (sv_world s))" "state c2 = CLOSING" "fd c2 = fd c"
    using write_conn_sends [OF c(4,3) ev(2) c(5)] by blast
  define s1 where "s1 = s\<lparr>sv_table := (sv_table s)\<lparr>t_clients := (t_clients (sv_table s))[i := Some c2]\<rparr>,
      sv_world := w2, sv_send := (sv_send s)(fd c := script)\<rparr>"
  have ws: "write_slot i s = Inr s1" using w(1) c(1) by (simp add: write_slot_def do_write_def fd_at_def s1_def)
  have inv1: "heap_inv base env s1" by (rule heap_inv_write [OF inv i ws])
  have n: "i < length (t_clients (sv_table s))" using ok i by (simp add: table_ok_def)
  have step: "slot_step env i s = Inr (True, close_slot i s1)"
    by (rule slot_step_writes [OF i(1) ev(1) _ ws]) (use c n w(3) in \<open>simp_all add: state_at_def s1_def\<close>)
  have i1: "i < t_count (sv_table s1)" and ok1: "table_ok ?nl (sv_table s1)"
    using i inv1 by (simp_all add: s1_def heap_inv_def life_inv_def)
  have c1: "t_clients (sv_table s1) ! i = Some c2" "t_pfds (sv_table s1) ! i = Some p" using n p(1) by (simp_all add: s1_def)
  have same: "(t_pfds (sv_table s))[i := Some p] = t_pfds (sv_table s)" using p(1) by (metis list_update_id)
  have "pfd_fd p = fd c2" using p(2) w(4) by simp
  from set_slot_ok(2) [OF ok i this, unfolded same] have xs1: "clients ?nl (sv_table s1) = ?xs[?k := c2]"
    by (simp add: s1_def clients_def clients_update)
  note cl = close_slot_client [OF inv1 i(1) i1 c1(1)]
  have k: "?k < length ?xs" "?xs ! ?k = c" using heap_inv_slot(5,6) [OF inv i c(1) p(1)] .
  from front [OF k(1)] obtain rest where "mset ?xs = mset (c # rest)" "mset (?xs[?k := c2]) = mset (c2 # rest)"
    unfolding k(2) by metis
  with cl(3) have m: "mset ?xs = add_mset c (mset (clients ?nl (sv_table (close_slot i s1))))" by (simp add: xs1)
  show thesis
    by (rule that [OF step heap_inv_close [OF inv1 i(1) i1] _ _ m])
      (use cl w(2,4) in \<open>simp_all add: s1_def release_client_wire c_shutdown_def put_wire_def\<close>)
qed

section \<open>A served file\<close>

lemma serve_plain_file:
  assumes sane: "sane_os sys" and ok: "world_ok w"
    and s: "serve_request sys fl c le w = (c', rp, le', w')"
    and p: "parse_request sys fl (Some (block_data w (in_buf c))) (header_len c) zero_Request (resp_val c) le w =
      (0, req, resp, le1, w)"
    and r: "resource_of sys fl (local_path_of (req_path req)) = Plain_file f m"
  shows "\<exists>h. w_next w \<le> h \<and> file_ptr c' = Some h \<and> rp_file_ptr rp = Some h"
proof -
  have st: "stat_works sys" using sane by (simp add: sane_os_def)
  obtain rc2 c2 rp2 w2 where x: "resolve_path sys fl (c\<lparr>resp_val := resp\<rparr>) req zero_ResolvedPath w = (rc2, c2, rp2, w2)"
    using prod_cases4 by blast
  from ok st x obtain h where h: "rc2 = 0" "file_ptr c2 = Some h" "rp_file_ptr rp2 = Some h" "w_next w \<le> h"
    by (cases rule: resolve_path_cases) (use r in auto)
  obtain rc3 c3 w3 where b: "build_okay_response sys fl c2 rp2 req w2 = (rc3, c3, w3)" using prod_cases3 by blast
  have "c' = c3" "rp = rp2" using serve_request_built [OF p _ b] x h(1) s by auto
  moreover have "file_ptr c3 = file_ptr c2" using build_okay_frame [OF b] by (simp add: conn_part_def)
  ultimately show ?thesis using h by auto
qed

lemma release_twice:
  assumes "file_ptr c = Some h" "w_streams w h = None"
  shows "DoubleFclose h \<in> set (w_faults (release_client c w))"
proof -
  have "DoubleFclose h \<in> set (w_faults (c_fclose h (c_close (fd c) w)))" using assms(2) by (simp add: world_simps)
  moreover have "set (w_faults v) \<subseteq> set (w_faults (c_free q v))" for q v
    by (auto simp: c_free_def raise_fault_def split: option.split)
  ultimately show ?thesis unfolding release_client_def Let_def assms(1) option.case by blast
qed

text \<open>A request line with no verdict against it is parsed, and the world stays as it was.\<close>

lemma accepted_parse:
  assumes "sane_os sys" "log_ok l" "le_offset l \<le> INET6_ADDRSTRLEN" "n \<le> MAX_REQUEST_SIZE" "parse_verdict e n = None"
  shows "\<exists>req resp le. parse_request sys fl (Some e) n zero_Request r l w = (0, req, resp, le, w)"
proof -
  obtain rc req resp le w1 where p: "parse_request sys fl (Some e) n zero_Request r l w = (rc, req, resp, le, w1)"
    using prod_cases5 by blast
  have "w1 = w" "rc = 0"
    using parse_request_bounds [OF assms(4,2) log_has_room [OF assms(1,3,4)], of fl "Some e" zero_Request r w]
      parse_request_spec [of sys fl e n zero_Request r l w] assms(5)
    by (simp_all add: p Let_def result_defs)
  with p show ?thesis by blast
qed

lemma handle_plain_file:
  assumes sane: "sane_os sys" and ok: "world_ok w" and addr: "length (client_addr c) < INET6_ADDRSTRLEN"
    and inp: "input_ok c e w" "strnstr e (CRLF @ CRLF) (length e) = Some k"
    and acc: "parse_verdict e (k + 4) = None"
      "resource_of sys fl (local_path_of (req_path (parsed_request sys e (k + 4)))) = Plain_file f m"
    and h: "handle_request sys fl log_ptr c p w = (c', p', w')"
  shows "\<exists>h. w_next w \<le> h \<and> file_ptr c' = Some h \<and> w_streams w' h = None"
proof -
  let ?c = "c\<lparr>header_len := k + 4\<rparr>"
  from inp addr obtain l where l: "log_ok l" "le_offset l \<le> INET6_ADDRSTRLEN" "block_data w (in_buf c) = e"
    "k + 4 \<le> MAX_REQUEST_SIZE"
    and u: "handle_request sys fl log_ptr c p w =
       (case serve_request sys fl ?c l w of (c2, rp, le, w2) \<Rightarrow>
          (c2\<lparr>state := SENDING_HEADER\<rparr>, p\<lparr>pfd_events := POLLOUT\<rparr>,
           snd (close_resolve_path_ptr rp (log_reply fl log_ptr c2 le w2))))"
    by (rule handle_request_unfold [where fl = fl]) blast
  obtain req resp le1 where p0: "parse_request sys fl (Some e) (k + 4) zero_Request (resp_val c) l w = (0, req, resp, le1, w)"
    using accepted_parse [OF sane l(1,2,4) acc(1)] by blast
  obtain c2 rp le2 w2 where s: "serve_request sys fl ?c l w = (c2, rp, le2, w2)" using prod_cases4 by blast
  have "\<exists>h. w_next w \<le> h \<and> file_ptr c2 = Some h \<and> rp_file_ptr rp = Some h"
    by (rule serve_plain_file [OF sane ok s, of req resp le1 f m])
      (use p0 acc(2) parse_request_parsed(1) [OF p0] in \<open>simp_all add: l(3)\<close>)
  then obtain h where hh: "w_next w \<le> h" "file_ptr c2 = Some h" "rp_file_ptr rp = Some h" by blast
  have "(c', p', w') = (c2\<lparr>state := SENDING_HEADER\<rparr>, p\<lparr>pfd_events := POLLOUT\<rparr>, c_fclose h (log_reply fl log_ptr c2 le2 w2))"
    using h unfolding u s by (simp add: close_resolve_path_ptr_def hh(3))
  with hh(1,2) show ?thesis by (auto simp: world_simps)
qed

section \<open>A slot nobody serves\<close>

lemma slot_step_processing:
  assumes "le_listeners env \<le> i" "state_at s i = PROCESSING" "\<not> has (revents_at s i) (POLLERR OR POLLHUP OR POLLNVAL)"
  shows "slot_step env i s = Inr (False, s)"
  using assms by (simp add: slot_step_def Let_def)

lemma read_oversized:
  assumes "input_ok c e w" "world_ok w" "state c = READING" "\<forall>i. os_alloc sys i"
    and "MAX_REQUEST_SIZE < length e + length (recv_bytes es)" "read_conn sys fl log_ptr c p es w = (c', p', es', w')"
  shows "state c' = PROCESSING \<and> resp_val c' = RESP_414 \<and> p' = p \<and> out_buf c' = out_buf c \<and> w_wire w' = w_wire w"
proof -
  obtain g c1 es1 w1 where r: "recv_loop sys c es w = (g, c1, es1, w1)" using prod_cases4 by blast
  from recv_loop_post [OF assms(1-3), of sys es, unfolded r] assms(4,5)
  have "\<not> g" "state c1 = PROCESSING" "resp_val c1 = RESP_414" "rest_part c1 = rest_part c" "w_wire w1 = w_wire w"
    by (auto simp: recv_post_def input_ok_def moved_def same_rest_def split: if_splits)
  with assms(6) r show ?thesis by (simp add: read_conn_def rest_part_def)
qed

section \<open>A sample run\<close>

lemma sample_no_faults: "w_faults empty_world = []"
  by (simp add: empty_world_def)

text \<open>A server that accepts one connection, and one whose only connection has a request waiting.\<close>

definition sample_start :: server where
  "sample_start = start_server (init_table 0 1 [3, 4]) (sample_listening 8080)"

definition sample_arrival :: server where
  "sample_arrival = sample_start\<lparr>sv_in := (\<lambda>_. []),
     sv_accept := (\<lambda>_. [])(3 := [Conn 7 True (Some ''10.0.0.1'')]), sv_send := (\<lambda>_. [])\<rparr>"

definition sample_events :: "nat \<Rightarrow> 16 word" where
  "sample_events i = (if i = 0 then POLLIN else 0)"

lemmas sample_round_defs = sample_arrival_def sample_start_def start_server_def init_table_def c_poll_def INITIAL_SIZE_def
  listener_pfd_def slot_step_def sample_loop_env_def revents_at_def has_def POLLIN_def accept_slot_def Let_def add_to_lists_def
  grow_lists_def update_client_def sample_listening_def c_accept_def sample_events_def

lemma sample_accepts_one:
  "\<exists>s. slot_step sample_loop_env 0 (c_poll sample_events sample_arrival) = Inr (False, s) \<and>
     t_count (sv_table s) = 3 \<and> revents_at s 1 = 0 \<and> revents_at s 2 = 0 \<and> map fd (clients 2 (sv_table s)) = [7]"
  by (simp add: sample_round_defs clients_def conns_def init_client_def eval_nat_numeral)

lemma sample_round:
  "\<exists>s. poll_round sample_loop_env (Polled sample_events) sample_arrival = Some (Inr s) \<and> map fd (clients 2 (sv_table s)) = [7]"
proof -
  let ?s = "c_poll sample_events sample_arrival"
  from sample_accepts_one obtain s where s: "slot_step sample_loop_env 0 ?s = Inr (False, s)" "t_count (sv_table s) = 3"
    "revents_at s 1 = 0" "revents_at s 2 = 0" "map fd (clients 2 (sv_table s)) = [7]"
    by (elim exE conjE)
  have "{1..<3} = {1, 2 :: nat}" by auto
  then have "sweep sample_loop_env 1 s = Some (Inr s)" using s(2-4) by (intro sweep_quiet) simp
  moreover have "t_count (sv_table ?s) = 2" by (simp add: sample_arrival_def sample_start_def start_server_def init_table_def)
  ultimately have "sweep sample_loop_env 0 ?s = Some (Inr s)" using s(1) by (subst sweep.simps) simp
  with s(5) show ?thesis by (simp add: poll_round_def)
qed

lemma sample_reached: "\<exists>s. reachable sample_loop_env sample_start s \<and> map fd (clients 2 (sv_table s)) = [7]"
proof -
  from sample_round obtain s where s: "poll_round sample_loop_env (Polled sample_events) sample_arrival = Some (Inr s)"
    "map fd (clients 2 (sv_table s)) = [7]" by (elim exE conjE)
  have "main_step sample_loop_env sample_start sample_arrival" unfolding sample_arrival_def by (rule main_step.network)
  from reachable.step [OF reachable.step [OF reachable.start this] main_step.round [OF s(1)]] s(2) show ?thesis by (intro exI conjI)
qed

definition sample_serving :: server where
  "sample_serving =
     \<lparr>sv_table =
        \<lparr>t_pfds_at = 0, t_clients_at = 1,
         t_pfds = [listener_pfd 3, Some \<lparr>pfd_fd = 5, pfd_events = POLLIN, pfd_revents = POLLIN\<rparr>],
         t_clients = [None, Some sample_Client], t_count = 2, t_size = 2\<rparr>,
      sv_world = empty_world\<lparr>w_next := 2, w_fds := (\<lambda>d. d \<in> {3, 5}),
        w_blocks := [0 \<mapsto> \<lparr>b_size = SIZEOF_POLLFD * 2, b_data = []\<rparr>, 1 \<mapsto> \<lparr>b_size = SIZEOF_CLIENT * 2, b_data = []\<rparr>]\<rparr>, sv_in = (\<lambda>_. [Data sample_input]), sv_accept = (\<lambda>_. []),
      sv_send = (\<lambda>_. [3, 10])\<rparr>"

definition sample_env :: loop_env where
  "sample_env = \<lparr>le_sys = sample_os, le_flags = 0, le_log = None, le_listeners = 1\<rparr>"

definition sample_outside :: outside where
  "sample_outside = \<lparr>o_fds = (\<lambda>d. d = 3), o_blocks = {}, o_streams = UNIV\<rparr>"

lemma sample_serving_simps:
  "arrays (sv_table sample_serving) = [(0, SIZEOF_POLLFD * 2), (1, SIZEOF_CLIENT * 2)]"
  "conns 1 (sv_table sample_serving) = [(\<lparr>pfd_fd = 5, pfd_events = POLLIN, pfd_revents = POLLIN\<rparr>, sample_Client)]"
  "w_blocks (sv_world sample_serving) =
     [0 \<mapsto> \<lparr>b_size = SIZEOF_POLLFD * 2, b_data = []\<rparr>, 1 \<mapsto> \<lparr>b_size = SIZEOF_CLIENT * 2, b_data = []\<rparr>]"
  "w_next (sv_world sample_serving) = 2" "w_faults (sv_world sample_serving) = []"
  "w_streams (sv_world sample_serving) i = None" "w_fds (sv_world sample_serving) d = (d = 3 \<or> d = 5)"
  by (simp_all add: arrays_def sample_serving_def conns_def upt_rec empty_world_def)

lemma sample_serving_heap: "heap_ok sample_outside (arrays (sv_table sample_serving)) [sample_Client] (sv_world sample_serving)"
proof -
  have "world_ok (sv_world sample_serving)" by (simp add: world_ok_def sample_serving_simps)
  moreover have "client_heap sample_Client (sv_world sample_serving)" "owned sample_Client = []" "fd sample_Client = 5"
    by (simp_all add: client_heap_def owned_def sample_Client_def input_ok_def)
  ultimately show ?thesis
    by (simp add: heap_ok_def sample_serving_simps array_live_def sample_outside_def)
qed

lemma sample_serving_inv: "heap_inv sample_outside sample_env sample_serving"
proof -
  have "env_ok sample_env" using sample_os_sane by (simp add: env_ok_def sample_env_def logging_on_def)
  moreover have "table_ok 1 (sv_table sample_serving)"
    by (simp add: table_ok_def sample_serving_def slot_ok_def sample_Client_def listener_pfd_def)
  moreover have "exempt sample_outside (flag_set (le_flags sample_env) C_FLAG)"
    by (simp add: exempt_def sample_outside_def sample_env_def)
  moreover have "life (\<lparr>pfd_fd = 5, pfd_events = POLLIN, pfd_revents = POLLIN\<rparr>, sample_Client)" "le_listeners sample_env = 1"
    by (simp_all add: life_def sample_Client_def INET6_ADDRSTRLEN_def sample_env_def)
  ultimately show ?thesis
    using sample_serving_heap sample_serving_simps(2) by (simp add: heap_inv_def life_inv_def clients_def)
qed

end
