(* ===== verification/Leaks.thy ===== *)
theory Leaks
  imports Service
begin

text \<open>
  The two objects the server forgets.  After a CGI response has been built the buffer with the
  script's output is live, and nothing refers to it.  After a request for a script while CGI is
  disabled the stream of the script is open, and nothing refers to it.  These are the cases the
  record \<open>outside\<close> exempts in the invariant of the heap: in all others every block and every
  stream has its owner.
\<close>

section \<open>The output of a script\<close>

text \<open>
  C38: the output of a script is forgotten.  Whenever the CGI builder succeeds, a block that was
  not there before holds the whole output of the script, and it is neither of the two buffers of
  the connection: nothing will free it.
\<close>

theorem cgi_output_forgotten:
  assumes "build_response_cgi sys fl c rp req w = (0, c', w')" "cgi_ready sys c rp req w"
    and "\<forall>i. in_buf c = Some i \<longrightarrow> w_blocks w i \<noteq> None"
  shows "\<exists>b. w_blocks w b = None \<and> w_blocks w' b \<noteq> None \<and> block_data w' (Some b) = cgi_body sys c rp req \<and>
     b \<notin> set (owned c')"
proof -
  from assms(1) obtain rfd wfd where
    co: "cgi_collect sys c req rfd (cgi_run_of sys c rp req)
       (c_close wfd (fault_if (PATH_MAX < length (cgi_script req)) StackOverrun (c_pipe (rfd, wfd) w))) = (0, c', w')"
    (is "cgi_collect _ _ _ _ _ ?w = _")
    by (rule build_response_cgi_collects)
  have ok: "world_ok w" "world_ok ?w" using assms(2) by (simp_all add: cgi_ready_def world_ok_pipe)
  from co ok(2) show ?thesis
  proof (cases rule: cgi_collect_cases)
    case (assembles d buf cap w3)
    have d: "d = cgi_body sys c rp req" using assembles(1) by (simp add: cgi_body_def)
    have fits: "length (cgi_header (time_received req) (length d)) < MAX_HEADER_BUF"
      using assms(2) by (intro cgi_header_fits) (simp_all add: cgi_ready_def d)
    have al: "os_alloc sys (w_next w3)" using cgi_assemble_fields(3) [OF assembles(7)] by simp
    note e = cgi_assemble_ok [OF assembles(3,4) fits al, where c = c]
    have b: "buf < w_next w3" using assembles(3,4) by (auto simp: holds_def dest: world_ok_live(2))
    have dead: "w_blocks w buf = None" using assembles(8) ok(1) by (simp add: world_ok_fresh c_pipe_def world_simps)
    have c': "out_buf c' = Some (w_next w3)" "in_buf c' = in_buf c" "w_blocks w' buf = w_blocks w3 buf"
      using assembles(7) b unfolding e by auto
    have "in_buf c \<noteq> Some buf" using dead assms(3) by auto
    then have "buf \<notin> set (owned c')" using c' b by (auto simp: owned_def split: option.splits)
    with dead c'(3) assembles(3) d show ?thesis by (intro exI [of _ buf]) (simp add: holds_def block_data_def)
  qed simp
qed

theorem cgi_output_forgotten_witness:
  "\<exists>c' w' b. build_response_cgi sample_os 1 sample_Client zero_ResolvedPath (sample_request ''/cgi-bin/x'') empty_world =
      (0, c', w') \<and> block_data w' (Some b) = ''ok'' \<and> b \<notin> set (owned c')"
proof -
  let ?req = "sample_request ''/cgi-bin/x''"
  let ?b = "build_response_cgi sample_os 1 sample_Client zero_ResolvedPath ?req empty_world"
  have c: "cgi_output (cgi_run_of sample_os sample_Client zero_ResolvedPath ?req) = [Data ''ok'']"
    by (simp add: cgi_run_of_def sample_os_def)
  have rdy: "cgi_ready sample_os sample_Client zero_ResolvedPath ?req empty_world"
    by (simp add: cgi_ready_def cgi_body_def c TIME_RECEIVED_LENGTH_def PATH_MAX_def)
  obtain c' w' where b: "?b = (0, c', w')" using sample_cgi_built by blast
  have "cgi_body sample_os sample_Client zero_ResolvedPath ?req = ''ok''" by (simp add: cgi_body_def c)
  moreover have "\<forall>i. in_buf sample_Client = Some i \<longrightarrow> w_blocks empty_world i \<noteq> None" by (simp add: sample_Client_def)
  ultimately show ?thesis using cgi_output_forgotten [OF b rdy] b by auto
qed

section \<open>The stream of a refused script\<close>

lemma error_reply_file_ptr: "error_reply sys c req w = (c', w') \<Longrightarrow> file_ptr c' = file_ptr c \<and> resp_val c' = resp_val c"
  by (auto simp: error_reply_def build_error_response_def write_error_response_def Let_def
      split: if_splits option.splits prod.splits)

lemma serve_refused_script:
  assumes sane: "sane_os sys" and ok: "world_ok w"
    and s: "serve_request sys fl c le w = (c', rp, le', w')"
    and p: "parse_request sys fl (Some (block_data w (in_buf c))) (header_len c) zero_Request (resp_val c) le w =
      (0, req, resp, le1, w)"
    and r: "\<not> flag_set fl C_FLAG" "path_includes_cgi (local_path_of (req_path req))"
      "os_fopen sys (local_path_of (req_path req)) = Inr f"
  shows "w_streams w' (w_next w) \<noteq> None \<and> file_ptr c' = file_ptr c \<and> resp_val c' = RESP_501 \<and> rp_file_ptr rp = None"
proof -
  have st: "stat_works sys" using sane by (simp add: sane_os_def)
  obtain rc2 c2 rp2 w2 where x: "resolve_path sys fl (c\<lparr>resp_val := resp\<rparr>) req zero_ResolvedPath w = (rc2, c2, rp2, w2)"
    using prod_cases4 by blast
  have "resource_of sys fl (local_path_of (req_path req)) = Refused RESP_501" using r by (simp add: resource_of_def)
  with ok st x have h: "rc2 \<noteq> 0" "file_ptr c2 = file_ptr c" "resp_val c2 = RESP_501" "rp_file_ptr rp2 = None"
    "w_streams w2 (w_next w) \<noteq> None"
    by (cases rule: resolve_path_cases; use r in \<open>auto split: if_splits\<close>)+
  obtain c3 w3 where b: "error_reply sys c2 req w2 = (c3, w3)" by (rule prod.exhaust)
  have "c' = c3" "rp = rp2" "w' = w3" using serve_request_refused [OF p x h(1) b] s by auto
  with error_reply_file_ptr [OF b] error_reply_within(2) [OF b] h show ?thesis by simp
qed

text \<open>
  C39: the stream of a refused script is forgotten.  With CGI disabled, a request for a file below
  the CGI directory is answered with 501 and leaves a stream open that was not open before, while
  the connection refers to no stream: nothing will close it.
\<close>

theorem refused_script_forgotten:
  assumes "sane_os sys" "world_ok w" "length (client_addr c) < INET6_ADDRSTRLEN" "file_ptr c = None"
    and "input_ok c e w" "strnstr e (CRLF @ CRLF) (length e) = Some k" "parse_verdict e (k + 4) = None"
    and "\<not> flag_set fl C_FLAG" "path_includes_cgi (local_path_of (req_path (parsed_request sys e (k + 4))))"
      "os_fopen sys (local_path_of (req_path (parsed_request sys e (k + 4)))) = Inr f"
    and "handle_request sys fl log_ptr c p w = (c', p', w')"
  shows "resp_val c' = RESP_501 \<and> file_ptr c' = None \<and> (\<exists>h. w_streams w h = None \<and> w_streams w' h \<noteq> None)"
proof -
  let ?c = "c\<lparr>header_len := k + 4\<rparr>"
  from assms(5,6,3) obtain l where l: "log_ok l" "le_offset l \<le> INET6_ADDRSTRLEN" "block_data w (in_buf c) = e"
    "k + 4 \<le> MAX_REQUEST_SIZE"
    and u: "handle_request sys fl log_ptr c p w =
       (case serve_request sys fl ?c l w of (c2, rp, le, w2) \<Rightarrow>
          (c2\<lparr>state := SENDING_HEADER\<rparr>, p\<lparr>pfd_events := POLLOUT\<rparr>,
           snd (close_resolve_path_ptr rp (log_reply fl log_ptr c2 le w2))))"
    by (rule handle_request_unfold [where fl = fl]) blast
  obtain c2 rp le2 w2 where s: "serve_request sys fl ?c l w = (c2, rp, le2, w2)" using prod_cases4 by blast
  obtain req resp le1 where q: "parse_request sys fl (Some e) (k + 4) zero_Request (resp_val c) l w = (0, req, resp, le1, w)"
    using accepted_parse [OF assms(1) l(1,2,4) assms(7)] by blast
  have "w_streams w2 (w_next w) \<noteq> None \<and> file_ptr c2 = file_ptr ?c \<and> resp_val c2 = RESP_501 \<and> rp_file_ptr rp = None"
    by (rule serve_refused_script [OF assms(1,2) s, of req resp le1 f])
      (use q assms(8-10) parse_request_parsed(1) [OF q] in \<open>simp_all add: l(3)\<close>)
  moreover have "c' = c2\<lparr>state := SENDING_HEADER\<rparr>" "w' = snd (close_resolve_path_ptr rp (log_reply fl log_ptr c2 le2 w2))"
    using assms(11) unfolding u s by simp_all
  moreover have "w_streams w (w_next w) = None" using assms(2) by (simp add: world_ok_fresh)
  ultimately show ?thesis
    using log_reply_streams [of fl log_ptr c2 le2 w2] assms(4) by (auto simp: close_resolve_path_ptr_def)
qed

text \<open>A connection whose buffer holds a request for a script.\<close>

definition sample_script_input :: bytes where
  "sample_script_input = render_request ''GET'' ''/cgi-bin/x'' ''HTTP/1.0'' []"

definition sample_asking :: Client where
  "sample_asking = sample_Client\<lparr>in_buf := Some 0, input_length := length sample_script_input, input_capacity := 1024\<rparr>"

definition sample_asking_world :: world where
  "sample_asking_world = empty_world\<lparr>w_next := 1, w_blocks := [0 \<mapsto> \<lparr>b_size = 1024, b_data = sample_script_input\<rparr>]\<rparr>"

lemma sample_asking_ok:
  "world_ok sample_asking_world" "length (client_addr sample_asking) < INET6_ADDRSTRLEN" "file_ptr sample_asking = None"
  "input_ok sample_asking sample_script_input sample_asking_world"
  "strnstr sample_script_input (CRLF @ CRLF) (length sample_script_input) = Some 23"
proof -
  have k: "\<exists>k\<le>3. (1024 :: nat) = 1024 * 2 ^ k" by (rule exI [of _ 0]) simp
  show "world_ok sample_asking_world" "length (client_addr sample_asking) < INET6_ADDRSTRLEN" "file_ptr sample_asking = None"
    by (simp_all add: sample_asking_def sample_Client_def sample_asking_world_def world_ok_def empty_world_def INET6_ADDRSTRLEN_def)
  show "input_ok sample_asking sample_script_input sample_asking_world"
    using k by (simp add: input_ok_def sample_asking_def sample_asking_world_def holds_def sample_script_input_def
        render_request_def MAX_REQUEST_SIZE_def)
  show "strnstr sample_script_input (CRLF @ CRLF) (length sample_script_input) = Some 23"
    by (simp add: strnstr_def sample_script_input_def render_request_def cstr_def)
qed

theorem refused_script_forgotten_witness:
  "\<exists>c' p' w' h. handle_request sample_os 0 None sample_asking \<lparr>pfd_fd = 5, pfd_events = POLLIN, pfd_revents = 1\<rparr>
       sample_asking_world = (c', p', w') \<and> resp_val c' = RESP_501 \<and> file_ptr c' = None \<and> w_streams w' h \<noteq> None"
proof -
  obtain c' p' w' where h: "handle_request sample_os 0 None sample_asking \<lparr>pfd_fd = 5, pfd_events = POLLIN, pfd_revents = 1\<rparr>
       sample_asking_world = (c', p', w')" using prod_cases3 by blast
  have l: "request_line sample_script_input 27 = Some ''GET /cgi-bin/x HTTP/1.0''"
    by (simp add: request_line_def strnstr_def cstr_def sample_script_input_def render_request_def)
  have ws: "split_words SP ''GET /cgi-bin/x HTTP/1.0'' = [''GET'', ''/cgi-bin/x'', ''HTTP/1.0'']" by (simp add: split_words_def)
  have "local_path_of ''/cgi-bin/x'' = ''./cgi-bin/x''" by (simp add: local_path_of_eq PATH_MAX_def)
  then have p: "local_path_of (req_path (parsed_request sample_os sample_script_input (23 + 4))) = ''./cgi-bin/x''"
    by (simp add: parsed_request_def l ws)
  have r: "path_includes_cgi ''./cgi-bin/x''" "os_fopen sample_os ''./cgi-bin/x'' = Inr sample_file" "\<not> flag_set 0 C_FLAG"
    by (simp_all add: path_includes_cgi_def strnstr_def cstr_def sample_os_def)
  have v: "parse_verdict sample_script_input (23 + 4) = None"
    by (simp add: parse_verdict_def line_verdict_def l ws sublist_Cons_right PATH_MAX_def)
  from refused_script_forgotten [OF sample_os_sane sample_asking_ok v r(3) _ _ h] r h show ?thesis unfolding p by blast
qed

end
