(* ===== verification/Fairness.thy ===== *)
theory Fairness
  imports Lifecycle
begin

text \<open>
  What one round of the poll loop visits.  The loop over the slots closes connections while it
  runs: the last slot moves into the gap and the index stays.  The relation \<open>swept\<close> records the
  connections the loop looks at, each as it is at that moment; it agrees with \<open>sweep\<close>.  The
  theorem compares the record with the table at the start: every connection is visited exactly
  once, in the state it had then, so that no turn is lost, repeated or influenced by the turn of
  another connection.
\<close>

section \<open>The sweep with a record of its visits\<close>

inductive swept :: "loop_env \<Rightarrow> nat \<Rightarrow> server \<Rightarrow> (pollfd \<times> Client) list \<Rightarrow> server \<Rightarrow> bool"
  for env :: loop_env
where
  finish: "t_count (sv_table s) \<le> i \<Longrightarrow> swept env i s [] s"
| listener: "i < t_count (sv_table s) \<Longrightarrow> i < le_listeners env \<Longrightarrow> slot_step env i s = Inr (closed, s1) \<Longrightarrow>
    swept env (if closed then i else Suc i) s1 vs s' \<Longrightarrow> swept env i s vs s'"
| client: "i < t_count (sv_table s) \<Longrightarrow> le_listeners env \<le> i \<Longrightarrow> slot_step env i s = Inr (closed, s1) \<Longrightarrow>
    swept env (if closed then i else Suc i) s1 vs s' \<Longrightarrow>
    swept env i s (conns (le_listeners env) (sv_table s) ! (i - le_listeners env) # vs) s'"

inductive_cases sweptE: "swept env i s vs s'"

text \<open>The record does not change what the loop computes.\<close>

lemma swept_sweep: "swept env i s vs s' \<Longrightarrow> sweep env i s = Some (Inr s')"
proof (induction rule: swept.induct)
  case (finish s i)
  then show ?case by (subst sweep.simps) simp
next
  case (listener i s closed s1 vs s')
  then show ?case by (subst sweep.simps) simp
next
  case (client i s closed s1 vs s')
  then show ?case by (subst sweep.simps) simp
qed

lemma sweep_swept:
  assumes "sweep env i s = Some r"
  shows "\<forall>s'. r = Inr s' \<longrightarrow> (\<exists>vs. swept env i s vs s')"
proof (rule sweep.raw_induct [where P = "\<lambda>env i s r. \<forall>s'. r = Inr s' \<longrightarrow> (\<exists>vs. swept env i s vs s')", OF _ assms])
  fix f env i s r
  assume IH: "\<And>env i s r. f env i s = Some r \<Longrightarrow> \<forall>s'. r = Inr s' \<longrightarrow> (\<exists>vs. swept env i s vs s')"
    and eq: "(if i < t_count (sv_table s)
      then case slot_step env i s of Inl w \<Rightarrow> Some (Inl w)
        | Inr (closed, s1) \<Rightarrow> f env (if closed then i else Suc i) s1
      else Some (Inr s)) = Some r"
  show "\<forall>s'. r = Inr s' \<longrightarrow> (\<exists>vs. swept env i s vs s')"
  proof (cases "i < t_count (sv_table s)")
    case False
    then have "swept env i s [] s" by (intro swept.finish) simp
    with False eq show ?thesis by auto
  next
    case True
    show ?thesis
    proof (cases "slot_step env i s")
      case (Inl w)
      with True eq show ?thesis by auto
    next
      case (Inr x)
      obtain closed s1 where x: "x = (closed, s1)" by (cases x)
      with IH True Inr eq have "\<forall>s'. r = Inr s' \<longrightarrow> (\<exists>vs. swept env (if closed then i else Suc i) s1 vs s')" by simp
      moreover have "\<exists>us. swept env i s us s'" if "swept env (if closed then i else Suc i) s1 vs s'" for vs s'
        using swept.listener [OF True _ Inr [unfolded x] that] swept.client [OF True _ Inr [unfolded x] that]
        by (cases "i < le_listeners env") (auto simp: not_less)
      ultimately show ?thesis by blast
    qed
  qed
qed

section \<open>Each connection once\<close>

text \<open>Swapping the last element into the gap keeps what is still ahead.\<close>

lemma mset_drop_swap:
  assumes "k < length xs"
  shows "mset (drop k (butlast (xs[k := last xs]))) = mset (drop (Suc k) xs)"
proof -
  have ne: "xs \<noteq> []" using assms by auto
  define ys where "ys = drop k xs"
  have ys: "ys \<noteq> []" "last ys = last xs" "tl ys = drop (Suc k) xs" using assms by (simp_all add: ys_def drop_Suc tl_drop)
  have "drop k (butlast (xs[k := last xs])) = butlast (drop k (xs[k := last xs]))"
    by (simp add: butlast_drop)
  also have "drop k (xs[k := last xs]) = ys[0 := last ys]" using assms ys(2) by (simp add: ys_def drop_update_swap)
  finally have "mset (drop k (butlast (xs[k := last xs]))) = mset (butlast (ys[0 := last ys]))" by simp
  moreover have "add_mset (ys ! 0) (mset (butlast (ys[0 := last ys]))) = mset ys"
    using mset_swap_remove [of 0 ys] ys(1) by simp
  moreover have "mset ys = add_mset (ys ! 0) (mset (tl ys))" using ys(1) by (cases ys) simp_all
  ultimately show ?thesis using ys(3) by simp
qed

lemma close_slot_conns:
  assumes "table_ok nl (sv_table s)" "nl \<le> i" "i < t_count (sv_table s)"
  shows "mset (drop (i - nl) (conns nl (sv_table (close_slot i s)))) = mset (drop (Suc (i - nl)) (conns nl (sv_table s)))"
proof -
  obtain t w where c: "close_conn i (sv_table s) (sv_world s) = (t, w)" by (cases "close_conn i (sv_table s) (sv_world s)")
  have "i - nl < length (conns nl (sv_table s))" using assms(2,3) by (simp add: conns_def)
  from mset_drop_swap [OF this] conns_close [OF assms c] show ?thesis by (simp add: close_slot_def c)
qed

lemma client_turn_ahead:
  assumes "life_inv (le_listeners env) s" "le_listeners env \<le> i" "i < t_count (sv_table s)"
    and "slot_step env i s = Inr (closed, s1)"
  shows "mset (drop ((if closed then i else Suc i) - le_listeners env) (conns (le_listeners env) (sv_table s1))) =
     mset (drop (Suc (i - le_listeners env)) (conns (le_listeners env) (sv_table s)))"
proof -
  let ?nl = "le_listeners env"
  have ok: "table_ok ?nl (sv_table s)" using assms(1) by (simp add: life_inv_def)
  have n: "t_count (sv_table s1) = (if closed then t_count (sv_table s) - 1 else t_count (sv_table s))"
    using lifecycle.slot_step_keeps [OF assms(1,3,4)] assms(2) by simp
  from assms show ?thesis
  proof (cases rule: client_turn)
    case kept
    with n assms(3) have "\<not> closed" by auto
    with kept assms(2) show ?thesis by (simp add: Suc_diff_le)
  next
    case dropped
    have "t_count (sv_table s1) = t_count (sv_table s) - 1"
      unfolding dropped by (rule lifecycle.close_count [OF assms(1-3)])
    with n assms(3) have closed by (cases closed) simp_all
    with close_slot_conns [OF ok assms(2,3)] dropped show ?thesis by simp
  next
    case (worked s2 x)
    have ok2: "table_ok ?nl (sv_table s2)" and i2: "i < t_count (sv_table s2)"
      using worked assms(3) by (simp_all add: life_inv_def)
    show ?thesis
    proof (cases "state_at s2 i = CLOSING")
      case True
      with worked have s1: "s1 = close_slot i s2" by simp
      have "t_count (sv_table s1) = t_count (sv_table s) - 1"
        unfolding s1 worked(2) [symmetric] by (rule lifecycle.close_count [OF worked(1) assms(2) i2])
      with n assms(3) have closed by (cases closed) simp_all
      with close_slot_conns [OF ok2 assms(2) i2] s1 worked(3) show ?thesis by simp
    next
      case False
      with worked have s1: "s1 = s2" by simp
      with n worked(2) assms(3) have "\<not> closed" by auto
      with s1 worked(3) assms(2) show ?thesis by (simp add: Suc_diff_le)
    qed
  qed
qed

lemma swept_clients:
  assumes "swept env i s vs s'" "life_inv (le_listeners env) s" "le_listeners env \<le> i"
  shows "mset vs = mset (drop (i - le_listeners env) (conns (le_listeners env) (sv_table s)))"
  using assms
proof (induction rule: swept.induct)
  case (finish s i)
  then show ?case by (simp add: conns_def)
next
  case (client i s closed s1 vs s')
  have k: "i - le_listeners env < length (conns (le_listeners env) (sv_table s))" using client by (simp add: conns_def)
  have "life_inv (le_listeners env) s1" using lifecycle.slot_step_keeps [OF client.prems(1) client.hyps(1,3)] by simp
  moreover have "le_listeners env \<le> (if closed then i else Suc i)" using client.prems(2) by simp
  ultimately have "mset vs = mset (drop (Suc (i - le_listeners env)) (conns (le_listeners env) (sv_table s)))"
    using client.IH client_turn_ahead [OF client.prems client.hyps(1,3)] by simp
  then show ?case using Cons_nth_drop_Suc [OF k] by (metis mset.simps(2))
qed simp

text \<open>The listeners come first; what they let in is looked at too, with no event reported yet.\<close>

definition just_accepted :: "pollfd \<times> Client \<Rightarrow> bool" where
  "just_accepted x \<longleftrightarrow> (case x of (p, c) \<Rightarrow> fresh_client c \<and> pfd_revents p = 0)"

lemma listener_turn:
  assumes "table_ok (le_listeners env) (sv_table s)" "i < le_listeners env" "slot_step env i s = Inr (closed, s1)"
  shows "\<not> closed \<and> (\<exists>new. conns (le_listeners env) (sv_table s1) = conns (le_listeners env) (sv_table s) @ new \<and>
     (\<forall>x \<in> set new. just_accepted x))"
proof -
  from assms(2,3) consider "s1 = s" "\<not> closed" | d es w where "\<not> closed"
      "accept_new_conn (le_sys env) (sv_accept s d) (sv_table s) (sv_world s) = Inr (es, sv_table s1, w)"
    by (auto simp: slot_step_def accept_slot_def Let_def split: if_splits sum.splits)
  then show ?thesis
  proof cases
    case 2
    from accept_new_conn_adds [OF 2(2) assms(1)] obtain new where n:
      "conns (le_listeners env) (sv_table s1) = conns (le_listeners env) (sv_table s) @ new"
      "\<forall>(p, c) \<in> set new. fresh_client c \<and> p = \<lparr>pfd_fd = fd c, pfd_events = POLLIN, pfd_revents = 0\<rparr>" by blast
    from n(2) have "\<forall>x \<in> set new. just_accepted x" by (auto simp: just_accepted_def)
    with n(1) 2(1) show ?thesis by blast
  qed simp
qed

lemma swept_once:
  assumes "swept env i s vs s'" "life_inv (le_listeners env) s" "i \<le> le_listeners env"
  shows "\<exists>new. mset vs = mset (conns (le_listeners env) (sv_table s) @ new) \<and> (\<forall>x \<in> set new. just_accepted x)"
  using assms
proof (induction rule: swept.induct)
  case (finish s i)
  then have "conns (le_listeners env) (sv_table s) = []" by (simp add: life_inv_def table_ok_def conns_def)
  then show ?case by (intro exI [of _ "[]"]) simp
next
  case (listener i s closed s1 vs s')
  have ok: "table_ok (le_listeners env) (sv_table s)" using listener.prems(1) by (simp add: life_inv_def)
  from listener_turn [OF ok listener.hyps(2,3)] obtain n1 where
    1: "\<not> closed" "conns (le_listeners env) (sv_table s1) = conns (le_listeners env) (sv_table s) @ n1"
      "\<forall>x \<in> set n1. just_accepted x" by blast
  have "life_inv (le_listeners env) s1" using lifecycle.slot_step_keeps [OF listener.prems(1) listener.hyps(1,3)] by simp
  with listener.IH 1(1) listener.hyps(2) obtain n2 where
    "mset vs = mset (conns (le_listeners env) (sv_table s1) @ n2)" "\<forall>x \<in> set n2. just_accepted x" by auto
  with 1(2,3) show ?case by (intro exI [of _ "n1 @ n2"]) auto
next
  case (client i s closed s1 vs s')
  have "i = le_listeners env" using client by simp
  with swept_clients [OF swept.client [OF client.hyps(1-4)] client.prems(1) client.hyps(2)] show ?case
    by (intro exI [of _ "[]"]) simp
qed

lemma round_visits:
  assumes "life_inv (le_listeners env) s" "poll_round env (Polled revs) s = Some (Inr s')"
  shows "\<exists>vs new. swept env 0 (c_poll revs s) vs s' \<and>
     mset vs = mset (conns (le_listeners env) (sv_table (c_poll revs s)) @ new) \<and> (\<forall>x \<in> set new. just_accepted x)"
proof -
  from assms(2) sweep_swept obtain vs where v: "swept env 0 (c_poll revs s) vs s'" by (fastforce simp: poll_round_def)
  from swept_once [OF v lifecycle.on_poll [OF assms(1)]] v show ?thesis by blast
qed

end
