(* ===== verification/Request_Log.thy ===== *)
theory Request_Log
  imports Heap_Frames
begin

text \<open>
  What the log holds after a request: one record with the peer, the time, the request line, the
  status and the length of the body.  The record is assembled in three places (\<^verbatim>\<open>do_read\<close> before and
  after the request is served, \<^verbatim>\<open>parse_request\<close> in between) and printed as a C string.
\<close>

section \<open>The record\<close>

definition log_record :: "bytes \<Rightarrow> bytes \<Rightarrow> bytes \<Rightarrow> client_response \<Rightarrow> nat \<Rightarrow> bytes" where
  "log_record addr now line r n =
     addr @ '' '' @ now @ '' \"'' @ line @ ''\" '' @ resp_val_to_status_string r @ '' '' @ print_int n @ [LF]"

lemma show_nat_no_NUL: "NUL \<notin> set (show_nat n)"
  using show_nat_digits [of n] by (force simp: is_digit_def)

lemma print_int_no_NUL: "NUL \<notin> set (print_int n)"
  using show_nat_no_NUL by (auto simp: print_int_def show_int_def)

lemma status_string_no_NUL: "NUL \<notin> set (resp_val_to_status_string r)"
  by (cases r) simp_all

section \<open>How it is assembled\<close>

text \<open>The parser appends its part whatever its verdict is.\<close>

lemma parse_request_le:
  assumes "request_line b len = Some line" "log_line sys fl line le w = (le1, w1)"
    and "parse_request sys fl (Some b) len out resp le w = (rc, req, resp', le', w')"
  shows "le' = le1"
  using assms(3) unfolding parse_request_eq [OF assms(1,2)]
  by (auto simp: Let_def split: list.splits option.splits)

lemma serve_request_le:
  assumes "request_line (block_data w (in_buf c)) (header_len c) = Some line" "log_line sys fl line le w = (le1, w1)"
    and "serve_request sys fl c le w = (c', rp, le', w')"
  shows "le' = le1"
proof -
  obtain rc req resp le2 w2 where
    p: "parse_request sys fl (Some (block_data w (in_buf c))) (header_len c) zero_Request (resp_val c) le w =
        (rc, req, resp, le2, w2)" using prod_cases5 by blast
  have "le' = le2" using assms(3) unfolding serve_request_def p by (auto simp: Let_def split: if_splits prod.splits)
  with parse_request_le [OF assms(1,2) p] show ?thesis by simp
qed

lemma start_log_buf:
  assumes "logging_on fl" "length (client_addr c) < INET6_ADDRSTRLEN" "start_log fl c w = (l, w')"
  shows "le_buf l = client_addr c @ '' ''"
proof -
  have "le_offset zero_LogEntry + length (client_addr c @ '' '') < LOG_BUF_SIZE"
    using assms(2) by (simp add: LOG_BUF_SIZE_def INET6_ADDRSTRLEN_def)
  from log_append_fits(1) [OF log_ok_zero this, of w] assms(1,3) show ?thesis
    by (auto simp: start_log_def zero_LogEntry_def)
qed

lemma request_logs:
  assumes sane: "sane_os sys" and ok: "world_ok w" and out: "out_buf c = None"
    and addr: "length (client_addr c) < INET6_ADDRSTRLEN" "NUL \<notin> set (client_addr c)" and now: "NUL \<notin> set (os_now sys)"
    and inp: "input_ok c e w" "strnstr e (CRLF @ CRLF) (length e) = Some k" and log: "logging_on fl"
    and h: "handle_request sys fl (Some d) c p w = (c', p', w')"
  shows "\<exists>line. request_line e (k + 4) = Some line \<and>
     w_log w' = w_log w @ log_record (client_addr c) (os_now sys) line (resp_val c') (body_len c')"
proof -
  let ?c = "c\<lparr>header_len := k + 4\<rparr>"
  from inp addr(1) obtain l where l: "start_log fl ?c w = (l, w)" "log_ok l" "le_offset l \<le> INET6_ADDRSTRLEN"
    "block_data w (in_buf c) = e" "k + 4 \<le> MAX_REQUEST_SIZE" "request_line e (k + 4) \<noteq> None"
    and u: "handle_request sys fl (Some d) c p w =
       (case serve_request sys fl ?c l w of (c2, rp, le, w2) \<Rightarrow>
          (c2\<lparr>state := SENDING_HEADER\<rparr>, p\<lparr>pfd_events := POLLOUT\<rparr>,
           snd (close_resolve_path_ptr rp (log_reply fl (Some d) c2 le w2))))"
    by (rule handle_request_unfold [where fl = fl]) blast
  from l(6) obtain line where line: "request_line e (k + 4) = Some line" by blast
  note lb = request_line_bounds [OF line]
  have lbuf: "le_buf l = client_addr c @ '' ''" using start_log_buf [OF log _ l(1)] addr(1) by simp
  let ?t = "os_now sys @ '' \"'' @ line @ ''\" ''"
  have fit: "le_offset l + length ?t < LOG_BUF_SIZE" using log_has_room [OF sane l(3,5)] lb(1) by simp
  have ll: "log_line sys fl line l w = (\<lparr>le_buf = le_buf l @ ?t, le_offset = le_offset l + length ?t\<rparr>, w)"
    using log_append_fits(1) [OF l(2) fit] log lb(1) l(5) by (simp add: log_line_def fault_if_def)
  obtain c2 rp le2 w2 where s: "serve_request sys fl ?c l w = (c2, rp, le2, w2)" using prod_cases4 by blast
  have le2: "le_buf le2 = le_buf l @ ?t" "le_offset le2 = le_offset l + length ?t"
    using serve_request_le [OF _ ll s] line l(4) by simp_all
  have o: "out_buf ?c = None" "header_len ?c \<le> MAX_REQUEST_SIZE"
    "le_offset l + length (os_now sys) + header_len ?c < LOG_BUF_SIZE"
    using out l log_has_room [OF sane l(3,5)] by simp_all
  note a = serve_request_apart [OF sane ok o(1) order_refl o(2) l(2) o(3) s]
  let ?r = "resp_val_to_status_string (resp_val c2) @ '' '' @ print_int (body_len c2) @ [LF]"
  have "le_offset le2 + length ?r < LOG_BUF_SIZE"
    using a l(3,5) sane print_int_length [of "body_len c2"] status_string_length [of "resp_val c2"]
    by (simp add: sane_os_def LOG_BUF_SIZE_def INET6_ADDRSTRLEN_def TIME_RECEIVED_LENGTH_def)
  note f = log_append_fits(1) [OF _ this, of w2]
  have n: "NUL \<notin> set (le_buf le2 @ ?r)"
    using addr(2) now lb(2) status_string_no_NUL print_int_no_NUL by (simp add: le2 lbuf)
  have "w_log (log_reply fl (Some d) c2 le2 w2) = w_log w2 @ le_buf le2 @ ?r"
    using f a log cstr_id [OF n] by (simp add: log_reply_def do_logging_def)
  moreover have "w_log w2 = w_log w" using a by (simp add: apart_def)
  moreover have "w_log (snd (close_resolve_path_ptr rp v)) = w_log v" for v
    by (simp add: close_resolve_path_ptr_def world_simps split: option.split)
  ultimately show ?thesis
    using h line unfolding u s by (auto simp: log_record_def le2 lbuf)
qed

section \<open>Properties\<close>

text \<open>
  C29: one record per request.  With logging on and the log open, the handler of a complete request
  appends exactly one record to the log, with the peer's address, the time, the first line of
  the request as it was received, the status that is sent and the length of the body, whatever
  the verdict on the request is and whether or not allocations succeed.
\<close>

theorem request_logged:
  assumes "sane_os sys" "world_ok w" "out_buf c = None" "length (client_addr c) < INET6_ADDRSTRLEN"
    and "NUL \<notin> set (client_addr c)" "NUL \<notin> set (os_now sys)"
    and "input_ok c e w" "strnstr e (CRLF @ CRLF) (length e) = Some k" "logging_on fl"
    and "handle_request sys fl (Some d) c p w = (c', p', w')"
  shows "\<exists>line. request_line e (k + 4) = Some line \<and>
     w_log w' = w_log w @ client_addr c @ '' '' @ os_now sys @ '' \"'' @ line @ ''\" '' @
       resp_val_to_status_string (resp_val c') @ '' '' @ print_int (body_len c') @ [LF]"
  using request_logs [OF assms] by (simp add: log_record_def)

theorem request_logged_witness:
  "\<exists>c' p' w' rest. handle_request sample_os L_FLAG (Some 9) sample_reading
        \<lparr>pfd_fd = 5, pfd_events = POLLIN, pfd_revents = 1\<rparr> sample_reading_world = (c', p', w') \<and>
     w_log w' = client_addr sample_reading @ '' '' @ sample_time @ '' \"GET /a.txt HTTP/1.0\" '' @ rest"
proof -
  obtain c' p' w' where h: "handle_request sample_os L_FLAG (Some 9) sample_reading
        \<lparr>pfd_fd = 5, pfd_events = POLLIN, pfd_revents = 1\<rparr> sample_reading_world = (c', p', w')"
    using prod_cases3 by blast
  have n: "NUL \<notin> set (client_addr sample_reading)" "NUL \<notin> set (os_now sample_os)" "logging_on L_FLAG"
    "w_log sample_reading_world = []" "os_now sample_os = sample_time"
    by (simp_all add: sample_reading_def sample_Client_def sample_os_def sample_time_def logging_on_def flag_set_def L_FLAG_def
        sample_reading_world_def empty_world_def)
  have line: "request_line sample_input (19 + 4) = Some ''GET /a.txt HTTP/1.0''"
    by (simp add: request_line_def strnstr_def cstr_def sample_input_def render_request_def)
  from request_logged [OF sample_os_sane sample_reading_ok(1,4,5) n(1,2) sample_reading_ok(2,3) n(3) h] h
  show ?thesis unfolding line by (auto simp: n(4,5))
qed

end
