(* ===== verification/Spec2Isabelle.thy ===== *)
theory Spec2Isabelle
  imports Leaks Fairness Request_Log
begin

text \<open>
  A verification library for simple_server, an HTTP/1.0 server in C with one thread and a
  \<^verbatim>\<open>poll\<close> loop.  Paths below are relative to \<^verbatim>\<open>src/\<close>.

  \<^bold>\<open>The program.\<close>  \<^verbatim>\<open>main.c\<close> installs signal handlers, reads the command line
  (\<^verbatim>\<open>flags/setFlags.c\<close>), detaches from the terminal, opens libmagic, makes up to two listening
  sockets (\<^verbatim>\<open>sockets/\<close>) and runs the loop; a signal ends it and everything is released.  The loop
  keeps two parallel arrays, \<^verbatim>\<open>pollfd\<close> and \<^verbatim>\<open>Client\<close>, whose first slots are the listeners
  (\<^verbatim>\<open>client_conn/connections.c\<close>).  A readable listener is drained (\<^verbatim>\<open>accept_new_conn.c\<close>); a readable
  client is read until the socket is empty, and when its buffer holds a complete head the
  request is parsed (\<^verbatim>\<open>requests/parse_request.c\<close>), resolved to a file, a directory or a script
  (\<^verbatim>\<open>requests/resolve_path.c\<close>), answered into a heap buffer (\<^verbatim>\<open>response/\<close>) and logged
  (\<^verbatim>\<open>logging/\<close>), all in \<^verbatim>\<open>do_read.c\<close>; a writable client with a staged response is sent to and
  closed (\<^verbatim>\<open>do_write.c\<close>).

  \<^bold>\<open>The model.\<close>  Every function of the server is a HOL function of the same name, in the order of
  the code; large functions are cut at their loops and branches (\<open>serve_request\<close>, \<open>log_reply\<close>
  and \<open>handle_request\<close> are parts of \<^verbatim>\<open>do_read\<close>).  Structs are records, enumerations datatypes,
  bit masks and the port words of their width; \<^verbatim>\<open>size_t\<close> and \<^verbatim>\<open>int\<close> values that are bounded by the
  code are \<open>nat\<close>, with the wrap-around written out where it can happen (\<open>log_room\<close>, \<open>print_int\<close>,
  \<open>atoi\<close>, \<open>bound_port\<close>, the doubling in \<open>grow_lists\<close>).  The state outside the server's variables
  is the record \<open>world\<close> (heap blocks, streams, descriptors, bytes sent, logged and printed,
  faults); the table records in which blocks its two arrays are;
  undefined behaviour is recorded as a fault.  What the operating system and libmagic answer
  is the parameter \<open>os\<close>, \<open>startup\<close> or \<open>sock_env\<close>, or a script of events; \<open>sane_os\<close> collects
  what is relied on.  A call of \<^verbatim>\<open>exit\<close> is an \<open>Inl\<close>.

  \<^item> \<open>Prelude\<close>, \<open>C_Library\<close>: lists, decimal numbers, header lines; the C string functions.
  \<^item> \<open>World\<close>, \<open>Server_Types\<close>: the machine; structs, enumerations, constants.
  \<^item> \<open>Logging\<close>, \<open>Parse_Request\<close>, \<open>Resolve_Path\<close>: the log entry; the request line against a
    declarative verdict; paths against a specification on the file system, with containment.
  \<^item> \<open>Response\<close>, \<open>Error_Response\<close>, \<open>File_Response\<close>, \<open>Dir_Response\<close>, \<open>Cgi_Response\<close>,
    \<open>Okay_Response\<close>: the contract of a builder as a locale, its instances, the dispatch.
  \<^item> \<open>Connections\<close>, \<open>Accept\<close>: the table as a multiset of connections; the accept loop.
  \<^item> \<open>Do_Read\<close>, \<open>Request_Pipeline\<close>, \<open>Request_Log\<close>: the receive loop; the reply as a function of the
    request bytes and the system's answers; the record in the log.
  \<^item> \<open>Heap_Frames\<close>, \<open>Do_Write\<close>: what a handler leaves alone; the send loop and the way from a
    request to the wire.
  \<^item> \<open>Flags\<close>, \<open>Sockets\<close>, \<open>Event_Loop\<close>: the command line, the listeners, \<^verbatim>\<open>main\<close>.  The locales
    \<open>slot_invariant\<close> and \<open>loop_invariant\<close> carry every invariant of the loop.
  \<^item> \<open>Leak_Frames\<close>: which blocks and streams each handler may leave behind.
  \<^item> \<open>Lifecycle\<close>, \<open>Heap_Safety\<close>, \<open>Fairness\<close>, \<open>Service\<close>, \<open>Leaks\<close>: the states of a connection, the
    ownership of every block, stream and descriptor, what a round visits, one request through
    the loop, and the two objects that lose their owner.

  \<^bold>\<open>What is shown.\<close>  The bytes of every reply are those of a specification and form a well-formed
  response; they reach the socket whole, in order and once.  Parsing, resolving and the
  builders refine their specifications on every branch.  In every reachable state the table is
  well-formed and its arrays as large as its capacity says, connections follow their
  lifecycle, buffers are owned by one connection, nothing of a closed connection is left, and
  only two known kinds of undefined behaviour have happened.  Rounds end, visit each connection
  once, and a signal ends the server with its descriptors, blocks and database released.  Some
  theorems state defects: a served file is closed twice, an oversized request is never
  answered, the output of a script and the stream of a refused script are forgotten (the two
  exceptions to leak-freedom, which is why it is stated for blocks with CGI disabled and for
  streams with CGI enabled), a trailing \<^verbatim>\<open>..\<close> leaves the served directory, a refused \<^verbatim>\<open>send\<close> ends
  the process, a port above 65535 is cut.

  \<^bold>\<open>Loops.\<close>  No fuel is used.  The loops on input scripts and on the response recurse with a
  measure (\<open>io_weight\<close>, the bytes still to send).  The loop over the slots and the one of the
  shutdown step back, so they are partial functions into \<open>option\<close>, and it is shown that they
  return.  The outer loop takes a list of turns; with none left it is waiting in \<^verbatim>\<open>poll\<close>.

  \<^bold>\<open>Not modelled.\<close>  \<^verbatim>\<open>fflush\<close> of the log, which changes only when bytes reach the disk; what the
  CGI child does between \<^verbatim>\<open>fork\<close> and \<^verbatim>\<open>execve\<close> beyond the arguments and the environment it passes;
  the signal a \<^verbatim>\<open>send\<close> on a broken connection raises; the macros of \<^verbatim>\<open>debug/debug.h\<close>, which are
  empty outside debug builds; tests, build files and DTrace scripts, which are not part of the
  server.
\<close>

section \<open>Memory\<close>



text \<open>
  C12: the table is typed by its two arrays.  In every state the server reaches, each array is a
  live block with room for exactly as many entries as the capacity says, however often the arrays
  have moved; the count never exceeds the capacity; the slots of the listeners hold a \<^verbatim>\<open>pollfd\<close>, and
  every further slot below the count holds a \<^verbatim>\<open>pollfd\<close> and a \<^verbatim>\<open>Client\<close> for the same descriptor.  So
  every index the loop uses is inside both arrays.
\<close>

theorem table_typed:
  assumes "main_init env sys so4 so6 argv w = Inr (cfg, lenv, l4, l6, t, w1)" "world_ok w" "sane_os sys" "w_faults w = []"
    and "reachable lenv (start_server t w1) s"
  shows "let tab = sv_table s; nl = le_listeners lenv
     in (\<exists>b. w_blocks (sv_world s) (t_pfds_at tab) = Some b \<and> b_size b = SIZEOF_POLLFD * t_size tab) \<and>
        (\<exists>b. w_blocks (sv_world s) (t_clients_at tab) = Some b \<and> b_size b = SIZEOF_CLIENT * t_size tab) \<and>
        length (t_pfds tab) = t_size tab \<and> length (t_clients tab) = t_size tab \<and> t_count tab \<le> t_size tab \<and>
        (\<forall>i < nl. \<exists>p. t_pfds tab ! i = Some p) \<and>
        (\<forall>i. nl \<le> i \<and> i < t_count tab \<longrightarrow>
           (\<exists>p c. t_pfds tab ! i = Some p \<and> t_clients tab ! i = Some c \<and> pfd_fd p = fd c))"
proof -
  note h = reached_owned [OF assms]
  then have t: "table_ok (le_listeners lenv) (sv_table s)" by (simp add: heap_inv_def life_inv_def)
  have "\<exists>p c. t_pfds (sv_table s) ! i = Some p \<and> t_clients (sv_table s) ! i = Some c \<and> pfd_fd p = fd c"
    if "le_listeners lenv \<le> i \<and> i < t_count (sv_table s)" for i
  proof -
    have "slot_ok (sv_table s) i" using t that by (simp add: table_ok_def)
    then show ?thesis by (rule slot_okE) blast
  qed
  moreover have "\<forall>a \<in> set (arrays (sv_table s)). array_live (sv_world s) a" using h by (simp add: heap_inv_def heap_ok_def)
  ultimately show ?thesis using t by (auto simp: Let_def table_ok_def arrays_def array_live_def)
qed

theorem table_typed_witness:
  "\<exists>s b. reachable sample_loop_env sample_start s \<and> map fd (clients 2 (sv_table s)) = [7] \<and>
     w_blocks (sv_world s) (t_clients_at (sv_table s)) = Some b \<and> b_size b = SIZEOF_CLIENT * t_size (sv_table s)"
proof -
  from sample_reached obtain s where s: "reachable sample_loop_env sample_start s" "map fd (clients 2 (sv_table s)) = [7]"
    by (elim exE conjE)
  from table_typed [OF sample_main_init sample_world_ok sample_os_sane sample_no_faults s(1) [unfolded sample_start_def]]
  obtain b where "w_blocks (sv_world s) (t_clients_at (sv_table s)) = Some b" "b_size b = SIZEOF_CLIENT * t_size (sv_table s)"
    unfolding Let_def by (elim exE conjE)
  with s show ?thesis by (intro exI conjI)
qed

text \<open>
  C13: no leak.  In every state the server reaches, with CGI disabled the live heap blocks are those
  that were live before \<^verbatim>\<open>main\<close>, the two arrays and the buffers of the connections in the table, and
  with CGI enabled no stream is open that was not open when the loop started: nothing a closed
  connection used is left, whichever allocations failed on the way.
\<close>

theorem no_leak:
  assumes "main_init env sys so4 so6 argv w = Inr (cfg, lenv, l4, l6, t, w1)" "world_ok w" "sane_os sys" "w_faults w = []"
    and "reachable lenv (start_server t w1) s"
  shows "let owners = set (map fst (arrays (sv_table s))) \<union> (\<Union>c \<in> set (clients (le_listeners lenv) (sv_table s)). set (owned c))
     in owners \<subseteq> dom (w_blocks (sv_world s)) \<and>
        (\<not> flag_set (app_flags cfg) C_FLAG \<longrightarrow> dom (w_blocks (sv_world s)) \<subseteq> dom (w_blocks w) \<union> owners) \<and>
        (flag_set (app_flags cfg) C_FLAG \<longrightarrow> dom (w_streams (sv_world s)) \<subseteq> dom (w_streams w1))"
proof -
  let ?cs = "clients (le_listeners lenv) (sv_table s)"
  let ?o = "set (map fst (arrays (sv_table s)) @ concat (map owned ?cs))"
  have f: "le_flags lenv = app_flags cfg" using main_init_ok(1) [OF assms(1,2)] by simp
  have h: "heap_ok (before_loop w w1 (flag_set (app_flags cfg) C_FLAG)) (arrays (sv_table s)) ?cs (sv_world s)"
    using reached_owned [OF assms] by (simp add: heap_inv_def f)
  have o: "?o = set (map fst (arrays (sv_table s))) \<union> (\<Union>c \<in> set ?cs. set (owned c))" by auto
  have "?o \<subseteq> dom (w_blocks (sv_world s))" using heap_ok_live(1) [OF h] by blast
  moreover have "i \<in> dom (w_blocks w) \<union> ?o" if "\<not> flag_set (app_flags cfg) C_FLAG" "i \<in> dom (w_blocks (sv_world s))" for i
  proof (rule ccontr)
    assume "i \<notin> dom (w_blocks w) \<union> ?o"
    with h that(1) have "w_blocks (sv_world s) i = None" by (simp add: heap_ok_def before_loop_def)
    with that(2) show False by (simp add: domIff)
  qed
  moreover have "i \<in> dom (w_streams w1)" if "flag_set (app_flags cfg) C_FLAG" "i \<in> dom (w_streams (sv_world s))" for i
  proof (rule ccontr)
    assume "i \<notin> dom (w_streams w1)"
    with h that(1) have "w_streams (sv_world s) i = None" by (simp add: heap_ok_def before_loop_def)
    with that(2) show False by (simp add: domIff)
  qed
  ultimately show ?thesis unfolding Let_def o by blast
qed

theorem no_leak_witness:
  "\<exists>s. reachable sample_loop_env sample_start s \<and> map fd (clients 2 (sv_table s)) = [7] \<and>
     dom (w_blocks (sv_world s)) =
       set (map fst (arrays (sv_table s))) \<union> set (concat (map owned (clients 2 (sv_table s))))"
proof -
  from sample_reached obtain s where s: "reachable sample_loop_env sample_start s" "map fd (clients 2 (sv_table s)) = [7]"
    by (elim exE conjE)
  have "\<not> flag_set (app_flags init_config) C_FLAG" "dom (w_blocks empty_world) = {}" "le_listeners sample_loop_env = 2"
    by (simp_all add: init_config_def empty_world_def sample_loop_env_def)
  with no_leak [OF sample_main_init sample_world_ok sample_os_sane sample_no_faults s(1) [unfolded sample_start_def]]
  have "dom (w_blocks (sv_world s)) =
       set (map fst (arrays (sv_table s))) \<union> set (concat (map owned (clients 2 (sv_table s))))"
    unfolding Let_def by auto
  with s show ?thesis by (intro exI conjI)
qed

section \<open>The loop\<close>

text \<open>
  C7: each connection once.  The loop over the slots changes the table while it runs: closing a
  connection moves the last slot into the gap, and the loop looks at the same index again.  For
  a round that ends, the connections it looked at, each as it was at that moment, are exactly
  the connections of the table when \<^verbatim>\<open>poll\<close> returned, each once and unchanged, and those accepted in
  this round, with no event reported.  So no connection is skipped or handled twice, and none
  sees an effect of another's turn.
\<close>

theorem each_connection_once:
  assumes "life_inv (le_listeners env) s" "poll_round env (Polled revs) s = Some (Inr s')"
  shows "\<exists>vs new. swept env 0 (c_poll revs s) vs s' \<and>
     mset vs = mset (conns (le_listeners env) (sv_table (c_poll revs s)) @ new) \<and>
     (\<forall>(p, c) \<in> set new. fresh_client c \<and> pfd_revents p = 0)"
  using round_visits [OF assms] unfolding just_accepted_def by blast

theorem each_connection_once_witness:
  "\<exists>s' vs new. swept sample_loop_env 0 (c_poll sample_events sample_arrival) vs s' \<and>
     mset vs = mset (conns 2 (sv_table (c_poll sample_events sample_arrival)) @ new) \<and> map fd (clients 2 (sv_table s')) = [7]"
proof -
  from sample_round obtain s' where s': "poll_round sample_loop_env (Polled sample_events) sample_arrival = Some (Inr s')"
    "map fd (clients 2 (sv_table s')) = [7]" by (elim exE conjE)
  have "life_inv (le_listeners sample_loop_env) sample_start"
    using started_settled [OF sample_main_init sample_world_ok] by (simp add: settled_def sample_start_def)
  then have "life_inv (le_listeners sample_loop_env) sample_arrival"
    unfolding sample_arrival_def by (rule lifecycle.on_environment)
  moreover have "le_listeners sample_loop_env = 2" by (simp add: sample_loop_env_def)
  ultimately show ?thesis using each_connection_once [OF _ s'(1)] s'(2) by metis
qed

text \<open>
  C8: every round of the poll loop returns, although the loop over the slots steps back whenever
  it closes a connection: from a well-formed state, whatever \<^verbatim>\<open>poll\<close> reports, the round ends, by
  leaving the process or in a well-formed state again.
\<close>

theorem poll_round_always_returns:
  assumes "life_inv (le_listeners env) s"
  shows "\<exists>r. poll_round env p s = Some r \<and> (\<forall>s'. r = Inr s' \<longrightarrow> life_inv (le_listeners env) s')"
  using assms by (rule lifecycle.turns.poll_round_returns)

theorem poll_round_always_returns_witness:
  "life_inv 1 sample_serving \<and> (\<exists>r. poll_round sample_env (Polled (\<lambda>_. POLLHUP)) sample_serving = Some r)"
proof -
  have l: "life_inv (le_listeners sample_env) sample_serving" using sample_serving_inv by (simp add: heap_inv_def)
  with poll_round_always_returns [OF l, of "Polled (\<lambda>_. POLLHUP)"] show ?thesis by (auto simp: sample_env_def)
qed

text \<open>
  C9: the lifecycle.  In every state the server reaches after start-up the table is well-formed,
  and every connection is in one of three states: reading, waiting for input, with nothing
  staged; sending, waiting for output, with nothing sent yet; or processing, after an oversized
  request.  No connection is left in \<^verbatim>\<open>CLOSING\<close> between two rounds.  Nothing is assumed of the
  operating system.
\<close>

theorem lifecycle_holds:
  assumes "main_init env sys so4 so6 argv w = Inr (cfg, lenv, l4, l6, t, w1)" "world_ok w"
    and "reachable lenv (start_server t w1) s"
  shows "table_ok (le_listeners lenv) (sv_table s) \<and>
     (\<forall>(p, c) \<in> set (conns (le_listeners lenv) (sv_table s)).
        state c = READING \<and> pfd_events p = POLLIN \<and> out_buf c = None \<or>
        state c = SENDING_HEADER \<and> pfd_events p = POLLOUT \<and> output_sent c = 0 \<or>
        state c = PROCESSING \<and> pfd_events p = POLLIN \<and> out_buf c = None \<and> resp_val c = RESP_414)"
proof -
  have "settled (le_listeners lenv) s"
    by (rule settling.reachable_keeps [OF assms(3) started_settled [OF assms(1,2)]])
  then show ?thesis using life_states by (fastforce simp: settled_def life_inv_def)
qed

theorem lifecycle_holds_witness:
  "\<exists>s. reachable sample_loop_env sample_start s \<and> map fd (clients 2 (sv_table s)) = [7] \<and> table_ok 2 (sv_table s)"
proof -
  from sample_reached obtain s where s: "reachable sample_loop_env sample_start s" "map fd (clients 2 (sv_table s)) = [7]"
    by (elim exE conjE)
  from lifecycle_holds [OF sample_main_init sample_world_ok s(1) [unfolded sample_start_def]] s
  show ?thesis by (intro exI [of _ s]) (simp add: sample_loop_env_def)
qed

section \<open>From start to exit\<close>


definition sample_turns :: "turn list" where
  "sample_turns =
     [\<lparr>tn_in = (\<lambda>_. []), tn_accept = (\<lambda>_. []), tn_send = (\<lambda>_. []), tn_poll = Poll_failed EINTR, tn_signal = True\<rparr>]"



lemma sample_main_exits:
  "\<exists>w2. main sample_startup sample_os (sample_sockets 3) (sample_sockets 4) [''sws''] sample_turns empty_world =
     Some (EXIT_SUCCESS w2)"
proof -
  let ?s = "deliver (hd sample_turns) (start_server (init_table 0 1 [3, 4]) (sample_listening 8080))"
  have l: "main_loop sample_loop_env True sample_turns (start_server (init_table 0 1 [3, 4]) (sample_listening 8080)) = Some (Inr ?s)"
    by (simp add: sample_turns_def poll_round_def shutdown_server_def)
  have "close_all (le_listeners sample_loop_env) ?s = Some ?s"
    by (subst close_all.simps) (simp add: deliver_def start_server_def init_table_def sample_loop_env_def)
  then show ?thesis unfolding main_def sample_main_init using l by (simp add: shutdown_def)
qed


section \<open>A request through the loop\<close>



section \<open>Two defects of the handlers\<close>

text \<open>
  C36: a served file is closed twice.  After a request for a plain file the connection still holds
  the stream that the handler has closed, and closing the connection closes that stream again,
  which is undefined behaviour.
\<close>

theorem served_file_closed_twice:
  assumes "sane_os sys" "world_ok w" "length (client_addr c) < INET6_ADDRSTRLEN"
    and "input_ok c e w" "strnstr e (CRLF @ CRLF) (length e) = Some k" "parse_verdict e (k + 4) = None"
    and "resource_of sys fl (local_path_of (req_path (parsed_request sys e (k + 4)))) = Plain_file f m"
    and "handle_request sys fl log_ptr c p w = (c', p', w')"
  shows "\<exists>h. file_ptr c' = Some h \<and> w_streams w' h = None \<and> DoubleFclose h \<in> set (w_faults (release_client c' w'))"
  using handle_plain_file [OF assms] release_twice by blast

theorem served_file_closed_twice_witness:
  "\<exists>c' p' w' h. handle_request sample_os 0 None sample_reading \<lparr>pfd_fd = 5, pfd_events = POLLIN, pfd_revents = 1\<rparr>
       sample_reading_world = (c', p', w') \<and> DoubleFclose h \<in> set (w_faults (release_client c' w'))"
proof -
  obtain c' p' w' where h: "handle_request sample_os 0 None sample_reading \<lparr>pfd_fd = 5, pfd_events = POLLIN, pfd_revents = 1\<rparr>
       sample_reading_world = (c', p', w')" using prod_cases3 by blast
  have l: "request_line sample_input 23 = Some ''GET /a.txt HTTP/1.0''"
    by (simp add: request_line_def strnstr_def cstr_def sample_input_def render_request_def)
  have ws: "split_words SP ''GET /a.txt HTTP/1.0'' = [''GET'', ''/a.txt'', ''HTTP/1.0'']" by (simp add: split_words_def)
  have "local_path_of ''/a.txt'' = ''./a.txt''" by (simp add: local_path_of_eq PATH_MAX_def)
  moreover have "resource_of sample_os 0 ''./a.txt'' = Plain_file sample_file (get_mime_type_by_ext sample_os ''./a.txt'' sample_file)"
    by (simp add: resource_of_def sample_os_def sample_file_def path_includes_cgi_def strnstr_def cstr_def)
  ultimately have r: "resource_of sample_os 0 (local_path_of (req_path (parsed_request sample_os sample_input (19 + 4)))) =
      Plain_file sample_file (get_mime_type_by_ext sample_os ''./a.txt'' sample_file)"
    by (simp add: parsed_request_def l ws)
  have v: "parse_verdict sample_input (19 + 4) = None"
    by (simp add: parse_verdict_def line_verdict_def l ws sublist_Cons_right PATH_MAX_def)
  from served_file_closed_twice [OF sample_os_sane sample_reading_ok(1,5,2,3) v r h] h show ?thesis by blast
qed

text \<open>
  C37: an oversized request is never answered.  When memory is there and more than
  \<^verbatim>\<open>MAX_REQUEST_SIZE\<close> bytes arrive, the handler leaves the connection in \<^verbatim>\<open>PROCESSING\<close> with code 414,
  nothing staged, nothing sent and still waiting for input; and from then on every turn on such
  a slot without an error event changes nothing.
\<close>

theorem oversized_never_answered:
  assumes "input_ok c e w" "world_ok w" "state c = READING" "\<forall>i. os_alloc sys i"
    and "MAX_REQUEST_SIZE < length e + length (recv_bytes es)" "read_conn sys fl log_ptr c p es w = (c', p', es', w')"
  shows "state c' = PROCESSING \<and> resp_val c' = RESP_414 \<and> p' = p \<and> out_buf c' = out_buf c \<and> w_wire w' = w_wire w \<and>
     (\<forall>env i s. le_listeners env \<le> i \<and> t_clients (sv_table s) ! i = Some c' \<and>
        \<not> has (revents_at s i) (POLLERR OR POLLHUP OR POLLNVAL) \<longrightarrow> slot_step env i s = Inr (False, s))"
proof -
  note r = read_oversized [OF assms]
  then have "slot_step env i s = Inr (False, s)"
    if "le_listeners env \<le> i" "t_clients (sv_table s) ! i = Some c'" "\<not> has (revents_at s i) (POLLERR OR POLLHUP OR POLLNVAL)"
    for env i s
    using that by (intro slot_step_processing) (simp_all add: state_at_def)
  with r show ?thesis by blast
qed

theorem oversized_never_answered_witness:
  "\<exists>c' p' es' w'. read_conn sample_os 0 None sample_Client \<lparr>pfd_fd = 5, pfd_events = POLLIN, pfd_revents = 1\<rparr>
       [Data (replicate 9000 CR)] empty_world = (c', p', es', w') \<and> state c' = PROCESSING \<and> resp_val c' = RESP_414"
proof -
  obtain c' p' es' w' where r: "read_conn sample_os 0 None sample_Client \<lparr>pfd_fd = 5, pfd_events = POLLIN, pfd_revents = 1\<rparr>
       [Data (replicate 9000 CR)] empty_world = (c', p', es', w')" using prod_cases4 by blast
  have c: "input_ok sample_Client [] empty_world" "state sample_Client = READING" "\<forall>i. os_alloc sample_os i"
    "MAX_REQUEST_SIZE < length [] + length (recv_bytes [Data (replicate 9000 CR)])"
    by (simp_all add: input_ok_def sample_Client_def sample_os_def MAX_REQUEST_SIZE_def)
  from oversized_never_answered [OF c(1) sample_world_ok c(2-4) r] r show ?thesis by blast
qed

end
